(* ===== verification/Obmm_Prelude.thy ===== *)
theory Obmm_Prelude
  imports Main "HOL-Library.Word"
begin

unbundle bit_operations_syntax

text \<open>
  Shared vocabulary of the development: the integer types of the C sources, the error numbers,
  the alignment macros, and the generic facts on words and lists that the component theories
  share.  Kernel code returns \<open>0\<close> for success and a negated error number for failure, so return
  codes are kept as integers and the error numbers are named constants.
\<close>

section \<open>Integer types and error numbers\<close>

type_synonym u8 = "8 word"
type_synonym u16 = "16 word"
type_synonym u32 = "32 word"
type_synonym u64 = "64 word"

abbreviation (input) EPERM :: int where "EPERM \<equiv> 1"
abbreviation (input) ENOENT :: int where "ENOENT \<equiv> 2"
abbreviation (input) ESRCH :: int where "ESRCH \<equiv> 3"
abbreviation (input) E2BIG :: int where "E2BIG \<equiv> 7"
abbreviation (input) EAGAIN :: int where "EAGAIN \<equiv> 11"
abbreviation (input) ENOMEM :: int where "ENOMEM \<equiv> 12"
abbreviation (input) EFAULT :: int where "EFAULT \<equiv> 14"
abbreviation (input) EBUSY :: int where "EBUSY \<equiv> 16"
abbreviation (input) EEXIST :: int where "EEXIST \<equiv> 17"
abbreviation (input) ENODEV :: int where "ENODEV \<equiv> 19"
abbreviation (input) EINVAL :: int where "EINVAL \<equiv> 22"
abbreviation (input) ENOTTY :: int where "ENOTTY \<equiv> 25"
abbreviation (input) ENOSPC :: int where "ENOSPC \<equiv> 28"
abbreviation (input) ENODATA :: int where "ENODATA \<equiv> 61"
abbreviation (input) EOVERFLOW :: int where "EOVERFLOW \<equiv> 75"
abbreviation (input) EOPNOTSUPP :: int where "EOPNOTSUPP \<equiv> 95"
abbreviation (input) ETIMEDOUT :: int where "ETIMEDOUT \<equiv> 110"
abbreviation (input) ENOTRECOVERABLE :: int where "ENOTRECOVERABLE \<equiv> 131"

abbreviation (input) NUMA_NO_NODE :: int where "NUMA_NO_NODE \<equiv> - 1"

text \<open>The alignment macros of the kernel headers, on 64-bit values.\<close>

definition IS_ALIGNED :: "u64 \<Rightarrow> u64 \<Rightarrow> bool" where
  "IS_ALIGNED x a \<longleftrightarrow> x AND (a - 1) = 0"

definition ALIGN :: "u64 \<Rightarrow> u64 \<Rightarrow> u64" where
  "ALIGN x a = (x + (a - 1)) AND NOT (a - 1)"

definition ALIGN_DOWN :: "u64 \<Rightarrow> u64 \<Rightarrow> u64" where
  "ALIGN_DOWN x a = ALIGN (x - (a - 1)) a"

text \<open>Page geometry is a build-time choice of the kernel (4K or 64K pages).\<close>

record mm_config =
  PAGE_SHIFT :: nat
  PMD_SHIFT :: nat
  PUD_SHIFT :: nat

abbreviation PAGE_SIZE :: "mm_config \<Rightarrow> u64" where "PAGE_SIZE c \<equiv> push_bit (PAGE_SHIFT c) 1"
abbreviation PMD_SIZE :: "mm_config \<Rightarrow> u64" where "PMD_SIZE c \<equiv> push_bit (PMD_SHIFT c) 1"
abbreviation PUD_SIZE :: "mm_config \<Rightarrow> u64" where "PUD_SIZE c \<equiv> push_bit (PUD_SHIFT c) 1"

definition mm_config_ok :: "mm_config \<Rightarrow> bool" where
  "mm_config_ok c \<longleftrightarrow> 0 < PAGE_SHIFT c \<and> PAGE_SHIFT c \<le> PMD_SHIFT c \<and> PMD_SHIFT c \<le> PUD_SHIFT c
     \<and> PUD_SHIFT c < 64"

section \<open>Facts on words\<close>

named_theorems align_simps

lemma ALIGN_DOWN_eq: "ALIGN_DOWN x a = x AND NOT (a - 1)"
  by (simp add: ALIGN_DOWN_def ALIGN_def)

lemma mask_eq_pow2_minus_1: "(2 ^ k :: 'a::len word) - 1 = mask k"
  by (simp add: mask_eq_decr_exp)

lemma IS_ALIGNED_pow2: "IS_ALIGNED x (2 ^ k) \<longleftrightarrow> 2 ^ k dvd unat x"
proof -
  have "x AND mask k = take_bit k x" by (simp add: take_bit_eq_mask)
  then have "IS_ALIGNED x (2 ^ k) \<longleftrightarrow> take_bit k x = 0"
    by (simp add: IS_ALIGNED_def mask_eq_pow2_minus_1)
  also have "\<dots> \<longleftrightarrow> unat (take_bit k x) = 0" by (simp add: unat_eq_zero)
  also have "\<dots> \<longleftrightarrow> take_bit k (unat x) = 0" by (simp add: unsigned_take_bit_eq)
  also have "\<dots> \<longleftrightarrow> 2 ^ k dvd unat x" by (simp add: take_bit_eq_0_iff)
  finally show ?thesis .
qed

lemma u64_lt: "unat (x :: u64) < 2 ^ 64"
  using unsigned_less [of x] by simp

lemma u64_of_nat_eq_0: "n < 2 ^ 64 \<Longrightarrow> (of_nat n :: u64) = 0 \<longleftrightarrow> n = 0"
  by (auto simp: word_of_nat_eq_0_iff dest: nat_dvd_not_less)

lemma u64_unat_add: "unat (x :: u64) + unat y < 2 ^ 64 \<Longrightarrow> unat (x + y) = unat x + unat y"
  using unat_add_lem [of x y] by simp

lemma u64_unat_Suc: "unat (x :: u64) + 1 < 2 ^ 64 \<Longrightarrow> unat (x + 1) = Suc (unat x)"
  using u64_unat_add [of x 1] by simp

lemma u64_unat_of_nat: "n < 2 ^ 64 \<Longrightarrow> unat (of_nat n :: u64) = n"
  by (subst unat_of_nat) simp

lemma u64_unat_drop_bit: "unat (drop_bit k (x :: u64)) = unat x div 2 ^ k"
  unfolding unat_drop_bit_eq by (simp add: drop_bit_eq_div)

lemma u64_unat_push_bit: "unat x * 2 ^ k < 2 ^ 64 \<Longrightarrow> unat (push_bit k (x :: u64)) = unat x * 2 ^ k"
  unfolding unsigned_push_bit_eq by (simp add: push_bit_eq_mult take_bit_nat_eq_self)

lemma div_add1_le: "(m :: nat) div d + n div d \<le> (m + n) div d"
  by (metis div_add1_eq le_add1)

lemma unat_of_nat_mult:
  fixes g :: "'a::len word"
  assumes "N * unat g < 2 ^ LENGTH('a)" "i \<le> N"
  shows "unat (of_nat i * g) = i * unat g"
proof (cases "g = 0")
  case True then show ?thesis by simp
next
  case False
  have "i * unat g \<le> N * unat g" using assms(2) by simp
  then have b: "i * unat g < 2 ^ LENGTH('a)" using assms(1) by (rule le_less_trans)
  have "unat (of_nat (i * unat g) :: 'a word) = i * unat g"
    by (subst unat_of_nat) (simp add: b)
  then show ?thesis by simp
qed

lemma word_dvd_count:
  fixes sz g :: "'a::len word"
  assumes "sz mod g = 0"
  shows "sz = of_nat (unat (sz div g)) * g" and "unat (sz div g) * unat g = unat sz"
proof -
  show "sz = of_nat (unat (sz div g)) * g"
    using assms div_mult_mod_eq [of sz g] by simp
  show "unat (sz div g) * unat g = unat sz"
    using assms by (metis add.right_neutral div_mult_mod_eq unat_0 unat_div_distrib unat_mod_distrib)
qed

lemma of_nat_mult_le_iff:
  fixes g :: "'a::len word"
  assumes "N * unat g < 2 ^ LENGTH('a)" "i \<le> N" "g \<noteq> 0"
  shows "of_nat N * g \<le> of_nat i * g \<longleftrightarrow> i = N"
proof -
  have "of_nat N * g \<le> of_nat i * g \<longleftrightarrow> N * unat g \<le> i * unat g"
    using unat_of_nat_mult [OF assms(1) assms(2)] unat_of_nat_mult [OF assms(1), of N]
    by (simp add: word_le_nat_alt)
  also have "\<dots> \<longleftrightarrow> N \<le> i" using assms(3) by (simp add: unat_gt_0)
  finally show ?thesis using assms(2) by auto
qed

lemma of_nat_mult_eq_0_iff:
  fixes g :: "'a::len word"
  assumes "N * unat g < 2 ^ LENGTH('a)" "g \<noteq> 0"
  shows "of_nat N * g = 0 \<longleftrightarrow> N = 0"
  using unat_of_nat_mult [OF assms(1), of N] assms(2)
  by (metis mult_eq_0_iff order_refl unat_eq_zero of_nat_0 mult_zero_left)

lemma unat_ALIGN_DOWN_pow2: "unat (ALIGN_DOWN x (2 ^ k)) = unat x div 2 ^ k * 2 ^ k"
proof -
  have e: "ALIGN_DOWN x (2 ^ k) = push_bit k (drop_bit k x)"
    unfolding ALIGN_DOWN_eq mask_eq_pow2_minus_1 by (rule bit_word_eqI) (auto simp: bit_simps)
  have "unat (drop_bit k x) * 2 ^ k \<le> unat x" by (simp add: u64_unat_drop_bit)
  then have "unat (drop_bit k x) * 2 ^ k < 2 ^ 64" using u64_lt [of x] by linarith
  then show ?thesis by (simp add: e u64_unat_push_bit u64_unat_drop_bit)
qed

lemma unat_p2: "k < 64 \<Longrightarrow> unat (2 ^ k :: u64) = 2 ^ k"
proof -
  assume k: "k < 64"
  then have "(2 :: nat) ^ k < 2 ^ 64" by (rule power_strict_increasing) simp
  then have "unat (1 :: u64) * 2 ^ k < 2 ^ 64" by simp
  from u64_unat_push_bit [OF this] show ?thesis by (simp add: push_bit_eq_mult)
qed

lemma p2_nonzero: "k < 64 \<Longrightarrow> (2 ^ k :: u64) \<noteq> 0"
  using unat_p2 [of k] by (metis power_not_zero unat_0 zero_neq_numeral)

lemma unat_ALIGN_pow2:
  assumes "unat x + 2 ^ k \<le> 2 ^ 64" "k < 64"
  shows "unat (ALIGN x (2 ^ k)) = (unat x + 2 ^ k - 1) div 2 ^ k * 2 ^ k"
proof -
  have p: "unat (2 ^ k :: u64) = 2 ^ k" using assms(2) by (simp add: unat_p2)
  then have m: "unat (2 ^ k - 1 :: u64) = 2 ^ k - 1"
    using unat_minus_one [OF p2_nonzero [OF assms(2)]] by simp
  have "unat (x + (2 ^ k - 1)) = unat x + (2 ^ k - 1)"
    by (subst u64_unat_add) (use assms(1) m in auto)
  moreover have "ALIGN x (2 ^ k) = ALIGN_DOWN (x + (2 ^ k - 1)) (2 ^ k)" by (simp add: ALIGN_def ALIGN_DOWN_eq)
  ultimately show ?thesis by (simp add: unat_ALIGN_DOWN_pow2)
qed


lemma u64_sint: "sint (x :: u64) = (if unat x < 2 ^ 63 then int (unat x) else int (unat x) - 2 ^ 64)"
proof -
  have l: "uint x < 2 ^ 64" using unsigned_less [of x] by simp
  have l0: "0 \<le> uint x" by simp
  have e: "sint x = signed_take_bit 63 (uint x)" by (simp add: sint_uint)
  have "signed_take_bit 63 (uint x) = (uint x + 2 ^ 63) mod 2 ^ 64 - 2 ^ 63"
    by (subst signed_take_bit_eq_take_bit_shift) (simp add: take_bit_eq_mod)
  moreover have "(uint x + 2 ^ 63) mod 2 ^ 64 = (if uint x < 2 ^ 63 then uint x + 2 ^ 63 else uint x - 2 ^ 63)"
  proof (cases "uint x < 2 ^ 63")
    case True
    then have "(uint x + 2 ^ 63) mod 2 ^ 64 = uint x + 2 ^ 63"
      using l0 by (intro mod_pos_pos_trivial) simp_all
    then show ?thesis using True by simp
  next
    case False
    have "(uint x + 2 ^ 63) mod 2 ^ 64 = (uint x + 2 ^ 63 - 2 ^ 64) mod 2 ^ 64"
      by (rule minus_mod_self2 [symmetric])
    also have "\<dots> = uint x + 2 ^ 63 - 2 ^ 64"
      using l False by (intro mod_pos_pos_trivial) simp_all
    finally show ?thesis using False by simp
  qed
  moreover have n: "int (unat x) = uint x" by simp
  moreover have "unat x < 2 ^ 63 \<longleftrightarrow> uint x < 2 ^ 63"
    unfolding n [symmetric] by (metis of_nat_less_iff of_nat_numeral of_nat_power)
  ultimately show ?thesis using e by simp
qed

lemma unat_sub_wrap: "unat (x - y :: u64) = (if unat y \<le> unat x then unat x - unat y else unat x + 2 ^ 64 - unat y)"
  using unat_sub_if' [of x y] by simp

lemma round_down_gt: "0 < (g :: nat) \<Longrightarrow> d < d div g * g + g"
  using div_mult_mod_eq [of d g] mod_less_divisor [of g d] by linarith

section \<open>Updates of a range of a list\<close>

definition upd_range :: "nat \<Rightarrow> nat \<Rightarrow> ('a \<Rightarrow> 'a) \<Rightarrow> 'a list \<Rightarrow> 'a list" where
  "upd_range i n f xs = map (\<lambda>k. if i \<le> k \<and> k < i + n then f (xs ! k) else xs ! k) [0..<length xs]"

lemma upd_range_length [simp]: "length (upd_range i n f xs) = length xs"
  by (simp add: upd_range_def)

lemma upd_range_nth:
  "k < length xs \<Longrightarrow> upd_range i n f xs ! k = (if i \<le> k \<and> k < i + n then f (xs ! k) else xs ! k)"
  by (simp add: upd_range_def)

lemma upd_range_0 [simp]: "upd_range i 0 f xs = xs"
  by (rule nth_equalityI) (auto simp: upd_range_nth)

lemma upd_range_Suc:
  "i < length xs \<Longrightarrow> upd_range (Suc i) n f (xs[i := f (xs ! i)]) = upd_range i (Suc n) f xs"
  by (rule nth_equalityI) (auto simp: upd_range_nth nth_list_update)

lemma upd_range_inverse:
  "(\<And>x. g (f x) = x) \<Longrightarrow> upd_range i n g (upd_range i n f xs) = xs"
  by (rule nth_equalityI) (auto simp: upd_range_nth)

lemma ex_range_Suc:
  "(\<exists>k. i \<le> k \<and> k < i + Suc n \<and> Q k) \<longleftrightarrow> Q i \<or> (\<exists>k. Suc i \<le> k \<and> k < Suc i + n \<and> Q k)"
proof -
  have e: "i \<le> k \<and> k < i + Suc n \<longleftrightarrow> k = i \<or> Suc i \<le> k \<and> k < Suc i + n" for k by auto
  show ?thesis unfolding conj_assoc [symmetric] e conj_disj_distribR ex_disj_distrib by simp
qed

end
