(* ===== verification/Obmm_Types.thy ===== *)
theory Obmm_Types
  imports Obmm_Prelude
begin

text \<open>
  The data that the OBMM files share: the constants of the user interface
  (\<^verbatim>\<open>include/uapi/ub/obmm.h\<close>) and the regions of \<^verbatim>\<open>drivers/ub/obmm/obmm_core.h\<close>.  A region is a set of
  memory shared between hosts, either exported by this host or imported from another one.  The C
  code embeds \<open>struct obmm_region\<close> in the import and the export region and tells them apart by a
  \<open>type\<close> field; here that is a datatype with one constructor for each.
\<close>

section \<open>Constants of the user interface\<close>

abbreviation (input) OBMM_MAX_LOCAL_NUMA_NODES :: nat where "OBMM_MAX_LOCAL_NUMA_NODES \<equiv> 16"
abbreviation (input) MAX_NUMA_DIST :: int where "MAX_NUMA_DIST \<equiv> 255"
abbreviation (input) OBMM_MAX_PRIV_LEN :: nat where "OBMM_MAX_PRIV_LEN \<equiv> 512"
abbreviation (input) OBMM_MAX_VENDOR_LEN :: nat where "OBMM_MAX_VENDOR_LEN \<equiv> 128"

abbreviation (input) OBMM_EXPORT_FLAG_ALLOW_MMAP :: u64 where "OBMM_EXPORT_FLAG_ALLOW_MMAP \<equiv> 0x1"
abbreviation (input) OBMM_EXPORT_FLAG_FAST :: u64 where "OBMM_EXPORT_FLAG_FAST \<equiv> 0x2"
abbreviation (input) OBMM_EXPORT_FLAG_MASK :: u64 where
  "OBMM_EXPORT_FLAG_MASK \<equiv> OBMM_EXPORT_FLAG_ALLOW_MMAP OR OBMM_EXPORT_FLAG_FAST"
abbreviation (input) OBMM_UNEXPORT_FLAG_MASK :: u64 where "OBMM_UNEXPORT_FLAG_MASK \<equiv> 0"

abbreviation (input) OBMM_IMPORT_FLAG_ALLOW_MMAP :: u64 where "OBMM_IMPORT_FLAG_ALLOW_MMAP \<equiv> 0x1"
abbreviation (input) OBMM_IMPORT_FLAG_PREIMPORT :: u64 where "OBMM_IMPORT_FLAG_PREIMPORT \<equiv> 0x2"
abbreviation (input) OBMM_IMPORT_FLAG_NUMA_REMOTE :: u64 where "OBMM_IMPORT_FLAG_NUMA_REMOTE \<equiv> 0x4"
abbreviation (input) OBMM_IMPORT_FLAG_MASK :: u64 where
  "OBMM_IMPORT_FLAG_MASK \<equiv>
     OBMM_IMPORT_FLAG_ALLOW_MMAP OR OBMM_IMPORT_FLAG_PREIMPORT OR OBMM_IMPORT_FLAG_NUMA_REMOTE"
abbreviation (input) OBMM_UNIMPORT_FLAG_MASK :: u64 where "OBMM_UNIMPORT_FLAG_MASK \<equiv> 0"
abbreviation (input) OBMM_PREIMPORT_FLAG_MASK :: u64 where "OBMM_PREIMPORT_FLAG_MASK \<equiv> 0"
abbreviation (input) OBMM_UNPREIMPORT_FLAG_MASK :: u64 where "OBMM_UNPREIMPORT_FLAG_MASK \<equiv> 0"
abbreviation (input) OBMM_MMAP_FLAG_HUGETLB_PMD :: u64 where "OBMM_MMAP_FLAG_HUGETLB_PMD \<equiv> 0x8000000000000000"

abbreviation (input) OBMM_SHM_MEM_CACHE_RESV :: u8 where "OBMM_SHM_MEM_CACHE_RESV \<equiv> 0x0"
abbreviation (input) OBMM_SHM_MEM_NORMAL :: u8 where "OBMM_SHM_MEM_NORMAL \<equiv> 0x1"
abbreviation (input) OBMM_SHM_MEM_NORMAL_NC :: u8 where "OBMM_SHM_MEM_NORMAL_NC \<equiv> 0x2"
abbreviation (input) OBMM_SHM_MEM_DEVICE :: u8 where "OBMM_SHM_MEM_DEVICE \<equiv> 0x3"
abbreviation (input) OBMM_SHM_MEM_CACHE_MASK :: u8 where "OBMM_SHM_MEM_CACHE_MASK \<equiv> 0x3"
abbreviation (input) OBMM_SHM_MEM_READONLY :: u8 where "OBMM_SHM_MEM_READONLY \<equiv> 0x0"
abbreviation (input) OBMM_SHM_MEM_READEXEC :: u8 where "OBMM_SHM_MEM_READEXEC \<equiv> 0x4"
abbreviation (input) OBMM_SHM_MEM_READWRITE :: u8 where "OBMM_SHM_MEM_READWRITE \<equiv> 0x8"
abbreviation (input) OBMM_SHM_MEM_NO_ACCESS :: u8 where "OBMM_SHM_MEM_NO_ACCESS \<equiv> 0xc"
abbreviation (input) OBMM_SHM_MEM_ACCESS_MASK :: u8 where "OBMM_SHM_MEM_ACCESS_MASK \<equiv> 0xc"

abbreviation (input) OBMM_SHM_CACHE_NONE :: "'a::len word" where "OBMM_SHM_CACHE_NONE \<equiv> 0x0"
abbreviation (input) OBMM_SHM_CACHE_INVAL :: "'a::len word" where "OBMM_SHM_CACHE_INVAL \<equiv> 0x1"
abbreviation (input) OBMM_SHM_CACHE_WB_INVAL :: "'a::len word" where "OBMM_SHM_CACHE_WB_INVAL \<equiv> 0x2"
abbreviation (input) OBMM_SHM_CACHE_WB_ONLY :: "'a::len word" where "OBMM_SHM_CACHE_WB_ONLY \<equiv> 0x3"
abbreviation (input) OBMM_SHM_CACHE_INFER :: "'a::len word" where "OBMM_SHM_CACHE_INFER \<equiv> 0x4"

text \<open>The bits of a mapping's \<open>vm_flags\<close> that the sources use.\<close>

abbreviation (input) VM_READ :: u64 where "VM_READ \<equiv> 0x1"
abbreviation (input) VM_WRITE :: u64 where "VM_WRITE \<equiv> 0x2"
abbreviation (input) VM_EXEC :: u64 where "VM_EXEC \<equiv> 0x4"
abbreviation (input) VM_MAYREAD :: u64 where "VM_MAYREAD \<equiv> 0x10"
abbreviation (input) VM_MAYWRITE :: u64 where "VM_MAYWRITE \<equiv> 0x20"
abbreviation (input) VM_MAYEXEC :: u64 where "VM_MAYEXEC \<equiv> 0x40"

section \<open>Regions\<close>

datatype obmm_mmap_mode = OBMM_MMAP_INIT | OBMM_MMAP_NORMAL | OBMM_MMAP_OSYNC

datatype obmm_mmap_granu = OBMM_MMAP_GRANU_NONE | OBMM_MMAP_GRANU_PAGE | OBMM_MMAP_GRANU_PMD

abbreviation (input) OBMM_REGION_FLAG_NUMA_REMOTE :: u64 where "OBMM_REGION_FLAG_NUMA_REMOTE \<equiv> 0x1"
abbreviation (input) OBMM_REGION_FLAG_ALLOW_MMAP :: u64 where "OBMM_REGION_FLAG_ALLOW_MMAP \<equiv> 0x2"
abbreviation (input) OBMM_REGION_FLAG_MEMORY_FROM_USER :: u64 where "OBMM_REGION_FLAG_MEMORY_FROM_USER \<equiv> 0x4"
abbreviation (input) OBMM_REGION_FLAG_FAST_ALLOC :: u64 where "OBMM_REGION_FLAG_FAST_ALLOC \<equiv> 0x8"
abbreviation (input) OBMM_REGION_FLAG_PREIMPORT :: u64 where "OBMM_REGION_FLAG_PREIMPORT \<equiv> 0x10"

abbreviation (input) OBMM_MEM_ALLOW_CACHEABLE_MMAP :: u64 where "OBMM_MEM_ALLOW_CACHEABLE_MMAP \<equiv> 0x1"
abbreviation (input) OBMM_MEM_ALLOW_NONCACHEABLE_MMAP :: u64 where "OBMM_MEM_ALLOW_NONCACHEABLE_MMAP \<equiv> 0x2"

text \<open>\<open>MINORMASK\<close> is the kernel's 20-bit limit on device minor numbers.\<close>

abbreviation (input) OBMM_INVALID_REGIONID :: int where "OBMM_INVALID_REGIONID \<equiv> 0"
abbreviation (input) OBMM_MIN_VALID_REGIONID :: int where "OBMM_MIN_VALID_REGIONID \<equiv> 1"
abbreviation (input) OBMM_MAX_VALID_REGIONID :: int where "OBMM_MAX_VALID_REGIONID \<equiv> 0xfffff"

abbreviation (input) SZ_2M :: u64 where "SZ_2M \<equiv> 0x200000"
abbreviation (input) OBMM_BASIC_GRANU :: u64 where "OBMM_BASIC_GRANU \<equiv> SZ_2M"

record obmm_page_state =
  r_count :: u16
  w_count :: u16

record obmm_ownership_info =
  page_states :: "obmm_page_state list"
  nentries :: int

record obmm_region =
  regionid :: int
  reg_flags :: u64
  device_released :: int
  refcnt :: int
  mem_size :: u64
  mmap_mode :: obmm_mmap_mode
  mmap_granu :: obmm_mmap_granu
  mem_cap :: u64
  mmap_count :: int
  ownership_info :: "obmm_ownership_info option"
  priv_len :: u32
  priv :: "u8 list"

definition region_numa_remote :: "obmm_region \<Rightarrow> bool" where
  "region_numa_remote reg \<longleftrightarrow> reg_flags reg AND OBMM_REGION_FLAG_NUMA_REMOTE \<noteq> 0"

definition region_allow_mmap :: "obmm_region \<Rightarrow> bool" where
  "region_allow_mmap reg \<longleftrightarrow> reg_flags reg AND OBMM_REGION_FLAG_ALLOW_MMAP \<noteq> 0"

definition region_memory_from_user :: "obmm_region \<Rightarrow> bool" where
  "region_memory_from_user reg \<longleftrightarrow> reg_flags reg AND OBMM_REGION_FLAG_MEMORY_FROM_USER \<noteq> 0"

definition region_preimport :: "obmm_region \<Rightarrow> bool" where
  "region_preimport reg \<longleftrightarrow> reg_flags reg AND OBMM_REGION_FLAG_PREIMPORT \<noteq> 0"

definition region_fast_alloc :: "obmm_region \<Rightarrow> bool" where
  "region_fast_alloc reg \<longleftrightarrow> reg_flags reg AND OBMM_REGION_FLAG_FAST_ALLOC \<noteq> 0"

end
