(* ===== verification/Conti_Mem_Allocator.thy ===== *)
theory Conti_Mem_Allocator
  imports Obmm_Prelude "HOL-Library.Multiset"
begin

text \<open>
  The contiguous memory allocator (\<^verbatim>\<open>drivers/ub/obmm/conti_mem_allocator.c\<close>): a pool of equally
  sized memory segments per NUMA node, kept on a ready list (cleared), an uncleared list, a slot
  for the segment being cleared and a list of poisoned segments, with four byte counters.  The
  callback table \<open>conti_mempool_ops\<close> works on an abstract world \<open>'w\<close> (the kernel's memory and the
  state of the callbacks' owner); every callback may be NULL, which is \<open>None\<close> here.
\<close>

section \<open>State\<close>

record memseg_node =
  addr :: u64
  seg_size :: u64

record conti_mem_allocator =
  initialized :: bool
  sysfs_initialized :: bool
  nid :: int
  granu :: u64
  pooled_mem_size :: u64
  used_mem_size :: u64
  ready_mem_size :: u64
  uncleared_mem_size :: u64
  memseg_ready :: "memseg_node list"
  memseg_uncleared :: "memseg_node list"
  memseg_clearing :: "memseg_node option"
  memseg_poisoned :: "memseg_node list"
  clear_work :: bool
  pool_work :: bool
  alloc_name :: "string option"

record 'w conti_mempool_ops =
  clear_memseg :: "(conti_mem_allocator \<Rightarrow> memseg_node \<Rightarrow> 'w \<Rightarrow> int \<times> 'w) option"
  pool_free_memseg :: "(conti_mem_allocator \<Rightarrow> memseg_node \<Rightarrow> 'w \<Rightarrow> 'w) option"
  pool_alloc_memseg :: "(conti_mem_allocator \<Rightarrow> 'w \<Rightarrow> memseg_node option \<times> 'w) option"
  need_contract :: "(conti_mem_allocator \<Rightarrow> 'w \<Rightarrow> bool) option"
  contract_size :: "(conti_mem_allocator \<Rightarrow> 'w \<Rightarrow> u64) option"
  need_expand :: "(conti_mem_allocator \<Rightarrow> 'w \<Rightarrow> bool) option"
  expand_size :: "(conti_mem_allocator \<Rightarrow> 'w \<Rightarrow> u64) option"

definition conti_get_total :: "conti_mem_allocator \<Rightarrow> u64" where
  "conti_get_total a = pooled_mem_size a"

definition conti_get_avail :: "conti_mem_allocator \<Rightarrow> u64" where
  "conti_get_avail a = pooled_mem_size a - used_mem_size a"

section \<open>Callback wrappers\<close>

definition conti_clear_memseg ::
    "'w conti_mempool_ops \<Rightarrow> conti_mem_allocator \<Rightarrow> memseg_node \<Rightarrow> 'w \<Rightarrow> int \<times> 'w" where
  "conti_clear_memseg ops a node w =
     (case clear_memseg ops of Some f \<Rightarrow> f a node w | None \<Rightarrow> (- EOPNOTSUPP, w))"

definition conti_pool_free_memseg ::
    "'w conti_mempool_ops \<Rightarrow> conti_mem_allocator \<Rightarrow> memseg_node \<Rightarrow> 'w \<Rightarrow> 'w" where
  "conti_pool_free_memseg ops a node w =
     (case pool_free_memseg ops of Some f \<Rightarrow> f a node w | None \<Rightarrow> w)"

definition conti_pool_alloc_memseg ::
    "'w conti_mempool_ops \<Rightarrow> conti_mem_allocator \<Rightarrow> 'w \<Rightarrow> memseg_node option \<times> 'w" where
  "conti_pool_alloc_memseg ops a w =
     (case pool_alloc_memseg ops of Some f \<Rightarrow> f a w | None \<Rightarrow> (None, w))"

definition conti_has_poisoned_memseg :: "conti_mem_allocator \<Rightarrow> bool" where
  "conti_has_poisoned_memseg a \<longleftrightarrow> memseg_poisoned a \<noteq> []"

definition conti_need_contract :: "'w conti_mempool_ops \<Rightarrow> conti_mem_allocator \<Rightarrow> 'w \<Rightarrow> bool" where
  "conti_need_contract ops a w = (case need_contract ops of Some f \<Rightarrow> f a w | None \<Rightarrow> False)"

definition conti_contract_size :: "'w conti_mempool_ops \<Rightarrow> conti_mem_allocator \<Rightarrow> 'w \<Rightarrow> u64" where
  "conti_contract_size ops a w = (case contract_size ops of Some f \<Rightarrow> f a w | None \<Rightarrow> 0)"

definition conti_need_expand :: "'w conti_mempool_ops \<Rightarrow> conti_mem_allocator \<Rightarrow> 'w \<Rightarrow> bool" where
  "conti_need_expand ops a w = (case need_expand ops of Some f \<Rightarrow> f a w | None \<Rightarrow> False)"

definition conti_expand_size :: "'w conti_mempool_ops \<Rightarrow> conti_mem_allocator \<Rightarrow> 'w \<Rightarrow> u64" where
  "conti_expand_size ops a w = (case expand_size ops of Some f \<Rightarrow> f a w | None \<Rightarrow> 0)"

section \<open>Growing and shrinking the pool\<close>

text \<open>
  \<open>pool_thread_should_pause\<close> is a global counter that every allocation raises while it runs, so
  the loop below reads a value that other threads change: \<open>pause i\<close> is what its \<open>i\<close>-th read
  returns.  The result is the number of segments that were not obtained.
\<close>

fun expand_loop :: "'w conti_mempool_ops \<Rightarrow> (nat \<Rightarrow> int) \<Rightarrow> nat \<Rightarrow> nat \<Rightarrow> conti_mem_allocator \<Rightarrow> 'w
    \<Rightarrow> nat \<times> conti_mem_allocator \<times> 'w" where
  "expand_loop ops pause i 0 a w = (0, a, w)"
| "expand_loop ops pause i (Suc cnt) a w =
     (if pause i \<noteq> 0 then (Suc cnt, a, w)
      else case conti_pool_alloc_memseg ops a w of
             (None, w1) \<Rightarrow> (Suc cnt, a, w1)
           | (Some node, w1) \<Rightarrow>
               expand_loop ops pause (Suc i) cnt
                 (a\<lparr>memseg_uncleared := memseg_uncleared a @ [node]\<rparr>) w1)"

definition conti_mem_allocator_expand :: "'w conti_mempool_ops \<Rightarrow> (nat \<Rightarrow> int) \<Rightarrow> u64
    \<Rightarrow> conti_mem_allocator \<Rightarrow> 'w \<Rightarrow> u64 \<times> conti_mem_allocator \<times> 'w" where
  "conti_mem_allocator_expand ops pause sz a w =
     (if sz = 0 \<or> sz mod granu a \<noteq> 0 then (0, a, w)
      else let (cnt, a1, w1) = expand_loop ops pause 0 (unat (sz div granu a)) a w;
               exp_sz = sz - of_nat cnt * granu a
           in (exp_sz,
               a1\<lparr>pooled_mem_size := pooled_mem_size a1 + exp_sz,
                  uncleared_mem_size := uncleared_mem_size a1 + exp_sz\<rparr>, w1))"

text \<open>One of the two list walks of the contraction: segments moved, segments left, the count
  still wanted and the bytes taken from this list.\<close>

fun contract_take :: "u64 \<Rightarrow> u64 \<Rightarrow> u64 \<Rightarrow> memseg_node list
    \<Rightarrow> memseg_node list \<times> memseg_node list \<times> u64 \<times> u64" where
  "contract_take g cnt from [] = ([], [], cnt, from)"
| "contract_take g cnt from (n # ns) =
     (if cnt - 1 = 0 then ([n], ns, cnt - 1, from + g)
      else let (moved, rest, c, f) = contract_take g (cnt - 1) (from + g) ns
           in (n # moved, rest, c, f))"

definition free_all :: "'w conti_mempool_ops \<Rightarrow> conti_mem_allocator \<Rightarrow> memseg_node list \<Rightarrow> 'w \<Rightarrow> 'w" where
  "free_all ops a ns w = fold (conti_pool_free_memseg ops a) ns w"

definition conti_mem_allocator_contract :: "'w conti_mempool_ops \<Rightarrow> u64 \<Rightarrow> conti_mem_allocator \<Rightarrow> 'w
    \<Rightarrow> u64 \<times> conti_mem_allocator \<times> 'w" where
  "conti_mem_allocator_contract ops sz a w =
     (if sz = 0 \<or> sz mod granu a \<noteq> 0 then (0, a, w)
      else if pool_free_memseg ops = None then (0, a, w)
      else
        let (moved1, unc, count1, from_uncleared) =
              contract_take (granu a) (sz div granu a) 0 (memseg_uncleared a);
            (moved2, rdy, count2, from_ready) =
              (if count1 = 0 then ([], memseg_ready a, count1, 0)
               else contract_take (granu a) count1 0 (memseg_ready a));
            a1 = a\<lparr>memseg_uncleared := unc, memseg_ready := rdy\<rparr>;
            w1 = free_all ops a1 (moved1 @ moved2) w;
            con_sz = sz - count2 * granu a
        in (con_sz,
            a1\<lparr>pooled_mem_size := pooled_mem_size a1 - con_sz,
               uncleared_mem_size := uncleared_mem_size a1 - from_uncleared,
               ready_mem_size := ready_mem_size a1 - from_ready\<rparr>, w1))"

definition conti_mem_allocator_free_poisoned :: "'w conti_mempool_ops \<Rightarrow> conti_mem_allocator \<Rightarrow> 'w
    \<Rightarrow> u64 \<times> conti_mem_allocator \<times> 'w" where
  "conti_mem_allocator_free_poisoned ops a w =
     (if pool_free_memseg ops = None then (0, a, w)
      else let free_list = memseg_poisoned a;
               a1 = a\<lparr>memseg_poisoned := []\<rparr>
           in (of_nat (length free_list) * granu a, a1, free_all ops a1 free_list w))"

section \<open>Allocation and release\<close>

definition conti_free_memory :: "'w conti_mempool_ops \<Rightarrow> memseg_node list \<Rightarrow> conti_mem_allocator \<Rightarrow> 'w
    \<Rightarrow> conti_mem_allocator \<times> 'w" where
  "conti_free_memory ops head a w =
     (let freed_size = of_nat (length head) * granu a
      in (a\<lparr>pooled_mem_size := pooled_mem_size a - freed_size,
            used_mem_size := used_mem_size a - freed_size\<rparr>, free_all ops a head w))"

text \<open>The loop \<open>while (size)\<close> of the slow path subtracts the granularity from an unsigned size, so
  it need not end for a size that is not a multiple of it: the value \<open>None\<close> is a run that does
  not return.\<close>

partial_function (option) alloc_slow_loop :: "'w conti_mempool_ops \<Rightarrow> conti_mem_allocator \<Rightarrow> bool \<Rightarrow> u64
    \<Rightarrow> u64 \<Rightarrow> memseg_node list \<Rightarrow> 'w \<Rightarrow> (u64 \<times> memseg_node list \<times> 'w) option" where
  "alloc_slow_loop ops a clear sz allocated head w =
     (if sz = 0 then Some (allocated, head, w)
      else case conti_pool_alloc_memseg ops a w of
             (None, w1) \<Rightarrow> Some (allocated, head, w1)
           | (Some node, w1) \<Rightarrow>
               (let (ret, w2) = (if clear then conti_clear_memseg ops a node w1 else (0, w1))
                in if ret < 0 then Some (allocated, head, conti_pool_free_memseg ops a node w2)
                   else alloc_slow_loop ops a clear (sz - granu a) (allocated + granu a)
                          (head @ [node]) w2))"

definition conti_alloc_memory_slow :: "'w conti_mempool_ops \<Rightarrow> u64 \<Rightarrow> memseg_node list \<Rightarrow> bool
    \<Rightarrow> conti_mem_allocator \<Rightarrow> 'w \<Rightarrow> (u64 \<times> memseg_node list \<times> conti_mem_allocator \<times> 'w) option" where
  "conti_alloc_memory_slow ops sz head clear a w =
     (case alloc_slow_loop ops a clear sz 0 head w of
        None \<Rightarrow> None
      | Some (allocated, head1, w1) \<Rightarrow>
          Some (allocated, head1,
                a\<lparr>pooled_mem_size := pooled_mem_size a + allocated,
                  used_mem_size := used_mem_size a + allocated\<rparr>, w1))"

text \<open>The walk over one list: stop at the first segment once enough is counted, and cut the list
  before it.  The counters are the total and the share of this list.\<close>

fun alloc_walk :: "u64 \<Rightarrow> u64 \<Rightarrow> u64 \<Rightarrow> u64 \<Rightarrow> memseg_node list
    \<Rightarrow> u64 \<times> u64 \<times> memseg_node list \<times> memseg_node list" where
  "alloc_walk g sz allocated part [] = (allocated, part, [], [])"
| "alloc_walk g sz allocated part (n # ns) =
     (if sz \<le> allocated then (allocated, part, [], n # ns)
      else let (al, p, cut, rest) = alloc_walk g sz (allocated + g) (part + g) ns
           in (al, p, n # cut, rest))"

text \<open>Synchronous clearing of the segments taken from the uncleared list: the return value of each
  call is dropped, as in the source.\<close>

definition clear_all :: "'w conti_mempool_ops \<Rightarrow> conti_mem_allocator \<Rightarrow> memseg_node list \<Rightarrow> 'w \<Rightarrow> 'w" where
  "clear_all ops a ns w = fold (\<lambda>n w. snd (conti_clear_memseg ops a n w)) ns w"

definition conti_alloc_memory :: "'w conti_mempool_ops \<Rightarrow> u64 \<Rightarrow> bool \<Rightarrow> bool \<Rightarrow> conti_mem_allocator \<Rightarrow> 'w
    \<Rightarrow> (u64 \<times> memseg_node list \<times> conti_mem_allocator \<times> 'w) option" where
  "conti_alloc_memory ops sz clear allow_slow a w =
     (let first = (if clear then memseg_ready a else memseg_uncleared a);
          second = (if clear then (if allow_slow then Some (memseg_uncleared a) else None)
                    else Some (memseg_ready a));
          (allocated1, first_allocated, head1, rest1) = alloc_walk (granu a) sz 0 0 first;
          (allocated2, second_allocated, temp_list, rest2) =
            (case second of None \<Rightarrow> (allocated1, 0, [], [])
             | Some l \<Rightarrow> alloc_walk (granu a) sz allocated1 0 l);
          a1 = (if clear
                then a\<lparr>memseg_ready := rest1,
                       memseg_uncleared := (if allow_slow then rest2 else memseg_uncleared a),
                       ready_mem_size := ready_mem_size a - first_allocated,
                       uncleared_mem_size := (if allow_slow then uncleared_mem_size a - second_allocated
                                              else uncleared_mem_size a)\<rparr>
                else a\<lparr>memseg_ready := rest2, memseg_uncleared := rest1,
                       ready_mem_size := ready_mem_size a - second_allocated,
                       uncleared_mem_size := uncleared_mem_size a - first_allocated\<rparr>);
          a2 = a1\<lparr>used_mem_size := used_mem_size a1 + allocated2\<rparr>;
          w1 = (if clear then clear_all ops a2 temp_list w else w);
          head2 = temp_list @ head1
      in if allow_slow \<and> allocated2 < sz
         then case conti_alloc_memory_slow ops (sz - allocated2) head2 clear a2 w1 of
                None \<Rightarrow> None
              | Some (slow_allocated, head3, a3, w2) \<Rightarrow> Some (allocated2 + slow_allocated, head3, a3, w2)
         else Some (allocated2, head2, a2, w1))"

section \<open>Isolating a poisoned segment\<close>

text \<open>The search loop over one list: the first segment at the address, and the list without it.\<close>

fun extract_seg :: "u64 \<Rightarrow> memseg_node list \<Rightarrow> (memseg_node \<times> memseg_node list) option" where
  "extract_seg x [] = None"
| "extract_seg x (n # ns) =
     (if addr n = x then Some (n, ns)
      else case extract_seg x ns of None \<Rightarrow> None | Some (m, ms) \<Rightarrow> Some (m, n # ms))"

definition conti_mem_allocator_isolate_memseg :: "u64 \<Rightarrow> conti_mem_allocator
    \<Rightarrow> bool \<times> conti_mem_allocator" where
  "conti_mem_allocator_isolate_memseg x a =
     (if \<not> initialized a then (False, a)
      else let x1 = ALIGN_DOWN x (granu a)
        in case extract_seg x1 (memseg_ready a) of
             Some (node, rest) \<Rightarrow>
               (True, a\<lparr>memseg_ready := rest, memseg_poisoned := node # memseg_poisoned a,
                        pooled_mem_size := pooled_mem_size a - granu a,
                        ready_mem_size := ready_mem_size a - granu a\<rparr>)
           | None \<Rightarrow>
               (case extract_seg x1 (memseg_uncleared a) of
                  Some (node, rest) \<Rightarrow>
                    (True, a\<lparr>memseg_uncleared := rest, memseg_poisoned := node # memseg_poisoned a,
                             pooled_mem_size := pooled_mem_size a - granu a,
                             uncleared_mem_size := uncleared_mem_size a - granu a\<rparr>)
                | None \<Rightarrow> (False, a)))"

section \<open>The worker threads\<close>

text \<open>One round of the clearing thread is two critical sections with the clearing between them:
  the first takes the head of the uncleared list, the second files it as ready or, when clearing
  failed, puts it back.\<close>

definition conti_clear_thread_take :: "conti_mem_allocator \<Rightarrow> conti_mem_allocator" where
  "conti_clear_thread_take a =
     (case memseg_uncleared a of
        [] \<Rightarrow> a
      | node # rest \<Rightarrow> a\<lparr>memseg_uncleared := rest, memseg_clearing := Some node\<rparr>)"

definition conti_clear_thread_finish :: "'w conti_mempool_ops \<Rightarrow> memseg_node \<Rightarrow> conti_mem_allocator \<Rightarrow> 'w
    \<Rightarrow> conti_mem_allocator \<times> 'w" where
  "conti_clear_thread_finish ops node a w =
     (let (ret, w1) = conti_clear_memseg ops a node w;
          a1 = a\<lparr>memseg_clearing := None\<rparr>
      in if ret \<noteq> 0 then (a1\<lparr>memseg_uncleared := node # memseg_uncleared a1\<rparr>, w1)
         else (a1\<lparr>uncleared_mem_size := uncleared_mem_size a1 - granu a1,
                  ready_mem_size := ready_mem_size a1 + granu a1,
                  memseg_ready := node # memseg_ready a1\<rparr>, w1))"

definition conti_pool_thread_round :: "'w conti_mempool_ops \<Rightarrow> (nat \<Rightarrow> int) \<Rightarrow> conti_mem_allocator \<Rightarrow> 'w
    \<Rightarrow> conti_mem_allocator \<times> 'w" where
  "conti_pool_thread_round ops pause a w =
     (let (a1, w1) = (if conti_has_poisoned_memseg a
                      then snd (conti_mem_allocator_free_poisoned ops a w) else (a, w));
          (a2, w2) = (if conti_need_contract ops a1 w1 \<and> conti_contract_size ops a1 w1 > 0
                      then snd (conti_mem_allocator_contract ops (conti_contract_size ops a1 w1) a1 w1)
                      else (a1, w1))
      in if conti_need_expand ops a2 w2 \<and> conti_expand_size ops a2 w2 > 0
         then snd (conti_mem_allocator_expand ops pause (conti_expand_size ops a2 w2) a2 w2)
         else (a2, w2))"

section \<open>Set-up and tear-down\<close>

text \<open>The answers of the kernel services that initialisation calls: the formatted name (or NULL),
  whether each thread is created, and the results of the two sysfs calls.\<close>

record conti_init_env =
  env_name :: "string option"
  env_clear_thread_ok :: bool
  env_pool_thread_ok :: bool
  env_kobject_ret :: int
  env_sysfs_ret :: int

definition zeroed_allocator :: conti_mem_allocator where
  "zeroed_allocator =
     \<lparr>initialized = False, sysfs_initialized = False, nid = 0, granu = 0, pooled_mem_size = 0,
      used_mem_size = 0, ready_mem_size = 0, uncleared_mem_size = 0, memseg_ready = [],
      memseg_uncleared = [], memseg_clearing = None, memseg_poisoned = [], clear_work = False,
      pool_work = False, alloc_name = None\<rparr>"

definition clear_thread_init :: "conti_init_env \<Rightarrow> conti_mem_allocator \<Rightarrow> int \<times> conti_mem_allocator" where
  "clear_thread_init env a =
     (if env_clear_thread_ok env then (0, a\<lparr>clear_work := True\<rparr>) else (- ENODEV, a))"

definition pool_thread_init :: "conti_init_env \<Rightarrow> conti_mem_allocator \<Rightarrow> int \<times> conti_mem_allocator" where
  "pool_thread_init env a =
     (if env_pool_thread_ok env then (0, a\<lparr>pool_work := True\<rparr>) else (- ENODEV, a))"

definition conti_mem_allocator_init :: "mm_config \<Rightarrow> conti_init_env \<Rightarrow> conti_mem_allocator option \<Rightarrow> int \<Rightarrow> u64
    \<Rightarrow> 'w conti_mempool_ops option \<Rightarrow> bool \<Rightarrow> int \<times> conti_mem_allocator option" where
  "conti_mem_allocator_init cfg env allocator node_id g opsp parent =
     (case (allocator, opsp) of
        (Some _, Some ops) \<Rightarrow>
          if need_expand ops = None \<or> expand_size ops = None then (- EINVAL, allocator)
          else if \<not> IS_ALIGNED g (PAGE_SIZE cfg) \<or> g = 0 then (- EINVAL, allocator)
          else if env_name env = None then (- ENOMEM, Some zeroed_allocator)
          else
            let a0 = zeroed_allocator\<lparr>alloc_name := env_name env, nid := node_id, granu := g\<rparr>;
                (ret1, a1) = (if clear_memseg ops \<noteq> None then clear_thread_init env a0 else (0, a0))
            in if ret1 \<noteq> 0 then (ret1, Some (a1\<lparr>alloc_name := None\<rparr>))
               else
                 let (ret2, a2) = pool_thread_init env a1
                 in if ret2 \<noteq> 0 then (ret2, Some (a2\<lparr>clear_work := False, alloc_name := None\<rparr>))
                    else if parent \<and> env_kobject_ret env \<noteq> 0
                    then (env_kobject_ret env,
                          Some (a2\<lparr>pool_work := False, clear_work := False, alloc_name := None\<rparr>))
                    else if parent \<and> env_sysfs_ret env \<noteq> 0
                    then (env_sysfs_ret env,
                          Some (a2\<lparr>pool_work := False, clear_work := False, alloc_name := None\<rparr>))
                    else (0, Some (a2\<lparr>sysfs_initialized := parent, initialized := True\<rparr>))
      | _ \<Rightarrow> (- EINVAL, allocator))"

text \<open>Tear-down splices the three lists onto a local list without re-initialising their heads, so
  the heads keep naming the segments that were just freed.\<close>

definition conti_mem_allocator_deinit :: "'w conti_mempool_ops option \<Rightarrow> conti_mem_allocator \<Rightarrow> 'w
    \<Rightarrow> conti_mem_allocator \<times> 'w" where
  "conti_mem_allocator_deinit opsp a w =
     (let a1 = a\<lparr>initialized := False, pool_work := False, clear_work := False, alloc_name := None\<rparr>;
          cleanup_sysfs = (\<lambda>b. b\<lparr>sysfs_initialized := False, memseg_clearing := None\<rparr>)
      in case opsp of
           None \<Rightarrow> (cleanup_sysfs a1, w)
         | Some ops \<Rightarrow>
             if pool_free_memseg ops = None then (cleanup_sysfs a1, w)
             else
               let free_list = memseg_poisoned a1 @ memseg_ready a1 @ memseg_uncleared a1
               in (cleanup_sysfs a1, free_all ops a1 free_list w))"

section \<open>The accounting invariant\<close>

text \<open>\<open>held\<close> is the number of segments handed out and not yet returned.  Each counter is the
  granularity times the number of segments it stands for, and the pool size is the sum of the
  other three.  Isolated (poisoned) segments have left the count.\<close>

definition conti_inv :: "conti_mem_allocator \<Rightarrow> nat \<Rightarrow> bool" where
  "conti_inv a held \<longleftrightarrow>
     granu a \<noteq> 0
   \<and> ready_mem_size a = of_nat (length (memseg_ready a)) * granu a
   \<and> uncleared_mem_size a =
       of_nat (length (memseg_uncleared a) + (if memseg_clearing a = None then 0 else 1)) * granu a
   \<and> used_mem_size a = of_nat held * granu a
   \<and> pooled_mem_size a = ready_mem_size a + uncleared_mem_size a + used_mem_size a"

text \<open>All segments the allocator is responsible for, as a multiset.\<close>

definition owned_segs :: "conti_mem_allocator \<Rightarrow> memseg_node multiset" where
  "owned_segs a = mset (memseg_ready a) + mset (memseg_uncleared a)
     + mset (case memseg_clearing a of None \<Rightarrow> [] | Some n \<Rightarrow> [n]) + mset (memseg_poisoned a)"

text \<open>What the allocator relies on in the source of segments behind its callbacks.  \<open>U\<close> is the set of
  addresses a segment can have and \<open>src w\<close> the set of those the source could still give out: an allocation takes its segment out of
  that set, a release puts back at most the released segment, and clearing adds nothing to it.\<close>

definition seg_source_ok :: "'w conti_mempool_ops \<Rightarrow> u64 set \<Rightarrow> ('w \<Rightarrow> u64 set) \<Rightarrow> bool" where
  "seg_source_ok ops U src \<longleftrightarrow>
     (\<forall>w. src w \<subseteq> U)
   \<and> (\<forall>a w n w'. conti_pool_alloc_memseg ops a w = (Some n, w')
        \<longrightarrow> addr n \<in> src w \<and> src w' \<subseteq> src w - {addr n})
   \<and> (\<forall>a w w'. conti_pool_alloc_memseg ops a w = (None, w') \<longrightarrow> src w' \<subseteq> src w)
   \<and> (\<forall>a n w. addr n \<in> U \<longrightarrow> src (conti_pool_free_memseg ops a n w) \<subseteq> insert (addr n) (src w))
   \<and> (\<forall>a n w. src (snd (conti_clear_memseg ops a n w)) \<subseteq> src w)"

text \<open>\<open>Z w x\<close> says that the segment at \<open>x\<close> holds no old data.  Clearing returns 0 after it made
  that true and a negative code otherwise; no callback dirties a segment it was not given.\<close>

definition clear_ok :: "'w conti_mempool_ops \<Rightarrow> ('w \<Rightarrow> u64 \<Rightarrow> bool) \<Rightarrow> bool" where
  "clear_ok ops Z \<longleftrightarrow>
     (\<forall>a n w ret w'. conti_clear_memseg ops a n w = (ret, w')
        \<longrightarrow> ret \<le> 0 \<and> (ret = 0 \<longrightarrow> Z w' (addr n)) \<and> (\<forall>x. Z w x \<longrightarrow> Z w' x))
   \<and> (\<forall>a w r w' x. conti_pool_alloc_memseg ops a w = (r, w') \<longrightarrow> Z w x \<longrightarrow> Z w' x)
   \<and> (\<forall>a n w x. x \<noteq> addr n \<longrightarrow> Z w x \<longrightarrow> Z (conti_pool_free_memseg ops a n w) x)"

text \<open>\<open>drawn ops w ns w'\<close>: between the two worlds the segments \<open>ns\<close>, and no others, were taken from
  the source, and nothing outside the source was dirtied.\<close>

definition drawn :: "'w conti_mempool_ops \<Rightarrow> 'w \<Rightarrow> memseg_node list \<Rightarrow> 'w \<Rightarrow> bool" where
  "drawn ops w ns w' \<longleftrightarrow>
     (\<forall>U src. seg_source_ok ops U src \<longrightarrow>
        distinct (map addr ns) \<and> addr ` set ns \<subseteq> src w \<and> src w' \<subseteq> src w - addr ` set ns
      \<and> (\<forall>Z x. clear_ok ops Z \<longrightarrow> x \<notin> src w \<longrightarrow> Z w x \<longrightarrow> Z w' x))"


text \<open>Allocation of \<open>N\<close> segments: how many come from each list, which list comes first in the
  result, and that the slow path only adds segments at the end.\<close>

definition alloc_from_ready :: "nat \<Rightarrow> bool \<Rightarrow> conti_mem_allocator \<Rightarrow> nat" where
  "alloc_from_ready N clear a =
     (if clear then min N (length (memseg_ready a))
      else min (N - length (memseg_uncleared a)) (length (memseg_ready a)))"

definition alloc_from_uncleared :: "nat \<Rightarrow> bool \<Rightarrow> bool \<Rightarrow> conti_mem_allocator \<Rightarrow> nat" where
  "alloc_from_uncleared N clear allow_slow a =
     (if \<not> clear then min N (length (memseg_uncleared a))
      else if allow_slow then min (N - length (memseg_ready a)) (length (memseg_uncleared a)) else 0)"

definition alloc_result :: "nat \<Rightarrow> nat \<Rightarrow> nat \<Rightarrow> conti_mem_allocator \<Rightarrow> conti_mem_allocator" where
  "alloc_result r u k a =
     a\<lparr>memseg_ready := drop r (memseg_ready a),
       memseg_uncleared := drop u (memseg_uncleared a),
       ready_mem_size := ready_mem_size a - of_nat r * granu a,
       uncleared_mem_size := uncleared_mem_size a - of_nat u * granu a,
       pooled_mem_size := pooled_mem_size a + of_nat k * granu a,
       used_mem_size := used_mem_size a + of_nat (r + u + k) * granu a\<rparr>"

text \<open>When no clearing call fails, the synchronous clearing leaves every listed segment clean.\<close>

definition clear_never_fails :: "'w conti_mempool_ops \<Rightarrow> bool" where
  "clear_never_fails ops \<longleftrightarrow> (\<forall>a n w. fst (conti_clear_memseg ops a n w) = 0)"


lemma alloc_walk_eq:
  assumes "N * unat g < 2 ^ 64" "g \<noteq> 0" "i \<le> N"
  shows "alloc_walk g (of_nat N * g) (of_nat i * g) p l =
     (of_nat (i + min (N - i) (length l)) * g, p + of_nat (min (N - i) (length l)) * g,
      take (N - i) l, drop (N - i) l)"
  using assms(3)
proof (induction l arbitrary: i p)
  case Nil then show ?case by simp
next
  case (Cons n ns)
  show ?case
  proof (cases "i = N")
    case True then show ?thesis by simp
  next
    case False
    with Cons.prems have lt: "Suc i \<le> N" by simp
    have ng: "\<not> of_nat N * g \<le> of_nat i * g"
      using of_nat_mult_le_iff [of N g i] assms Cons.prems False by simp
    have eq: "of_nat i * g + g = of_nat (Suc i) * g" by (simp add: algebra_simps)
    obtain d where d: "N - i = Suc d" "N - Suc i = d"
      using lt by (metis Suc_diff_le diff_Suc_Suc)
    show ?thesis
      using ng Cons.IH [OF lt, of "p + g"] d unfolding alloc_walk.simps eq
      by (simp add: algebra_simps)
  qed
qed

lemma contract_take_eq:
  assumes "0 < c" "c < 2 ^ 64"
  shows "contract_take g (of_nat c) f l =
     (take c l, drop c l, of_nat (c - length l), f + of_nat (min c (length l)) * g)"
  using assms
proof (induction l arbitrary: c f)
  case Nil then show ?case by simp
next
  case (Cons n ns)
  obtain d where d: "c = Suc d" using Cons.prems(1) by (cases c) auto
  have w: "(of_nat c :: u64) - 1 = of_nat d" by (simp add: d)
  show ?case
  proof (cases "d = 0")
    case True then show ?thesis by (simp add: d)
  next
    case False
    have nz: "(of_nat d :: u64) \<noteq> 0"
      using False d Cons.prems(2) by (simp add: u64_of_nat_eq_0)
    show ?thesis
      using Cons.IH [of d "f + g"] False d nz Cons.prems(2) unfolding contract_take.simps w
      by (simp add: algebra_simps)
  qed
qed

section \<open>Drawing segments from the source\<close>

lemma seg_source_okD:
  assumes "seg_source_ok ops U src"
  shows "conti_pool_alloc_memseg ops a w = (Some n, w') \<Longrightarrow> addr n \<in> src w"
    "conti_pool_alloc_memseg ops a w = (Some n, w') \<Longrightarrow> src w' \<subseteq> src w - {addr n}"
    "conti_pool_alloc_memseg ops a w = (None, w') \<Longrightarrow> src w' \<subseteq> src w"
    "addr n \<in> U \<Longrightarrow> src (conti_pool_free_memseg ops a n w) \<subseteq> insert (addr n) (src w)"
    "conti_clear_memseg ops a n w = (ret, w') \<Longrightarrow> src w' \<subseteq> src w"
    "src w \<subseteq> U"
  using assms unfolding seg_source_ok_def by (blast, blast, blast, blast, metis snd_conv, blast)

lemma clear_okD:
  assumes "clear_ok ops Z"
  shows "conti_clear_memseg ops a n w = (ret, w') \<Longrightarrow> ret \<le> 0"
    "conti_clear_memseg ops a n w = (0, w') \<Longrightarrow> Z w' (addr n)"
    "conti_clear_memseg ops a n w = (ret, w') \<Longrightarrow> Z w x \<Longrightarrow> Z w' x"
    "conti_pool_alloc_memseg ops a w = (r, w') \<Longrightarrow> Z w x \<Longrightarrow> Z w' x"
    "x \<noteq> addr n \<Longrightarrow> Z w x \<Longrightarrow> Z (conti_pool_free_memseg ops a n w) x"
  using assms unfolding clear_ok_def by (blast, blast, blast, blast, blast)

lemma drawnI:
  assumes "\<And>U src. seg_source_ok ops U src \<Longrightarrow>
      distinct (map addr ns) \<and> addr ` set ns \<subseteq> src w \<and> src w' \<subseteq> src w - addr ` set ns"
    and "\<And>U src Z x. seg_source_ok ops U src \<Longrightarrow> clear_ok ops Z \<Longrightarrow> x \<notin> src w \<Longrightarrow> Z w x \<Longrightarrow> Z w' x"
  shows "drawn ops w ns w'"
  using assms unfolding drawn_def by metis

lemma drawnD:
  assumes "drawn ops w ns w'" "seg_source_ok ops U src"
  shows "distinct (map addr ns)" "addr ` set ns \<subseteq> src w" "src w' \<subseteq> src w - addr ` set ns"
    "clear_ok ops Z \<Longrightarrow> x \<notin> src w \<Longrightarrow> Z w x \<Longrightarrow> Z w' x"
  using assms unfolding drawn_def by (blast, blast, blast, blast)

lemma drawn_nil [simp]: "drawn ops w [] w"
  by (simp add: drawn_def)

lemma drawn_alloc:
  assumes "conti_pool_alloc_memseg ops a w = (Some n, w')" shows "drawn ops w [n] w'"
proof (rule drawnI)
  fix U src assume "seg_source_ok ops U src"
  from seg_source_okD(1,2) [OF this assms]
  show "distinct (map addr [n]) \<and> addr ` set [n] \<subseteq> src w \<and> src w' \<subseteq> src w - addr ` set [n]" by simp
qed (rule clear_okD(4) [OF _ assms])

lemma drawn_alloc_None:
  assumes "conti_pool_alloc_memseg ops a w = (None, w')" shows "drawn ops w [] w'"
proof (rule drawnI)
  fix U src assume "seg_source_ok ops U src"
  from seg_source_okD(3) [OF this assms]
  show "distinct (map addr []) \<and> addr ` set [] \<subseteq> src w \<and> src w' \<subseteq> src w - addr ` set []" by simp
qed (rule clear_okD(4) [OF _ assms])

lemma drawn_clear:
  assumes "conti_clear_memseg ops a n w = (ret, w')" shows "drawn ops w [] w'"
proof (rule drawnI)
  fix U src assume "seg_source_ok ops U src"
  from seg_source_okD(5) [OF this assms]
  show "distinct (map addr []) \<and> addr ` set [] \<subseteq> src w \<and> src w' \<subseteq> src w - addr ` set []" by simp
qed (rule clear_okD(3) [OF _ assms])

lemma drawn_trans:
  assumes 1: "drawn ops w ns w1" and 2: "drawn ops w1 ms w2" shows "drawn ops w (ns @ ms) w2"
proof (rule drawnI)
  fix U src assume s: "seg_source_ok ops U src"
  note d = drawnD [OF 1 s] drawnD [OF 2 s]
  show "distinct (map addr (ns @ ms)) \<and> addr ` set (ns @ ms) \<subseteq> src w
      \<and> src w2 \<subseteq> src w - addr ` set (ns @ ms)"
    using d(1,2,3,5,6,7) by auto
next
  fix U src Z x assume s: "seg_source_ok ops U src" and z: "clear_ok ops Z" "x \<notin> src w" "Z w x"
  have "x \<notin> src w1" using drawnD(3) [OF 1 s] z(2) by blast
  with drawnD(4) [OF 1 s z] show "Z w2 x" by (rule drawnD(4) [OF 2 s z(1), rotated])
qed

lemma drawn_clear_all: "drawn ops w [] (clear_all ops a ns w)"
  unfolding clear_all_def
proof (induction ns arbitrary: w)
  case (Cons n ns)
  have "drawn ops w [] (snd (conti_clear_memseg ops a n w))"
    by (rule drawn_clear [of ops a n w "fst (conti_clear_memseg ops a n w)"]) simp
  from drawn_trans [OF this Cons.IH] show ?case by simp
qed simp

text \<open>Taking a segment and giving it straight back, as the slow path does when clearing fails.\<close>

lemma drawn_give_back:
  assumes "drawn ops w [n] w1"
  shows "drawn ops w [] (conti_pool_free_memseg ops a n w1)"
proof (rule drawnI)
  fix U src assume s: "seg_source_ok ops U src"
  show "distinct (map addr []) \<and> addr ` set [] \<subseteq> src w
      \<and> src (conti_pool_free_memseg ops a n w1) \<subseteq> src w - addr ` set []"
    using drawnD(2,3) [OF assms s] seg_source_okD(4) [OF s, of n a w1] seg_source_okD(6) [OF s, of w] by auto
next
  fix U src Z x assume s: "seg_source_ok ops U src" and z: "clear_ok ops Z" "x \<notin> src w" "Z w x"
  have "x \<noteq> addr n" using drawnD(2) [OF assms s] z(2) by auto
  with drawnD(4) [OF assms s z] show "Z (conti_pool_free_memseg ops a n w1) x"
    by (intro clear_okD(5) [OF z(1)])
qed

lemma expand_loop_spec:
  "expand_loop ops pause i n a w = (c, a', w') \<Longrightarrow>
     c \<le> n \<and> (\<exists>ns. length ns = n - c \<and> a' = a\<lparr>memseg_uncleared := memseg_uncleared a @ ns\<rparr>
                 \<and> drawn ops w ns w')"
proof (induction ops pause i n a w rule: expand_loop.induct)
  case (1 ops pause i a w)
  then show ?case by auto
next
  case (2 ops pause i cnt a w)
  show ?case
  proof (cases "pause i = 0")
    case False then show ?thesis using "2.prems" by auto
  next
    case True
    obtain r w1 where al: "conti_pool_alloc_memseg ops a w = (r, w1)" by fastforce
    show ?thesis
    proof (cases r)
      case None then show ?thesis using "2.prems" True al by (auto intro: drawn_alloc_None)
    next
      case (Some node)
      then have "expand_loop ops pause (Suc i) cnt
                 (a\<lparr>memseg_uncleared := memseg_uncleared a @ [node]\<rparr>) w1 = (c, a', w')"
        using "2.prems" True al by simp
      from "2.IH" [OF _ al [symmetric] Some this] True obtain ns where
        "c \<le> cnt" "length ns = cnt - c" "drawn ops w1 ns w'"
        "a' = a\<lparr>memseg_uncleared := (memseg_uncleared a @ [node]) @ ns\<rparr>" by auto
      moreover have "drawn ops w [node] w1" using al Some by (auto intro: drawn_alloc)
      ultimately show ?thesis
        using drawn_trans [of ops w "[node]" w1 ns w'] by (intro conjI exI [of _ "node # ns"]) auto
    qed
  qed
qed

text \<open>The slow loop: it returns, appends at most \<open>n\<close> segments drawn from the source, and when it was
  asked to clear them, each one it appends has been cleared.\<close>

lemma alloc_slow_loop_spec:
  assumes "n * unat (granu a) < 2 ^ 64" "granu a \<noteq> 0"
  shows "\<exists>ns w'. alloc_slow_loop ops a clear (of_nat n * granu a) al head w =
           Some (al + of_nat (length ns) * granu a, head @ ns, w') \<and> length ns \<le> n \<and> drawn ops w ns w'
         \<and> (\<forall>Z U src. clear \<longrightarrow> clear_ok ops Z \<longrightarrow> seg_source_ok ops U src
               \<longrightarrow> (\<forall>x \<in> addr ` set ns. Z w' x))"
  using assms(1)
proof (induction n arbitrary: al head w)
  case 0
  show ?case by (subst alloc_slow_loop.simps) simp
next
  case (Suc n)
  have nz: "of_nat (Suc n) * granu a \<noteq> 0"
    using of_nat_mult_eq_0_iff [of "Suc n" "granu a"] Suc.prems assms(2) by simp
  have st: "of_nat (Suc n) * granu a - granu a = of_nat n * granu a" by (simp add: algebra_simps)
  have b: "n * unat (granu a) < 2 ^ 64" using Suc.prems by simp
  obtain r w1 where al: "conti_pool_alloc_memseg ops a w = (r, w1)" by fastforce
  show ?case
  proof (cases r)
    case None
    then show ?thesis using nz al
      by (subst alloc_slow_loop.simps) (auto intro!: exI [of _ "[]"] intro: drawn_alloc_None)
  next
    case (Some node)
    obtain ret w2 where cl: "(if clear then conti_clear_memseg ops a node w1 else (0, w1)) = (ret, w2)"
      by fastforce
    have d1: "drawn ops w [node] w1" using al Some by (auto intro: drawn_alloc)
    have "drawn ops w1 [] w2" using cl by (auto intro: drawn_clear split: if_splits)
    from drawn_trans [OF d1 this] have d: "drawn ops w [node] w2" by simp
    show ?thesis
    proof (cases "ret < 0")
      case True
      then show ?thesis using nz al Some cl drawn_give_back [OF d, of a]
        by (subst alloc_slow_loop.simps) (auto intro!: exI [of _ "[]"])
    next
      case False
      from Suc.IH [OF b, of "al + granu a" "head @ [node]" w2] obtain ns w' where
        ih: "alloc_slow_loop ops a clear (of_nat n * granu a) (al + granu a) (head @ [node]) w2 =
           Some (al + granu a + of_nat (length ns) * granu a, (head @ [node]) @ ns, w')"
        "length ns \<le> n" "drawn ops w2 ns w'"
        "\<forall>Z U src. clear \<longrightarrow> clear_ok ops Z \<longrightarrow> seg_source_ok ops U src \<longrightarrow> (\<forall>x \<in> addr ` set ns. Z w' x)"
        by blast
      have z: "Z w' (addr node)" if h: "clear" "clear_ok ops Z" "seg_source_ok ops U src" for Z U src
      proof -
        have "conti_clear_memseg ops a node w1 = (ret, w2)" using cl h(1) by simp
        moreover from this have "ret = 0" using clear_okD(1) [OF h(2)] False by fastforce
        ultimately have "Z w2 (addr node)" using clear_okD(2) [OF h(2)] by blast
        moreover have "addr node \<notin> src w2" using drawnD(3) [OF d h(3)] by auto
        ultimately show ?thesis using drawnD(4) [OF ih(3) h(3,2)] by blast
      qed
      have "alloc_slow_loop ops a clear (of_nat (Suc n) * granu a) al head w =
          alloc_slow_loop ops a clear (of_nat n * granu a) (al + granu a) (head @ [node]) w2"
        using nz al Some cl False by (subst alloc_slow_loop.simps) (simp only: st Let_def prod.case if_False option.case)
      then show ?thesis
        using ih drawn_trans [OF d ih(3)] z
        by (intro exI [of _ "node # ns"] exI [of _ w']) (auto simp: algebra_simps)
    qed
  qed
qed


lemma conti_invD:
  assumes "conti_inv a h"
  shows "granu a \<noteq> 0" "ready_mem_size a = of_nat (length (memseg_ready a)) * granu a"
    "used_mem_size a = of_nat h * granu a"
    "pooled_mem_size a = ready_mem_size a + uncleared_mem_size a + used_mem_size a"
  using assms by (auto simp: conti_inv_def)

lemma size_count_bound:
  assumes "sz mod g = (0::u64)" "g \<noteq> 0"
  obtains N where "sz = of_nat N * g" "N * unat g < 2 ^ 64" "N = unat (sz div g)" "N < 2 ^ 64"
proof -
  let ?N = "unat (sz div g)"
  have "?N * unat g = unat sz" using word_dvd_count(2) [OF assms(1)] .
  also have "unat sz < 2 ^ 64" by (rule u64_lt)
  finally have b: "?N * unat g < 2 ^ 64" .
  moreover have "?N < 2 ^ 64" by (rule u64_lt)
  ultimately show thesis using that word_dvd_count(1) [OF assms(1)] by blast
qed

text \<open>What each operation does to the lists and the counters, in closed form.\<close>

lemma expand_spec:
  assumes "conti_mem_allocator_expand ops pause sz a w = (r, a', w')" "granu a \<noteq> 0"
  shows "\<exists>ns. r = of_nat (length ns) * granu a \<and> r \<le> sz \<and>
     a' = a\<lparr>memseg_uncleared := memseg_uncleared a @ ns,
            pooled_mem_size := pooled_mem_size a + r,
            uncleared_mem_size := uncleared_mem_size a + r\<rparr> \<and> drawn ops w ns w'"
proof (cases "sz = 0 \<or> sz mod granu a \<noteq> 0")
  case True
  then show ?thesis using assms by (auto simp: conti_mem_allocator_expand_def intro!: exI [of _ "[]"])
next
  case False
  then have al: "sz mod granu a = 0" by simp
  from size_count_bound [OF al assms(2)] obtain N where
    N: "sz = of_nat N * granu a" "N * unat (granu a) < 2 ^ 64" "N = unat (sz div granu a)" .
  obtain c a1 w1 where el: "expand_loop ops pause 0 N a w = (c, a1, w1)" by (metis prod_cases3)
  from expand_loop_spec [OF this] obtain ns where
    ns: "c \<le> N" "length ns = N - c" "a1 = a\<lparr>memseg_uncleared := memseg_uncleared a @ ns\<rparr>"
      "drawn ops w ns w1" by auto
  have r: "r = of_nat (length ns) * granu a" and w': "w' = w1"
    and a': "a' = a1\<lparr>pooled_mem_size := pooled_mem_size a1 + r,
                     uncleared_mem_size := uncleared_mem_size a1 + r\<rparr>"
    using assms(1) False el ns(1,2) unfolding conti_mem_allocator_expand_def N(3) [symmetric]
    by (auto simp: N(1) of_nat_diff left_diff_distrib Let_def)
  have len: "length ns \<le> N" using ns(1,2) by simp
  have "unat (of_nat (length ns) * granu a) \<le> unat (of_nat N * granu a)"
    using unat_of_nat_mult [of N "granu a" "length ns"] unat_of_nat_mult [of N "granu a" N] N(2) len
    by simp
  then have "r \<le> sz" using r N(1) by (simp add: word_le_nat_alt)
  then show ?thesis using r a' w' ns(3,4) by (intro exI [of _ ns]) simp
qed

lemma contract_spec:
  assumes "conti_mem_allocator_contract ops sz a w = (r, a', w')" "granu a \<noteq> 0"
  shows "\<exists>i j w0. i \<le> length (memseg_uncleared a) \<and> j \<le> length (memseg_ready a) \<and>
     r = of_nat (i + j) * granu a \<and> (i + j) * unat (granu a) \<le> unat sz \<and>
     a' = a\<lparr>memseg_uncleared := drop i (memseg_uncleared a),
            memseg_ready := drop j (memseg_ready a),
            pooled_mem_size := pooled_mem_size a - r,
            uncleared_mem_size := uncleared_mem_size a - of_nat i * granu a,
            ready_mem_size := ready_mem_size a - of_nat j * granu a\<rparr> \<and>
     w' = free_all ops w0 (take i (memseg_uncleared a) @ take j (memseg_ready a)) w"
proof (cases "sz = 0 \<or> sz mod granu a \<noteq> 0 \<or> pool_free_memseg ops = None")
  case True
  then show ?thesis using assms
    by (auto simp: conti_mem_allocator_contract_def free_all_def intro!: exI [of _ 0] split: if_splits)
next
  case False
  then have al: "sz mod granu a = 0" by simp
  from size_count_bound [OF al assms(2)] obtain N where
    N: "sz = of_nat N * granu a" "N * unat (granu a) < 2 ^ 64" "N = unat (sz div granu a)" "N < 2 ^ 64" .
  have N0: "0 < N" using False N(1) by (cases N) auto
  have cn: "sz div granu a = of_nat N" by (simp add: N(3))
  define U R where "U = memseg_uncleared a" and "R = memseg_ready a"
  define i where "i = min N (length U)"
  define j where "j = min (N - i) (length R)"
  have ct1: "contract_take (granu a) (of_nat N) 0 U = (take N U, drop N U, of_nat (N - length U), of_nat i * granu a)"
    using contract_take_eq [OF N0 N(4), of "granu a" 0 U] by (simp add: i_def)
  have c0: "(of_nat (N - length U) :: u64) = 0 \<longleftrightarrow> N - length U = 0"
    using N(4) by (intro u64_of_nat_eq_0) simp
  have ct2: "(if (of_nat (N - length U) :: u64) = 0 then ([], R, of_nat (N - length U), 0)
      else contract_take (granu a) (of_nat (N - length U)) 0 R)
      = (take j R, drop j R, of_nat (N - (i + j)), of_nat j * granu a)"
  proof (cases "N \<le> length U")
    case True then show ?thesis using c0 by (simp add: i_def j_def)
  next
    case F: False
    then have p: "0 < N - length U" "N - length U < 2 ^ 64" "N - i = N - length U" using N(4) by (auto simp: i_def)
    show ?thesis
      using contract_take_eq [OF p(1,2), of "granu a" 0 R] c0 p(1,3) F
      by (cases "length R \<le> N - length U") (auto simp: j_def min_def i_def)
  qed
  have ij: "i + j \<le> N" by (simp add: i_def j_def)
  have tk: "take N U = take i U" "drop N U = drop i U" by (auto simp: i_def min_def)
  have r: "sz - of_nat (N - (i + j)) * granu a = of_nat (i + j) * granu a"
    using ij N(1) by (simp add: of_nat_diff algebra_simps)
  have "(i + j) * unat (granu a) \<le> N * unat (granu a)" using ij by simp
  also have "\<dots> = unat sz" using word_dvd_count(2) [OF al] N(3) by simp
  finally have le: "(i + j) * unat (granu a) \<le> unat sz" .
  have len: "i \<le> length U" "j \<le> length R" by (auto simp: i_def j_def)
  show ?thesis
    using assms(1) False le len ct1 ct2 tk r
    unfolding conti_mem_allocator_contract_def cn U_def [symmetric] R_def [symmetric]
    by (intro exI [of _ i] exI [of _ j] exI [of _ "a\<lparr>memseg_uncleared := drop i U, memseg_ready := drop j R\<rparr>"])
       (auto simp: Let_def)
qed

lemma alloc_slow_spec:
  assumes "n * unat (granu a) < 2 ^ 64" "granu a \<noteq> 0"
  shows "\<exists>ns w'. conti_alloc_memory_slow ops (of_nat n * granu a) head clear a w =
     Some (of_nat (length ns) * granu a, head @ ns,
           a\<lparr>pooled_mem_size := pooled_mem_size a + of_nat (length ns) * granu a,
             used_mem_size := used_mem_size a + of_nat (length ns) * granu a\<rparr>, w')
     \<and> length ns \<le> n \<and> drawn ops w ns w'
     \<and> (\<forall>Z U src. clear \<longrightarrow> clear_ok ops Z \<longrightarrow> seg_source_ok ops U src \<longrightarrow> (\<forall>x \<in> addr ` set ns. Z w' x))"
proof -
  from alloc_slow_loop_spec [OF assms, of ops clear 0 head w] obtain ns w' where
    "alloc_slow_loop ops a clear (of_nat n * granu a) 0 head w =
       Some (0 + of_nat (length ns) * granu a, head @ ns, w')"
    and rest: "length ns \<le> n" "drawn ops w ns w'"
      "\<forall>Z U src. clear \<longrightarrow> clear_ok ops Z \<longrightarrow> seg_source_ok ops U src \<longrightarrow> (\<forall>x \<in> addr ` set ns. Z w' x)"
    by blast
  then show ?thesis
    by (intro exI [of _ ns] exI [of _ w'] conjI rest) (simp add: conti_alloc_memory_slow_def)
qed

lemma clear_all_clean:
  assumes "clear_never_fails ops" "clear_ok ops Z"
  shows "x \<in> addr ` set ns \<or> Z w x \<Longrightarrow> Z (clear_all ops a ns w) x"
  unfolding clear_all_def
proof (induction ns arbitrary: w)
  case (Cons n ns)
  obtain w1 where c: "conti_clear_memseg ops a n w = (0, w1)"
    using assms(1) unfolding clear_never_fails_def by (metis prod.collapse)
  have "x \<in> addr ` set ns \<or> Z w1 x"
    using Cons.prems clear_okD(2) [OF assms(2) c] clear_okD(3) [OF assms(2) c, of x] by auto
  from Cons.IH [OF this] show ?case using c by simp
qed simp

lemma alloc_fast_part:
  fixes ops :: "'w conti_mempool_ops" and clear allow_slow :: bool
  assumes "N * unat (granu a) < 2 ^ 64" "granu a \<noteq> 0"
  defines "r \<equiv> alloc_from_ready N clear a" and "u \<equiv> alloc_from_uncleared N clear allow_slow a"
    and "U \<equiv> memseg_uncleared a" and "R \<equiv> memseg_ready a"
  defines "a2 \<equiv> alloc_result r u 0 a"
    and "head \<equiv> (if clear then take u U @ take r R else take r R @ take u U)"
  shows "conti_alloc_memory ops (of_nat N * granu a) clear allow_slow a w =
    (let w1 = (if clear then clear_all ops a2 (take u U) w else w)
     in if allow_slow \<and> r + u < N
        then case conti_alloc_memory_slow ops (of_nat (N - (r + u)) * granu a) head clear a2 w1 of
               None \<Rightarrow> None
             | Some (m, h, a3, w2) \<Rightarrow> Some (of_nat (r + u) * granu a + m, h, a3, w2)
        else Some (of_nat (r + u) * granu a, head, a2, w1))"
proof -
  let ?g = "granu a"
  have walk: "alloc_walk ?g (of_nat N * ?g) (of_nat i * ?g) 0 l =
     (of_nat (i + min (N - i) (length l)) * ?g, of_nat (min (N - i) (length l)) * ?g,
      take (N - i) l, drop (N - i) l)" if "i \<le> N" for i l
    using alloc_walk_eq [OF assms(1,2) that, of 0 l] by simp
  note walk0 = walk [of 0, simplified]
  have ru: "r + u \<le> N" by (auto simp: r_def u_def alloc_from_ready_def alloc_from_uncleared_def)
  have lt: "(of_nat (r + u) * ?g < of_nat N * ?g) = (r + u < N)"
    using of_nat_mult_le_iff [of N ?g "r + u"] assms(1,2) ru by (auto simp: not_le [symmetric])
  have df: "of_nat N * ?g - of_nat (r + u) * ?g = of_nat (N - (r + u)) * ?g"
    using ru by (simp add: of_nat_diff algebra_simps)
  show ?thesis
  proof (cases clear)
    case True
    have u: "u = (if allow_slow then min (N - r) (length U) else 0)"
      by (auto simp: u_def r_def alloc_from_uncleared_def alloc_from_ready_def True U_def)
    have r: "r = min N (length R)" by (simp add: r_def alloc_from_ready_def True R_def)
    have rN: "r \<le> N" by (simp add: r)
    have tr: "take N R = take r R" "drop N R = drop r R" by (auto simp: r min_def)
    have tu: "take (N - r) U = take (min (N - r) (length U)) U" "drop (N - r) U = drop (min (N - r) (length U)) U"
      by (auto simp: min_def)
    have w1: "alloc_walk ?g (of_nat N * ?g) 0 0 R = (of_nat r * ?g, of_nat r * ?g, take r R, drop r R)"
      using walk0 [of R] tr r by simp
    show ?thesis
    proof (cases allow_slow)
      case T: True
      have w2: "alloc_walk ?g (of_nat N * ?g) (of_nat r * ?g) 0 U =
          (of_nat (r + u) * ?g, of_nat u * ?g, take u U, drop u U)"
        using walk [OF rN, of U] tu u T by simp
      show ?thesis
        unfolding conti_alloc_memory_def U_def [symmetric] R_def [symmetric]
        by (simp only: True T Let_def w1 w2 if_True option.case prod.case simp_thms lt df
             a2_def head_def alloc_result_def U_def [symmetric] R_def [symmetric]) simp
    next
      case F: False
      then have u0: "u = 0" using u by simp
      show ?thesis
        unfolding conti_alloc_memory_def U_def [symmetric] R_def [symmetric]
        by (simp only: True F Let_def w1 if_True if_False option.case prod.case simp_thms u0
             a2_def head_def alloc_result_def U_def [symmetric] R_def [symmetric])
           (simp add: U_def clear_all_def)
    qed
  next
    case False
    have u: "u = min N (length U)" by (simp add: u_def alloc_from_uncleared_def False U_def)
    have r: "r = min (N - u) (length R)"
      by (auto simp: u_def r_def alloc_from_uncleared_def alloc_from_ready_def False U_def R_def)
    have uN: "u \<le> N" by (simp add: u)
    have tr: "take N U = take u U" "drop N U = drop u U" by (auto simp: u min_def)
    have tu: "take (N - u) R = take r R" "drop (N - u) R = drop r R"
      by (auto simp: r min_def)
    have w1: "alloc_walk ?g (of_nat N * ?g) 0 0 U = (of_nat u * ?g, of_nat u * ?g, take u U, drop u U)"
      using walk0 [of U] tr u by simp
    have w2: "alloc_walk ?g (of_nat N * ?g) (of_nat u * ?g) 0 R =
        (of_nat (r + u) * ?g, of_nat r * ?g, take r R, drop r R)"
      using walk [OF uN, of R] tu r by (simp add: add.commute)
    show ?thesis
      unfolding conti_alloc_memory_def U_def [symmetric] R_def [symmetric]
      by (simp only: False Let_def w1 w2 if_False option.case prod.case simp_thms lt df
           a2_def head_def alloc_result_def U_def [symmetric] R_def [symmetric]) simp
  qed
qed


lemma alloc_spec:
  fixes ops :: "'w conti_mempool_ops" and clear allow_slow :: bool
  assumes "N * unat (granu a) < 2 ^ 64" "granu a \<noteq> 0"
  defines "r \<equiv> alloc_from_ready N clear a" and "u \<equiv> alloc_from_uncleared N clear allow_slow a"
  defines "head \<equiv> (if clear then take u (memseg_uncleared a) @ take r (memseg_ready a)
                   else take r (memseg_ready a) @ take u (memseg_uncleared a))"
  shows "\<exists>ns w'. conti_alloc_memory ops (of_nat N * granu a) clear allow_slow a w =
      Some (of_nat (r + u + length ns) * granu a, head @ ns, alloc_result r u (length ns) a, w')
    \<and> r + u + length ns \<le> N \<and> r \<le> length (memseg_ready a) \<and> u \<le> length (memseg_uncleared a)
    \<and> (ns \<noteq> [] \<longrightarrow> allow_slow) \<and> drawn ops w ns w'
    \<and> (\<forall>Z U src. clear \<longrightarrow> clear_never_fails ops \<longrightarrow> clear_ok ops Z \<longrightarrow> seg_source_ok ops U src
         \<longrightarrow> addr ` set (take u (memseg_uncleared a)) \<inter> src w = {}
         \<longrightarrow> (\<forall>x \<in> addr ` set (take u (memseg_uncleared a) @ ns). Z w' x))"
proof -
  let ?a2 = "alloc_result r u 0 a"
  let ?w1 = "if clear then clear_all ops ?a2 (take u (memseg_uncleared a)) w else w"
  note fast = alloc_fast_part [OF assms(1,2), of ops clear allow_slow w, folded r_def u_def, folded head_def]
  have ru: "r + u \<le> N" "r \<le> length (memseg_ready a)" "u \<le> length (memseg_uncleared a)"
    by (auto simp: r_def u_def alloc_from_ready_def alloc_from_uncleared_def)
  have d1: "drawn ops w [] ?w1" by (simp add: drawn_clear_all)
  have z1: "Z ?w1 x" if "clear" "clear_never_fails ops" "clear_ok ops Z"
      "x \<in> addr ` set (take u (memseg_uncleared a))" for Z x
    using clear_all_clean [OF that(2,3), of x "take u (memseg_uncleared a)"] that(1,4) by simp
  show ?thesis
  proof (cases "allow_slow \<and> r + u < N")
    case False
    have "conti_alloc_memory ops (of_nat N * granu a) clear allow_slow a w =
        Some (of_nat (r + u + length []) * granu a, head @ [], alloc_result r u (length []) a, ?w1)"
      by (simp only: fast Let_def if_not_P [OF False]) simp
    then show ?thesis using ru d1 z1
      by (intro exI [of _ "[]"] exI [of _ ?w1] conjI allI impI) (assumption, auto)
  next
    case True
    have "(N - (r + u)) * unat (granu a) \<le> N * unat (granu a)" by simp
    from le_less_trans [OF this assms(1)] have b: "(N - (r + u)) * unat (granu ?a2) < 2 ^ 64"
      by (simp add: alloc_result_def)
    have "granu ?a2 \<noteq> 0" using assms(2) by (simp add: alloc_result_def)
    from alloc_slow_spec [OF b this, of ops head clear ?w1] obtain ns w' where
      sl: "conti_alloc_memory_slow ops (of_nat (N - (r + u)) * granu ?a2) head clear ?a2 ?w1 =
        Some (of_nat (length ns) * granu ?a2, head @ ns,
           ?a2\<lparr>pooled_mem_size := pooled_mem_size ?a2 + of_nat (length ns) * granu ?a2,
             used_mem_size := used_mem_size ?a2 + of_nat (length ns) * granu ?a2\<rparr>, w')"
        "length ns \<le> N - (r + u)" "drawn ops ?w1 ns w'"
        "\<forall>Z U src. clear \<longrightarrow> clear_ok ops Z \<longrightarrow> seg_source_ok ops U src \<longrightarrow> (\<forall>x \<in> addr ` set ns. Z w' x)"
      by blast
    have d: "drawn ops w ns w'" using drawn_trans [OF d1 sl(3)] by simp
    have z: "Z w' x" if h: "clear" "clear_never_fails ops" "clear_ok ops Z" "seg_source_ok ops U src"
        "addr ` set (take u (memseg_uncleared a)) \<inter> src w = {}"
        "x \<in> addr ` set (take u (memseg_uncleared a) @ ns)" for Z U src x
    proof (cases "x \<in> addr ` set ns")
      case True then show ?thesis using sl(4) h by blast
    next
      case False
      then have x: "x \<in> addr ` set (take u (memseg_uncleared a))" using h(6) by auto
      then have "x \<notin> src ?w1" using drawnD(3) [OF d1 h(4)] h(5) by blast
      then show ?thesis using drawnD(4) [OF sl(3) h(4,3)] z1 [OF h(1-3) x] by blast
    qed
    have g: "granu ?a2 = granu a" by (simp add: alloc_result_def)
    have fin: "?a2\<lparr>pooled_mem_size := pooled_mem_size ?a2 + of_nat (length ns) * granu a,
             used_mem_size := used_mem_size ?a2 + of_nat (length ns) * granu a\<rparr>
        = alloc_result r u (length ns) a"
      by (simp add: alloc_result_def algebra_simps)
    have "conti_alloc_memory ops (of_nat N * granu a) clear allow_slow a w =
        Some (of_nat (r + u) * granu a + of_nat (length ns) * granu a, head @ ns,
              alloc_result r u (length ns) a, w')"
      using fast True sl(1) [unfolded g fin] by (simp add: Let_def g)
    moreover have "of_nat (r + u) * granu a + of_nat (length ns) * granu a
        = of_nat (r + u + length ns) * granu a" by (simp add: algebra_simps)
    ultimately have eq: "conti_alloc_memory ops (of_nat N * granu a) clear allow_slow a w =
        Some (of_nat (r + u + length ns) * granu a, head @ ns, alloc_result r u (length ns) a, w')"
      by (simp only:)
    have n: "r + u + length ns \<le> N" using ru sl(2) by simp
    have zz: "\<forall>Z U src. clear \<longrightarrow> clear_never_fails ops \<longrightarrow> clear_ok ops Z \<longrightarrow> seg_source_ok ops U src
         \<longrightarrow> addr ` set (take u (memseg_uncleared a)) \<inter> src w = {}
         \<longrightarrow> (\<forall>x \<in> addr ` set (take u (memseg_uncleared a) @ ns). Z w' x)"
      by (intro allI impI ballI) (rule z)
    show ?thesis using eq n ru(2,3) True d zz by blast
  qed
qed

lemma extract_seg_spec:
  "extract_seg x l = Some (n, rest) \<Longrightarrow>
     addr n = x \<and> n \<in> set l \<and> set rest \<subseteq> set l \<and> length l = Suc (length rest) \<and> mset l = add_mset n (mset rest)"
  by (induction l arbitrary: rest) (auto split: if_splits option.splits)

lemma extract_seg_None: "extract_seg x l = None \<longleftrightarrow> x \<notin> addr ` set l"
  by (induction l) (auto split: option.splits)

section \<open>Every operation keeps the accounting\<close>

lemmas inv_simps = conti_inv_def algebra_simps of_nat_diff

lemma expand_inv:
  assumes "conti_inv a h" "conti_mem_allocator_expand ops pause sz a w = (r, a', w')"
  shows "conti_inv a' h"
  using expand_spec [OF assms(2) conti_invD(1) [OF assms(1)]] assms(1)
  by (auto simp: inv_simps)

lemma contract_inv:
  assumes "conti_inv a h" "conti_mem_allocator_contract ops sz a w = (r, a', w')"
  shows "conti_inv a' h"
  using contract_spec [OF assms(2) conti_invD(1) [OF assms(1)]] assms(1)
  by (auto simp: inv_simps)

lemma free_poisoned_inv:
  assumes "conti_inv a h" "conti_mem_allocator_free_poisoned ops a w = (r, a', w')"
  shows "conti_inv a' h"
  using assms by (auto simp: conti_mem_allocator_free_poisoned_def conti_inv_def Let_def split: if_splits)

lemma free_memory_inv:
  assumes "conti_inv a (h + length ns)" "conti_free_memory ops ns a w = (a', w')"
  shows "conti_inv a' h"
  using assms by (auto simp: conti_free_memory_def inv_simps Let_def)

lemma alloc_inv:
  assumes "conti_inv a h" "sz mod granu a = 0"
    "conti_alloc_memory ops sz clear allow_slow a w = Some (r, head, a', w')"
  shows "conti_inv a' (h + length head)" "r = of_nat (length head) * granu a" "r \<le> sz"
    "granu a' = granu a"
proof -
  have g: "granu a \<noteq> 0" using conti_invD(1) [OF assms(1)] .
  from size_count_bound [OF assms(2) g] obtain N where
    N: "sz = of_nat N * granu a" "N * unat (granu a) < 2 ^ 64" .
  define rd u where "rd = alloc_from_ready N clear a" and "u = alloc_from_uncleared N clear allow_slow a"
  from alloc_spec [OF N(2) g, of ops clear allow_slow w, folded rd_def u_def] obtain ns w'' where
    eq: "conti_alloc_memory ops sz clear allow_slow a w =
      Some (of_nat (rd + u + length ns) * granu a,
            (if clear then take u (memseg_uncleared a) @ take rd (memseg_ready a)
             else take rd (memseg_ready a) @ take u (memseg_uncleared a)) @ ns,
            alloc_result rd u (length ns) a, w'')"
    and le: "rd + u + length ns \<le> N" "rd \<le> length (memseg_ready a)" "u \<le> length (memseg_uncleared a)"
    unfolding N(1) by blast
  from eq assms(3) le(2,3) have res: "r = of_nat (rd + u + length ns) * granu a"
      "a' = alloc_result rd u (length ns) a" "rd + u + length ns \<le> N"
      "rd \<le> length (memseg_ready a)" "u \<le> length (memseg_uncleared a)"
      "length head = rd + u + length ns"
    using le(1) by auto
  show "r = of_nat (length head) * granu a" using res by simp
  have "unat r = (rd + u + length ns) * unat (granu a)" "unat sz = N * unat (granu a)"
    unfolding res(1) N(1) by (rule unat_of_nat_mult [where N = N]; use N(2) res(3) in simp)+
  then show "r \<le> sz" using res(3) by (simp add: word_le_nat_alt)
  show "granu a' = granu a" by (simp add: res(2) alloc_result_def)
  show "conti_inv a' (h + length head)"
    using assms(1) res(4,5) unfolding res(2) res(6)
    by (auto simp: alloc_result_def inv_simps)
qed

lemma alloc_total:
  assumes "conti_inv a h" "sz mod granu a = 0"
  shows "\<exists>r head a' w'. conti_alloc_memory ops sz clear allow_slow a w = Some (r, head, a', w')"
proof -
  have g: "granu a \<noteq> 0" using conti_invD(1) [OF assms(1)] .
  from size_count_bound [OF assms(2) g] obtain N where
    N: "sz = of_nat N * granu a" "N * unat (granu a) < 2 ^ 64" .
  show ?thesis using alloc_spec [OF N(2) g, of ops clear allow_slow w] N(1) by blast
qed

lemma isolate_inv:
  assumes "conti_inv a h" "conti_mem_allocator_isolate_memseg x a = (r, a')"
  shows "conti_inv a' h"
  using assms
  by (auto simp: conti_mem_allocator_isolate_memseg_def inv_simps Let_def
      dest!: extract_seg_spec split: if_splits option.splits)

lemma clear_take_inv:
  "conti_inv a h \<Longrightarrow> memseg_clearing a = None \<Longrightarrow> conti_inv (conti_clear_thread_take a) h"
  by (auto simp: conti_clear_thread_take_def inv_simps split: list.splits)

lemma clear_finish_inv:
  assumes "conti_inv a h" "memseg_clearing a = Some node"
    "conti_clear_thread_finish ops node a w = (a', w')"
  shows "conti_inv a' h"
  using assms
  by (auto simp: conti_clear_thread_finish_def inv_simps Let_def split: if_splits prod.splits)

lemma pool_thread_round_inv:
  assumes "conti_inv a h" "conti_pool_thread_round ops pause a w = (a', w')"
  shows "conti_inv a' h"
proof -
  obtain a1 w1 where 1: "(if conti_has_poisoned_memseg a
      then snd (conti_mem_allocator_free_poisoned ops a w) else (a, w)) = (a1, w1)" by fastforce
  have i1: "conti_inv a1 h"
    using 1 assms(1) free_poisoned_inv [OF assms(1)] by (metis prod.collapse prod.inject)
  obtain a2 w2 where 2: "(if conti_need_contract ops a1 w1 \<and> conti_contract_size ops a1 w1 > 0
      then snd (conti_mem_allocator_contract ops (conti_contract_size ops a1 w1) a1 w1)
      else (a1, w1)) = (a2, w2)" by fastforce
  have i2: "conti_inv a2 h"
    using 2 i1 contract_inv [OF i1] by (metis prod.collapse prod.inject)
  show ?thesis
    using assms(2) i2 expand_inv [OF i2] unfolding conti_pool_thread_round_def Let_def 1 2 prod.case
    by (metis prod.collapse prod.inject)
qed

end
