(* ===== verification/Conti_System.thy ===== *)
theory Conti_System
  imports Conti_Mem_Allocator
begin

text \<open>
  The allocator of \<^verbatim>\<open>conti_mem_allocator.c\<close> as a running system: its users, its clearing thread, its pool
  thread and memory errors as the steps of one transition relation, with the accounting, the
  ownership of segments and the cleanliness of the ready list as invariants of every reachable
  state.
\<close>

section \<open>The allocator with its threads and users\<close>

text \<open>The allocator, the segments its users hold and the world.  A rule is one whole call, except
  that a clearing round is its two critical sections, so a run interleaves allocations, releases,
  pool maintenance and memory errors in any order, also between the two halves of a clearing
  round.\<close>

record 'w pool_sys =
  pool :: conti_mem_allocator
  held :: "memseg_node list"
  world :: 'w

inductive conti_step :: "'w conti_mempool_ops \<Rightarrow> 'w pool_sys \<Rightarrow> 'w pool_sys \<Rightarrow> bool" for ops where
  expand: "conti_mem_allocator_expand ops pause sz (pool s) (world s) = (r, a', w')
    \<Longrightarrow> conti_step ops s (s\<lparr>pool := a', world := w'\<rparr>)"
| contract: "conti_mem_allocator_contract ops sz (pool s) (world s) = (r, a', w')
    \<Longrightarrow> conti_step ops s (s\<lparr>pool := a', world := w'\<rparr>)"
| free_poisoned: "conti_mem_allocator_free_poisoned ops (pool s) (world s) = (r, a', w')
    \<Longrightarrow> conti_step ops s (s\<lparr>pool := a', world := w'\<rparr>)"
| alloc: "sz mod granu (pool s) = 0
    \<Longrightarrow> conti_alloc_memory ops sz clear allow_slow (pool s) (world s) = Some (r, head, a', w')
    \<Longrightarrow> conti_step ops s (s\<lparr>pool := a', held := held s @ head, world := w'\<rparr>)"
| free: "mset (held s) = mset ns + mset rest
    \<Longrightarrow> conti_free_memory ops ns (pool s) (world s) = (a', w')
    \<Longrightarrow> conti_step ops s (s\<lparr>pool := a', held := rest, world := w'\<rparr>)"
| isolate: "conti_mem_allocator_isolate_memseg x (pool s) = (r, a')
    \<Longrightarrow> conti_step ops s (s\<lparr>pool := a'\<rparr>)"
| clear_take: "memseg_clearing (pool s) = None
    \<Longrightarrow> conti_step ops s (s\<lparr>pool := conti_clear_thread_take (pool s)\<rparr>)"
| clear_finish: "memseg_clearing (pool s) = Some node
    \<Longrightarrow> conti_clear_thread_finish ops node (pool s) (world s) = (a', w')
    \<Longrightarrow> conti_step ops s (s\<lparr>pool := a', world := w'\<rparr>)"

inductive conti_reachable :: "'w conti_mempool_ops \<Rightarrow> 'w \<Rightarrow> 'w pool_sys \<Rightarrow> bool" for ops w0 where
  start: "conti_mem_allocator_init cfg env al n g (Some ops) parent = (0, Some a)
    \<Longrightarrow> conti_reachable ops w0 \<lparr>pool = a, held = [], world = w0\<rparr>"
| step: "conti_reachable ops w0 s \<Longrightarrow> conti_step ops s t \<Longrightarrow> conti_reachable ops w0 t"

text \<open>The addresses of all segments that the allocator or its users are responsible for.\<close>

definition all_addrs :: "'w pool_sys \<Rightarrow> u64 multiset" where
  "all_addrs s = image_mset addr (owned_segs (pool s) + mset (held s))"

text \<open>Ownership: no address occurs twice and none is still in the source.\<close>

definition owner_inv :: "u64 set \<Rightarrow> ('w \<Rightarrow> u64 set) \<Rightarrow> 'w pool_sys \<Rightarrow> bool" where
  "owner_inv U src s \<longleftrightarrow> (\<forall>x. count (all_addrs s) x \<le> 1)
     \<and> (\<forall>x \<in># all_addrs s. x \<in> U \<and> x \<notin> src (world s))"


text \<open>The ready list holds no old data.\<close>

definition ready_clean :: "('w \<Rightarrow> u64 \<Rightarrow> bool) \<Rightarrow> 'w pool_sys \<Rightarrow> bool" where
  "ready_clean Z s \<longleftrightarrow> (\<forall>n \<in> set (memseg_ready (pool s)). Z (world s) (addr n))"

text \<open>Every step draws segments from the source, gives segments back to it, or files one freshly
  cleared segment as ready.\<close>

definition step_draws :: "'w conti_mempool_ops \<Rightarrow> 'w pool_sys \<Rightarrow> 'w pool_sys \<Rightarrow> bool" where
  "step_draws ops s t \<longleftrightarrow> (\<exists>ns. drawn ops (world s) ns (world t)
     \<and> all_addrs t = all_addrs s + mset (map addr ns)
     \<and> set (memseg_ready (pool t)) \<subseteq> set (memseg_ready (pool s)))"

definition step_frees :: "'w conti_mempool_ops \<Rightarrow> 'w pool_sys \<Rightarrow> 'w pool_sys \<Rightarrow> bool" where
  "step_frees ops s t \<longleftrightarrow> (\<exists>a ns. world t = free_all ops a ns (world s)
     \<and> all_addrs s = all_addrs t + mset (map addr ns)
     \<and> set (memseg_ready (pool t)) \<subseteq> set (memseg_ready (pool s)))"

definition step_clears :: "'w conti_mempool_ops \<Rightarrow> 'w pool_sys \<Rightarrow> 'w pool_sys \<Rightarrow> bool" where
  "step_clears ops s t \<longleftrightarrow> (\<exists>n. memseg_ready (pool t) = n # memseg_ready (pool s)
     \<and> all_addrs t = all_addrs s \<and> conti_clear_memseg ops (pool s) n (world s) = (0, world t))"

section \<open>A concrete source of segments\<close>

text \<open>A source with a list of free addresses and a list of clean ones, for concrete runs.  Its
  clearing fails for the addresses listed in \<open>bad\<close>.\<close>

definition demo_ops :: "u64 list \<Rightarrow> (u64 list \<times> u64 list) conti_mempool_ops" where
  "demo_ops bad =
     \<lparr>clear_memseg = Some (\<lambda>a n w. if addr n \<in> set bad then (- EFAULT, w)
                                   else (0, (fst w, addr n # snd w))),
      pool_free_memseg = Some (\<lambda>a n w. (addr n # fst w, filter (\<lambda>x. x \<noteq> addr n) (snd w))),
      pool_alloc_memseg = Some (\<lambda>a w. case fst w of [] \<Rightarrow> (None, w)
        | x # xs \<Rightarrow> (Some \<lparr>addr = x, seg_size = granu a\<rparr>, (filter (\<lambda>y. y \<noteq> x) xs, snd w))),
      need_contract = None, contract_size = None,
      need_expand = Some (\<lambda>a w. True), expand_size = Some (\<lambda>a w. granu a)\<rparr>"

definition demo_env :: conti_init_env where
  "demo_env = \<lparr>env_name = Some ''obmm-0'', env_clear_thread_ok = True, env_pool_thread_ok = True,
     env_kobject_ret = 0, env_sysfs_ret = 0\<rparr>"

definition demo_cfg :: mm_config where
  "demo_cfg = \<lparr>PAGE_SHIFT = 12, PMD_SHIFT = 21, PUD_SHIFT = 30\<rparr>"

definition demo_start :: conti_mem_allocator where
  "demo_start = zeroed_allocator\<lparr>alloc_name := Some ''obmm-0'', nid := 0, granu := 0x200000,
     clear_work := True, pool_work := True, sysfs_initialized := True, initialized := True\<rparr>"

text \<open>One segment is in use and one, uncleared, is in the pool.\<close>

definition demo_seg :: "u64 \<Rightarrow> memseg_node" where
  "demo_seg x = \<lparr>addr = x, seg_size = 0x200000\<rparr>"

definition demo_pool :: "u64 list \<Rightarrow> conti_mem_allocator" where
  "demo_pool xs = demo_start\<lparr>memseg_uncleared := map demo_seg xs,
     pooled_mem_size := of_nat (length xs) * 0x200000, uncleared_mem_size := of_nat (length xs) * 0x200000\<rparr>"

text \<open>All segments the allocator is responsible for, in one list.\<close>

definition pool_segs :: "conti_mem_allocator \<Rightarrow> memseg_node list" where
  "pool_segs a = memseg_ready a @ memseg_uncleared a
     @ (case memseg_clearing a of None \<Rightarrow> [] | Some n \<Rightarrow> [n]) @ memseg_poisoned a"


section \<open>The accounting holds in every reachable state\<close>

lemma init_inv:
  assumes "conti_mem_allocator_init cfg env al n g (Some ops) parent = (0, Some a)"
  shows "conti_inv a 0" "owned_segs a = {#}" "memseg_ready a = []"
  using assms
  by (auto simp: conti_mem_allocator_init_def conti_inv_def owned_segs_def zeroed_allocator_def
      clear_thread_init_def pool_thread_init_def Let_def split: option.splits if_splits)

lemma step_inv:
  assumes "conti_step ops s t" "conti_inv (pool s) (length (held s))"
  shows "conti_inv (pool t) (length (held t))"
  using assms
proof (induction rule: conti_step.induct)
  case (free s ns rest a' w')
  have "length (held s) = length rest + length ns"
    using free(1) by (metis add.commute size_mset size_union)
  then show ?case using free(2,3) free_memory_inv by simp
next
  case (alloc sz s clear allow_slow r head a' w')
  from alloc_inv(1) [OF alloc(3,1,2)] show ?case by simp
qed (auto intro: expand_inv contract_inv free_poisoned_inv alloc_inv isolate_inv clear_take_inv
      clear_finish_inv)

lemma reachable_inv: "conti_reachable ops w0 s \<Longrightarrow> conti_inv (pool s) (length (held s))"
  by (induction rule: conti_reachable.induct) (auto intro: step_inv init_inv)

section \<open>No segment has two owners\<close>

lemma free_all_source:
  assumes "seg_source_ok ops U src"
  shows "addr ` set ns \<subseteq> U \<Longrightarrow> src (free_all ops a ns w) \<subseteq> src w \<union> addr ` set ns"
  unfolding free_all_def
proof (induction ns arbitrary: w)
  case (Cons n ns)
  show ?case
    using Cons.IH [of "conti_pool_free_memseg ops a n w"] seg_source_okD(4) [OF assms, of n a w] Cons.prems
    by auto
qed simp

lemma free_all_clean:
  assumes "clear_ok ops Z"
  shows "Z w x \<Longrightarrow> x \<notin> addr ` set ns \<Longrightarrow> Z (free_all ops a ns w) x"
  unfolding free_all_def
  by (induction ns arbitrary: w) (auto intro: clear_okD(5) [OF assms])

text \<open>Two ways a step moves addresses: segments come from the source, or they go back to it.\<close>

lemma owner_inv_drawn:
  assumes "owner_inv U src s" "seg_source_ok ops U src" "drawn ops (world s) ns (world t)"
    "all_addrs t = all_addrs s + mset (map addr ns)"
  shows "owner_inv U src t"
proof -
  note d = drawnD [OF assms(3,2)]
  have "count (all_addrs t) x \<le> 1" for x
  proof (cases "x \<in> addr ` set ns")
    case True
    then have "x \<in> src (world s)" using d(2) by blast
    then have "count (all_addrs s) x = 0"
      using assms(1) unfolding owner_inv_def by (metis count_eq_zero_iff)
    moreover have "count (mset (map addr ns)) x \<le> 1"
      using d(1) by (simp add: distinct_count_atmost_1)
    ultimately show ?thesis using assms(4) by simp
  next
    case False
    then have "count (mset (map addr ns)) x = 0" by (simp add: count_eq_zero_iff)
    then show ?thesis using assms(1,4) by (simp add: owner_inv_def)
  qed
  moreover have "x \<in> U \<and> x \<notin> src (world t)" if "x \<in># all_addrs t" for x
    using that assms(1,4) d(2,3) seg_source_okD(6) [OF assms(2), of "world s"] unfolding owner_inv_def by auto
  ultimately show ?thesis by (simp add: owner_inv_def)
qed

lemma owner_inv_freed:
  assumes "owner_inv U src s" "seg_source_ok ops U src" "world t = free_all ops a ns (world s)"
    "all_addrs s = all_addrs t + mset (map addr ns)"
  shows "owner_inv U src t"
proof -
  have le: "count (all_addrs t) x + count (mset (map addr ns)) x \<le> 1" for x
    using assms(1,4) unfolding owner_inv_def by (metis count_union)
  have u: "addr ` set ns \<subseteq> U"
    using assms(1,4) unfolding owner_inv_def by auto
  have "x \<in> U \<and> x \<notin> src (world t)" if x: "x \<in># all_addrs t" for x
  proof -
    have "count (all_addrs t) x \<noteq> 0" using x by simp
    then have "count (mset (map addr ns)) x = 0" using le [of x] by linarith
    then have "x \<notin> addr ` set ns" by (simp add: count_eq_zero_iff)
    moreover have "x \<in> U \<and> x \<notin> src (world s)" using assms(1,4) x unfolding owner_inv_def by auto
    ultimately show ?thesis using free_all_source [OF assms(2) u, of a "world s"] assms(3) by auto
  qed
  moreover have "count (all_addrs t) x \<le> 1" for x using le [of x] by simp
  ultimately show ?thesis by (simp add: owner_inv_def)
qed

lemma owner_inv_same:
  assumes "owner_inv U src s" "src (world t) \<subseteq> src (world s)" "all_addrs t = all_addrs s"
  shows "owner_inv U src t"
  using assms by (auto simp: owner_inv_def)

lemma mset_take_drop: "mset (take i xs) + mset (drop i xs) = mset xs"
  by (metis append_take_drop_id mset_append)

lemma image_take_drop:
  "image_mset f (mset (take i xs)) + image_mset f (mset (drop i xs)) = image_mset f (mset xs)"
  by (metis image_mset_union mset_take_drop)

lemma alloc_owned:
  assumes "conti_inv a h" "sz mod granu a = 0"
    "conti_alloc_memory ops sz clear allow_slow a w = Some (r, head, a', w')"
  obtains k u ns where "owned_segs a' + mset head = owned_segs a + mset ns" "drawn ops w ns w'"
    "memseg_ready a' = drop k (memseg_ready a)" "memseg_uncleared a' = drop u (memseg_uncleared a)"
    "set head = set (take k (memseg_ready a)) \<union> set (take u (memseg_uncleared a)) \<union> set ns"
    "clear \<Longrightarrow> \<not> allow_slow \<Longrightarrow> ns = [] \<and> u = 0"
    "\<And>Z U src x. clear \<Longrightarrow> clear_never_fails ops \<Longrightarrow> clear_ok ops Z \<Longrightarrow> seg_source_ok ops U src
       \<Longrightarrow> addr ` set (take u (memseg_uncleared a)) \<inter> src w = {}
       \<Longrightarrow> x \<in> addr ` set (take u (memseg_uncleared a) @ ns) \<Longrightarrow> Z w' x"
proof -
  note g = conti_invD(1) [OF assms(1)]
  from size_count_bound [OF assms(2) g] obtain N where
    N: "sz = of_nat N * granu a" "N * unat (granu a) < 2 ^ 64" .
  define k u where "k = alloc_from_ready N clear a" and "u = alloc_from_uncleared N clear allow_slow a"
  from alloc_spec [OF N(2) g, of ops clear allow_slow w, folded k_def u_def] obtain ns w'' where
    eq: "conti_alloc_memory ops sz clear allow_slow a w =
      Some (of_nat (k + u + length ns) * granu a,
            (if clear then take u (memseg_uncleared a) @ take k (memseg_ready a)
             else take k (memseg_ready a) @ take u (memseg_uncleared a)) @ ns,
            alloc_result k u (length ns) a, w'')"
    and d: "drawn ops w ns w''" and sl: "ns \<noteq> [] \<longrightarrow> allow_slow"
    and z: "\<forall>Z U src. clear \<longrightarrow> clear_never_fails ops \<longrightarrow> clear_ok ops Z \<longrightarrow> seg_source_ok ops U src
         \<longrightarrow> addr ` set (take u (memseg_uncleared a)) \<inter> src w = {}
         \<longrightarrow> (\<forall>x \<in> addr ` set (take u (memseg_uncleared a) @ ns). Z w'' x)"
    unfolding N(1) by blast
  have head: "head = (if clear then take u (memseg_uncleared a) @ take k (memseg_ready a)
             else take k (memseg_ready a) @ take u (memseg_uncleared a)) @ ns"
    and a': "a' = alloc_result k u (length ns) a" and w': "w' = w''"
    using eq assms(3) by auto
  have u0: "clear \<Longrightarrow> \<not> allow_slow \<Longrightarrow> u = 0" by (simp add: u_def alloc_from_uncleared_def)
  have "owned_segs a' + mset head = owned_segs a + mset ns"
    unfolding owned_segs_def mset_take_drop [of k "memseg_ready a", symmetric]
      mset_take_drop [of u "memseg_uncleared a", symmetric]
    by (simp add: a' head alloc_result_def ac_simps)
  moreover have "drawn ops w ns w'" using d w' by simp
  moreover have "memseg_ready a' = drop k (memseg_ready a)" "memseg_uncleared a' = drop u (memseg_uncleared a)"
    by (simp_all add: a' alloc_result_def)
  moreover have "set head = set (take k (memseg_ready a)) \<union> set (take u (memseg_uncleared a)) \<union> set ns"
    unfolding head by auto
  moreover have "clear \<Longrightarrow> \<not> allow_slow \<Longrightarrow> ns = [] \<and> u = 0" using sl u0 by blast
  moreover have "Z w' x" if "clear" "clear_never_fails ops" "clear_ok ops Z" "seg_source_ok ops U src"
      "addr ` set (take u (memseg_uncleared a)) \<inter> src w = {}"
      "x \<in> addr ` set (take u (memseg_uncleared a) @ ns)" for Z U src x
    using z that unfolding w' by blast
  ultimately show thesis by (rule that)
qed

lemma owned_ready: "n \<in> set (memseg_ready a) \<Longrightarrow> n \<in># owned_segs a"
  by (simp add: owned_segs_def)

lemma owner_inv_ready: "owner_inv U src s \<Longrightarrow> n \<in> set (memseg_ready (pool s)) \<Longrightarrow> addr n \<notin> src (world s)"
  unfolding owner_inv_def all_addrs_def by (auto dest!: owned_ready)

lemma ready_clean_drawn:
  assumes "ready_clean Z s" "owner_inv U src s" "seg_source_ok ops U src" "clear_ok ops Z"
    "drawn ops (world s) ns (world t)" "set (memseg_ready (pool t)) \<subseteq> set (memseg_ready (pool s))"
  shows "ready_clean Z t"
  unfolding ready_clean_def
proof
  fix n assume "n \<in> set (memseg_ready (pool t))"
  then have n: "n \<in> set (memseg_ready (pool s))" using assms(6) by blast
  then have "Z (world s) (addr n)" using assms(1) by (simp add: ready_clean_def)
  then show "Z (world t) (addr n)"
    using drawnD(4) [OF assms(5,3,4)] owner_inv_ready [OF assms(2) n] by blast
qed

lemma ready_clean_freed:
  assumes "ready_clean Z s" "owner_inv U src s" "clear_ok ops Z"
    "world t = free_all ops a ns (world s)" "all_addrs s = all_addrs t + mset (map addr ns)"
    "set (memseg_ready (pool t)) \<subseteq> set (memseg_ready (pool s))"
  shows "ready_clean Z t"
  unfolding ready_clean_def
proof
  fix n assume n: "n \<in> set (memseg_ready (pool t))"
  then have "addr n \<in># all_addrs t" unfolding all_addrs_def using owned_ready by fastforce
  then have "count (all_addrs t) (addr n) \<noteq> 0" by simp
  moreover have "count (all_addrs t) (addr n) + count (mset (map addr ns)) (addr n) \<le> 1"
    using assms(2,5) unfolding owner_inv_def by (metis count_union)
  ultimately have "count (mset (map addr ns)) (addr n) = 0" by linarith
  then have "addr n \<notin> addr ` set ns" by (simp add: count_eq_zero_iff)
  moreover have "Z (world s) (addr n)" using n assms(1,6) by (auto simp: ready_clean_def)
  ultimately show "Z (world t) (addr n)" using free_all_clean [OF assms(3)] assms(4) by metis
qed


lemmas step_kind_defs = all_addrs_def owned_segs_def mset_map [symmetric]

lemma step_contract_frees:
  assumes "conti_mem_allocator_contract ops sz (pool s) (world s) = (r, a', w')" "granu (pool s) \<noteq> 0"
  shows "step_frees ops s (s\<lparr>pool := a', world := w'\<rparr>)"
proof -
  from contract_spec [OF assms] obtain i j a0 where
    c: "memseg_uncleared a' = drop i (memseg_uncleared (pool s))"
      "memseg_ready a' = drop j (memseg_ready (pool s))"
      "memseg_clearing a' = memseg_clearing (pool s)" "memseg_poisoned a' = memseg_poisoned (pool s)"
      "w' = free_all ops a0 (take i (memseg_uncleared (pool s)) @ take j (memseg_ready (pool s))) (world s)"
    by auto
  have "owned_segs (pool s) = owned_segs a'
      + mset (take i (memseg_uncleared (pool s)) @ take j (memseg_ready (pool s)))"
    unfolding owned_segs_def mset_take_drop [of j "memseg_ready (pool s)", symmetric]
      mset_take_drop [of i "memseg_uncleared (pool s)", symmetric]
    by (simp add: c ac_simps)
  then show ?thesis unfolding step_frees_def all_addrs_def
    using c(2,5) set_drop_subset [of j "memseg_ready (pool s)"]
    by (intro exI [of _ a0] exI [of _ "take i (memseg_uncleared (pool s)) @ take j (memseg_ready (pool s))"])
       (simp add: ac_simps)
qed

lemma step_isolate_draws:
  assumes "conti_mem_allocator_isolate_memseg x (pool s) = (r, a')"
  shows "step_draws ops s (s\<lparr>pool := a'\<rparr>)"
proof -
  have "owned_segs a' = owned_segs (pool s) \<and> set (memseg_ready a') \<subseteq> set (memseg_ready (pool s))"
    using assms
    by (auto simp: conti_mem_allocator_isolate_memseg_def owned_segs_def Let_def
        dest!: extract_seg_spec split: if_splits option.splits)
  then show ?thesis by (auto simp: step_draws_def all_addrs_def intro!: exI [of _ "[]"])
qed

lemma step_expand_draws:
  assumes "conti_mem_allocator_expand ops pause sz (pool s) (world s) = (r, a', w')" "granu (pool s) \<noteq> 0"
  shows "step_draws ops s (s\<lparr>pool := a', world := w'\<rparr>)"
proof -
  from expand_spec [OF assms] obtain ns where
    e: "owned_segs a' = owned_segs (pool s) + mset ns" "memseg_ready a' = memseg_ready (pool s)"
      "drawn ops (world s) ns w'" by (auto simp: owned_segs_def ac_simps)
  then show ?thesis by (auto simp: step_draws_def all_addrs_def ac_simps intro!: exI [of _ ns])
qed

lemma step_finish_kind:
  assumes "memseg_clearing (pool s) = Some n"
    "conti_clear_thread_finish ops n (pool s) (world s) = (a', w')"
  defines "t \<equiv> s\<lparr>pool := a', world := w'\<rparr>"
  shows "step_draws ops s t \<or> step_clears ops s t"
proof -
  obtain ret w1 where c: "conti_clear_memseg ops (pool s) n (world s) = (ret, w1)" by fastforce
  have w: "w' = w1" "owned_segs a' = owned_segs (pool s)"
    and rdy: "memseg_ready a' = (if ret = 0 then n # memseg_ready (pool s) else memseg_ready (pool s))"
    using assms(1,2) c
    by (auto simp: conti_clear_thread_finish_def owned_segs_def Let_def split: if_splits)
  show ?thesis
  proof (cases "ret = 0")
    case True
    then have "step_clears ops s t"
      using w rdy c by (auto simp: step_clears_def all_addrs_def t_def)
    then show ?thesis ..
  next
    case False
    then have "step_draws ops s t"
      using w rdy drawn_clear [OF c] by (auto simp: step_draws_def all_addrs_def t_def intro!: exI [of _ "[]"])
    then show ?thesis ..
  qed
qed

lemma step_kind:
  assumes "conti_step ops s t" "conti_inv (pool s) (length (held s))"
  shows "step_draws ops s t \<or> step_frees ops s t \<or> step_clears ops s t"
  using assms
proof (cases rule: conti_step.cases)
  case (free_poisoned r a' w')
  show ?thesis
  proof (cases "pool_free_memseg ops = None")
    case True
    then show ?thesis using free_poisoned
      by (auto simp: conti_mem_allocator_free_poisoned_def step_draws_def intro!: exI [of _ "[]"])
  next
    case False
    let ?a = "pool s\<lparr>memseg_poisoned := []\<rparr>"
    have "step_frees ops s t"
      unfolding step_frees_def
      using False free_poisoned
      by (intro exI [of _ ?a] exI [of _ "memseg_poisoned (pool s)"])
         (auto simp: conti_mem_allocator_free_poisoned_def all_addrs_def owned_segs_def Let_def ac_simps)
    then show ?thesis by blast
  qed
next
  case (alloc sz clear allow_slow r head a' w')
  from alloc_owned [OF assms(2) alloc(2,3)] obtain k ns where
    al: "owned_segs a' + mset head = owned_segs (pool s) + mset ns" "drawn ops (world s) ns w'"
      "memseg_ready a' = drop k (memseg_ready (pool s))" .
  have "all_addrs t = all_addrs s + mset (map addr ns)"
    using arg_cong [OF al(1), of "image_mset addr"] unfolding alloc(1) all_addrs_def
    by (simp add: ac_simps)
  then show ?thesis using al(2,3) set_drop_subset [of k "memseg_ready (pool s)"]
    unfolding step_draws_def alloc(1) by auto
next
  case (free ns rest a' w')
  have "step_frees ops s t"
    using free(2,3) unfolding free(1) step_frees_def all_addrs_def
    by (intro exI [of _ "pool s"] exI [of _ ns])
       (auto simp: conti_free_memory_def owned_segs_def Let_def ac_simps)
  then show ?thesis by blast
next
  case clear_take
  have "step_draws ops s t"
    using clear_take(2) unfolding clear_take(1)
    by (auto simp: conti_clear_thread_take_def step_draws_def all_addrs_def owned_segs_def ac_simps
        intro!: exI [of _ "[]"] split: list.splits)
  then show ?thesis by blast
qed (use conti_invD(1) [OF assms(2)] step_contract_frees step_isolate_draws step_expand_draws
       step_finish_kind in metis)+

lemma step_owner_inv:
  assumes "conti_step ops s t" "conti_inv (pool s) (length (held s))" "seg_source_ok ops U src"
    "owner_inv U src s"
  shows "owner_inv U src t"
  using step_kind [OF assms(1,2)]
proof (elim disjE)
  assume "step_draws ops s t"
  then show ?thesis unfolding step_draws_def using owner_inv_drawn [OF assms(4,3)] by blast
next
  assume "step_frees ops s t"
  then show ?thesis unfolding step_frees_def using owner_inv_freed [OF assms(4,3)] by blast
next
  assume "step_clears ops s t"
  then show ?thesis unfolding step_clears_def
    using owner_inv_same [OF assms(4)] seg_source_okD(5) [OF assms(3)] by blast
qed

lemma step_ready_clean:
  assumes "conti_step ops s t" "conti_inv (pool s) (length (held s))" "seg_source_ok ops U src"
    "owner_inv U src s" "clear_ok ops Z" "ready_clean Z s"
  shows "ready_clean Z t"
  using step_kind [OF assms(1,2)]
proof (elim disjE)
  assume "step_draws ops s t"
  then show ?thesis unfolding step_draws_def using ready_clean_drawn [OF assms(6,4,3,5)] by blast
next
  assume "step_frees ops s t"
  then show ?thesis unfolding step_frees_def using ready_clean_freed [OF assms(6,4,5)] by blast
next
  assume "step_clears ops s t"
  then obtain n where "memseg_ready (pool t) = n # memseg_ready (pool s)"
    and c: "conti_clear_memseg ops (pool s) n (world s) = (0, world t)" unfolding step_clears_def by blast
  then show ?thesis
    using clear_okD(2,3) [OF assms(5) c] assms(6) by (auto simp: ready_clean_def)
qed

lemma reachable_owner_inv:
  assumes "seg_source_ok ops U src"
  shows "conti_reachable ops w0 s \<Longrightarrow> owner_inv U src s"
proof (induction rule: conti_reachable.induct)
  case (start cfg env al n g parent a)
  then show ?case by (simp add: owner_inv_def all_addrs_def init_inv(2))
next
  case (step s t)
  then show ?case using step_owner_inv [OF _ reachable_inv assms] by blast
qed

lemma reachable_ready_clean:
  assumes "seg_source_ok ops U src" "clear_ok ops Z"
  shows "conti_reachable ops w0 s \<Longrightarrow> ready_clean Z s"
proof (induction rule: conti_reachable.induct)
  case (start cfg env al n g parent a)
  then show ?case by (simp add: ready_clean_def init_inv(3))
next
  case (step s t)
  then show ?case
    using step_ready_clean [OF _ reachable_inv assms(1) reachable_owner_inv [OF assms(1)] assms(2)] by blast
qed

lemma demo_source_ok: "seg_source_ok (demo_ops bad) UNIV (\<lambda>w. set (fst w))"
  by (auto simp: seg_source_ok_def demo_ops_def conti_pool_alloc_memseg_def conti_pool_free_memseg_def
      conti_clear_memseg_def split: list.splits)

lemma demo_clear_ok: "clear_ok (demo_ops bad) (\<lambda>w x. x \<in> set (snd w))"
  by (auto simp: clear_ok_def demo_ops_def conti_pool_alloc_memseg_def conti_pool_free_memseg_def
      conti_clear_memseg_def split: list.splits if_splits)

lemma demo_init:
  "conti_mem_allocator_init demo_cfg demo_env (Some zeroed_allocator) 0 0x200000 (Some (demo_ops bad)) True
     = (0, Some demo_start)"
  by (simp add: conti_mem_allocator_init_def demo_ops_def demo_cfg_def demo_env_def demo_start_def
      IS_ALIGNED_def clear_thread_init_def pool_thread_init_def zeroed_allocator_def)

lemma demo_reach_start:
  "conti_reachable (demo_ops bad) w0 \<lparr>pool = demo_start, held = [], world = w0\<rparr>"
  by (rule conti_reachable.start [OF demo_init])

lemma demo_expand:
  "conti_mem_allocator_expand (demo_ops bad) (\<lambda>_. 0) 0x400000 demo_start ([0x40000000, 0x40200000], [])
     = (0x400000, demo_pool [0x40000000, 0x40200000], ([], []))"
proof -
  have n: "unat ((0x400000 :: u64) div 0x200000) = Suc (Suc 0)" by simp
  have g: "granu demo_start = 0x200000" by (simp add: demo_start_def)
  show ?thesis
    unfolding conti_mem_allocator_expand_def g n
    by (simp add: demo_start_def demo_pool_def demo_seg_def zeroed_allocator_def demo_ops_def
        conti_pool_alloc_memseg_def)
qed

lemma demo_reach_pool:
  "conti_reachable (demo_ops bad) ([0x40000000, 0x40200000], [])
     \<lparr>pool = demo_pool [0x40000000, 0x40200000], held = [], world = ([], [])\<rparr>"
proof -
  let ?s = "\<lparr>pool = demo_start, held = [], world = ([0x40000000, 0x40200000], [])\<rparr>"
  have "conti_step (demo_ops bad) ?s
      (?s\<lparr>pool := demo_pool [0x40000000, 0x40200000], world := ([], [])\<rparr>)"
    by (rule conti_step.expand) (simp, rule demo_expand)
  from conti_reachable.step [OF demo_reach_start this] show ?thesis by simp
qed

lemma mset_pool_segs: "mset (pool_segs a) = owned_segs a"
  by (simp add: pool_segs_def owned_segs_def ac_simps)

lemma owner_inv_distinct:
  assumes "owner_inv U src s"
  shows "distinct (map addr (pool_segs (pool s) @ held s))"
    "addr ` set (pool_segs (pool s) @ held s) \<inter> src (world s) = {}"
proof -
  have m: "mset (map addr (pool_segs (pool s) @ held s)) = all_addrs s"
    by (simp add: all_addrs_def mset_pool_segs [symmetric])
  have "count (mset (map addr (pool_segs (pool s) @ held s))) x \<le> 1" for x
    using assms unfolding m owner_inv_def by blast
  then show "distinct (map addr (pool_segs (pool s) @ held s))"
    by (metis count_mset_0_iff distinct_count_atmost_1 le_SucE le_zero_eq One_nat_def)
  have "set (map addr (pool_segs (pool s) @ held s)) = set_mset (all_addrs s)"
    by (metis m set_mset_mset)
  then show "addr ` set (pool_segs (pool s) @ held s) \<inter> src (world s) = {}"
    using assms unfolding owner_inv_def by auto
qed

section \<open>Properties\<close>

text \<open>C8: in every reachable state the four byte counters agree with the lists.  The pool size is the
  sum of the ready, uncleared and used bytes, the used bytes are those of the segments handed out,
  and the available bytes are those of the segments waiting in the pool.\<close>

theorem conti_accounting:
  assumes "conti_reachable ops w0 s"
  defines "a \<equiv> pool s"
  defines "waiting \<equiv> length (memseg_ready a) + length (memseg_uncleared a)
      + (if memseg_clearing a = None then 0 else 1)"
  shows "used_mem_size a = of_nat (length (held s)) * granu a
    \<and> ready_mem_size a = of_nat (length (memseg_ready a)) * granu a
    \<and> conti_get_total a = ready_mem_size a + uncleared_mem_size a + used_mem_size a
    \<and> conti_get_avail a = of_nat waiting * granu a"
  using reachable_inv [OF assms(1)]
  by (auto simp: a_def waiting_def conti_inv_def conti_get_total_def conti_get_avail_def algebra_simps)

theorem conti_accounting_witness:
  "conti_get_avail (demo_pool [0x40000000, 0x40200000]) = 0x400000"
  using conti_accounting [OF demo_reach_pool [of "[]"]]
  by (simp add: demo_pool_def demo_start_def zeroed_allocator_def)

text \<open>C9: when the source never gives out the same segment twice, then in every reachable state no
  segment has two owners: the segments on the three lists, in the clearing slot and in the hands of
  users are pairwise different, and none of them is still in the source.\<close>

theorem conti_no_double_owner:
  assumes "seg_source_ok ops U src" "conti_reachable ops w0 s"
  shows "distinct (map addr (pool_segs (pool s) @ held s))
    \<and> addr ` set (pool_segs (pool s) @ held s) \<inter> src (world s) = {}"
  using owner_inv_distinct [OF reachable_owner_inv [OF assms]] by blast

theorem conti_no_double_owner_witness:
  "distinct (map addr (pool_segs (demo_pool [0x40000000, 0x40200000])))
   \<and> length (pool_segs (demo_pool [0x40000000, 0x40200000])) = 2"
  using conti_no_double_owner [OF demo_source_ok demo_reach_pool [of "[]"]]
  by (simp add: pool_segs_def demo_pool_def demo_start_def zeroed_allocator_def)

text \<open>C10: an allocation that asks for cleared memory hands out segments without old data, provided
  it may not take the slow route or no clearing call fails.\<close>

theorem conti_alloc_clean:
  assumes "conti_reachable ops w0 s" "seg_source_ok ops U src" "clear_ok ops Z"
    "sz mod granu (pool s) = 0" "\<not> allow_slow \<or> clear_never_fails ops"
    "conti_alloc_memory ops sz True allow_slow (pool s) (world s) = Some (r, head, a', w')"
  shows "\<forall>n \<in> set head. Z w' (addr n)"
proof
  fix n assume n: "n \<in> set head"
  note inv = reachable_inv [OF assms(1)]
  note own = reachable_owner_inv [OF assms(2,1)]
  note cl = reachable_ready_clean [OF assms(2,3,1)]
  from alloc_owned [OF inv assms(4,6)] obtain k u ns where
    al: "drawn ops (world s) ns w'"
      "set head = set (take k (memseg_ready (pool s))) \<union> set (take u (memseg_uncleared (pool s))) \<union> set ns"
      "\<not> allow_slow \<Longrightarrow> ns = [] \<and> u = 0"
      "\<And>x. clear_never_fails ops \<Longrightarrow> addr ` set (take u (memseg_uncleared (pool s))) \<inter> src (world s) = {}
        \<Longrightarrow> x \<in> addr ` set (take u (memseg_uncleared (pool s)) @ ns) \<Longrightarrow> Z w' x"
    using assms(2,3) by metis
  have dis: "addr ` set (take u (memseg_uncleared (pool s))) \<inter> src (world s) = {}"
    using owner_inv_distinct(2) [OF own] set_take_subset [of u "memseg_uncleared (pool s)"]
    by (auto simp: pool_segs_def)
  show "Z w' (addr n)"
  proof (cases "n \<in> set (memseg_ready (pool s))")
    case True
    then have "Z (world s) (addr n)" using cl by (simp add: ready_clean_def)
    then show ?thesis using drawnD(4) [OF al(1) assms(2,3)] owner_inv_ready [OF own True] by blast
  next
    case False
    then have n': "n \<in> set (take u (memseg_uncleared (pool s)) @ ns)"
      using n al(2) by (auto dest: in_set_takeD)
    then have "allow_slow" using al(3) by (cases allow_slow) auto
    then show ?thesis using assms(5) al(4) [OF _ dis] n' by blast
  qed
qed

lemma demo_sync_alloc:
  "conti_alloc_memory (demo_ops bad) 0x200000 True True (demo_pool [0x40000000, 0x40200000]) ([], [])
     = Some (0x200000, [demo_seg 0x40000000],
             (demo_pool [0x40200000])\<lparr>pooled_mem_size := 0x400000, used_mem_size := 0x200000\<rparr>,
             ([], if 0x40000000 \<in> set bad then [] else [0x40000000]))"
  by (simp add: conti_alloc_memory_def demo_pool_def demo_start_def demo_seg_def zeroed_allocator_def
      clear_all_def conti_clear_memseg_def demo_ops_def)

theorem conti_alloc_clean_witness:
  "\<exists>r head a' w'. conti_alloc_memory (demo_ops []) 0x200000 True True
      (demo_pool [0x40000000, 0x40200000]) ([], []) = Some (r, head, a', w')
    \<and> head = [demo_seg 0x40000000] \<and> (\<forall>n \<in> set head. addr n \<in> set (snd w'))"
proof -
  let ?s = "\<lparr>pool = demo_pool [0x40000000, 0x40200000], held = [], world = ([], [])\<rparr>"
  have nf: "clear_never_fails (demo_ops [])"
    by (simp add: clear_never_fails_def conti_clear_memseg_def demo_ops_def)
  have al: "0x200000 mod granu (pool ?s) = 0" by (simp add: demo_pool_def demo_start_def)
  have e: "conti_alloc_memory (demo_ops []) 0x200000 True True (pool ?s) (world ?s)
      = Some (0x200000, [demo_seg 0x40000000],
             (demo_pool [0x40200000])\<lparr>pooled_mem_size := 0x400000, used_mem_size := 0x200000\<rparr>,
             ([], [0x40000000]))"
    using demo_sync_alloc [of "[]"] by simp
  from conti_alloc_clean [OF demo_reach_pool demo_source_ok demo_clear_ok al disjI2 [OF nf] e] e
  show ?thesis by auto
qed


text \<open>C23: in every reachable state, an allocation of a multiple of the granularity returns, hands out
  exactly as many bytes as it reports, never more than were asked for, and, when the list it prefers
  holds enough segments, all that were asked for.\<close>

theorem conti_alloc_returns:
  fixes clear allow_slow :: bool
  assumes "conti_reachable ops w0 s" "sz mod granu (pool s) = 0"
  defines "preferred \<equiv> (if clear then memseg_ready (pool s) else memseg_uncleared (pool s))"
  shows "\<exists>r head a' w'. conti_alloc_memory ops sz clear allow_slow (pool s) (world s) = Some (r, head, a', w')
    \<and> r = of_nat (length head) * granu (pool s) \<and> r \<le> sz
    \<and> (unat (sz div granu (pool s)) \<le> length preferred \<longrightarrow> r = sz)"
proof -
  note inv = reachable_inv [OF assms(1)]
  note g = conti_invD(1) [OF inv]
  from size_count_bound [OF assms(2) g] obtain N where
    N: "sz = of_nat N * granu (pool s)" "N * unat (granu (pool s)) < 2 ^ 64" "N = unat (sz div granu (pool s))" .
  from alloc_total [OF inv assms(2), of ops clear allow_slow "world s"] obtain r head a' w' where
    al: "conti_alloc_memory ops sz clear allow_slow (pool s) (world s) = Some (r, head, a', w')" by blast
  define k u where "k = alloc_from_ready N clear (pool s)" and "u = alloc_from_uncleared N clear allow_slow (pool s)"
  from alloc_spec [OF N(2) g, of ops clear allow_slow "world s", folded k_def u_def, folded N(1)]
  obtain ns :: "memseg_node list" where ns: "r = of_nat (k + u + length ns) * granu (pool s)" "k + u + length ns \<le> N"
    unfolding al option.inject prod.inject by blast
  have "r = sz" if "N \<le> length preferred"
  proof -
    have "N \<le> k + u"
      using that by (cases clear) (auto simp: k_def u_def preferred_def alloc_from_ready_def alloc_from_uncleared_def)
    then have "k + u + length ns = N" using ns(2) by linarith
    then show ?thesis using ns(1) N(1) by simp
  qed
  then show ?thesis using al alloc_inv(2,3) [OF inv assms(2) al] N(3) by blast
qed

theorem conti_alloc_returns_witness:
  "\<exists>r head a' w'. conti_alloc_memory (demo_ops []) 0x400000 False False
      (demo_pool [0x40000000, 0x40200000]) ([], []) = Some (r, head, a', w') \<and> r = 0x400000"
proof -
  let ?s = "\<lparr>pool = demo_pool [0x40000000, 0x40200000], held = [], world = ([], [])\<rparr>"
  have al: "0x400000 mod granu (pool ?s) = 0" by (simp add: demo_pool_def demo_start_def)
  have n: "unat (0x400000 div granu (pool ?s)) \<le> length (memseg_uncleared (pool ?s))"
    by (simp add: demo_pool_def demo_start_def)
  from conti_alloc_returns [OF demo_reach_pool [of "[]"] al, of False False] n obtain r head a' w' where
    "conti_alloc_memory (demo_ops []) 0x400000 False False (pool ?s) (world ?s) = Some (r, head, a', w')"
    "r = 0x400000" by auto
  then show ?thesis by (intro exI [of _ r] exI [of _ head] exI [of _ a'] exI [of _ w']) simp
qed



text \<open>C25: tear-down returns every pooled segment to the source, poisoned ones included, each exactly
  once, when no segment is in the clearing slot.\<close>

theorem conti_deinit_frees_all:
  assumes "conti_reachable ops w0 s" "seg_source_ok ops U src" "pool_free_memseg ops \<noteq> None"
    "memseg_clearing (pool s) = None"
  shows "\<exists>fl a'. conti_mem_allocator_deinit (Some ops) (pool s) (world s)
        = (a', free_all ops (pool s\<lparr>initialized := False, pool_work := False, clear_work := False,
                                    alloc_name := None\<rparr>) fl (world s))
      \<and> mset fl = mset (pool_segs (pool s)) \<and> distinct (map addr fl)
      \<and> \<not> initialized a' \<and> \<not> pool_work a' \<and> \<not> clear_work a' \<and> \<not> sysfs_initialized a'"
proof -
  let ?fl = "memseg_poisoned (pool s) @ memseg_ready (pool s) @ memseg_uncleared (pool s)"
  have m: "mset ?fl = mset (pool_segs (pool s))"
    using assms(4) by (simp add: pool_segs_def ac_simps)
  have "distinct (map addr (pool_segs (pool s)))"
    using owner_inv_distinct(1) [OF reachable_owner_inv [OF assms(2,1)]] by simp
  then have "distinct (map addr ?fl)" using m by (metis mset_eq_imp_distinct_iff mset_map)
  then show ?thesis using assms(3) m
    by (intro exI [of _ ?fl]) (auto simp: conti_mem_allocator_deinit_def Let_def)
qed

theorem conti_deinit_frees_all_witness:
  "snd (conti_mem_allocator_deinit (Some (demo_ops [])) (demo_pool [0x40000000, 0x40200000]) ([], []))
     = ([0x40200000, 0x40000000], [])"
proof -
  let ?s = "\<lparr>pool = demo_pool [0x40000000, 0x40200000], held = [], world = ([], [])\<rparr>"
  have "pool_free_memseg (demo_ops []) \<noteq> None" "memseg_clearing (pool ?s) = None"
    by (simp_all add: demo_ops_def demo_pool_def demo_start_def zeroed_allocator_def)
  from conti_deinit_frees_all [OF demo_reach_pool demo_source_ok this]
  have "\<not> initialized (fst (conti_mem_allocator_deinit (Some (demo_ops [])) (pool ?s) (world ?s)))"
    by auto
  then show ?thesis
    by (simp add: conti_mem_allocator_deinit_def demo_pool_def demo_start_def zeroed_allocator_def
        demo_ops_def free_all_def conti_pool_free_memseg_def demo_seg_def Let_def)
qed

text \<open>Initialisation either succeeds with an empty, balanced pool of page-aligned granularity
  and its pool thread running, or fails with an error code and leaves no thread, no name and no
  segment behind.\<close>

lemma conti_init_all_or_nothing:
  assumes "conti_mem_allocator_init cfg env (Some al) n g (Some ops) parent = (ret, Some a)"
    "\<not> initialized al"
  shows "if ret = 0
     then initialized a \<and> conti_inv a 0 \<and> pool_segs a = [] \<and> pool_work a \<and> granu a = g
       \<and> IS_ALIGNED g (PAGE_SIZE cfg) \<and> clear_work a = (clear_memseg ops \<noteq> None)
     else a = al \<or> \<not> initialized a \<and> \<not> pool_work a \<and> \<not> clear_work a \<and> alloc_name a = None
       \<and> pool_segs a = []"
proof -
  define al_ok where "al_ok = IS_ALIGNED g (PAGE_SIZE cfg)"
  show ?thesis
  using assms(1) unfolding conti_mem_allocator_init_def al_ok_def [symmetric]
  by (cases "env_name env"; cases "clear_memseg ops")
     (simp_all add: conti_inv_def pool_segs_def zeroed_allocator_def
      clear_thread_init_def pool_thread_init_def Let_def split: if_splits, auto)
qed

end
