(* ===== verification/Obmm_Cache.thy ===== *)
theory Obmm_Cache
  imports Obmm_Types
begin

text \<open>
  Cache maintenance (\<^verbatim>\<open>drivers/ub/obmm/obmm_cache.c\<close> and \<^verbatim>\<open>.h\<close>): the flush of a physical range in chunks
  of at most 1G with a retry while the flushing hardware is busy, and the wait for the write queue
  of the bus to drain.  The hardware is a parameter, the function \<open>hisi_soc_cache_maintain\<close> on an
  abstract world; a run that never returns is the value \<open>None\<close>.
\<close>

section \<open>Flushing a physical range\<close>

datatype hisi_soc_cache_maint_type =
    HISI_CACHE_MAINT_CLEANSHARED
  | HISI_CACHE_MAINT_CLEANINVALID
  | HISI_CACHE_MAINT_MAKEINVALID
  | HISI_CACHE_MAINT_MAX

record 'w cache_env =
  skip_cache_maintain :: bool
  hisi_soc_cache_maintain :: "u64 \<Rightarrow> u64 \<Rightarrow> hisi_soc_cache_maint_type \<Rightarrow> 'w \<Rightarrow> int \<times> 'w"

definition obmm_is_valid_cache_ops :: "u64 \<Rightarrow> bool" where
  "obmm_is_valid_cache_ops cache_ops \<longleftrightarrow>
     cache_ops = OBMM_SHM_CACHE_NONE \<or> cache_ops = OBMM_SHM_CACHE_INVAL
   \<or> cache_ops = OBMM_SHM_CACHE_WB_ONLY \<or> cache_ops = OBMM_SHM_CACHE_WB_INVAL"

text \<open>The table \<open>hisi_maint_type\<close>.  The source reads it before it validates the index; what lies
  beyond its four entries is never used, because an invalid index is refused afterwards.\<close>

definition hisi_maint_type :: "u64 \<Rightarrow> hisi_soc_cache_maint_type" where
  "hisi_maint_type cache_ops =
     (if cache_ops = OBMM_SHM_CACHE_INVAL then HISI_CACHE_MAINT_MAKEINVALID
      else if cache_ops = OBMM_SHM_CACHE_WB_INVAL then HISI_CACHE_MAINT_CLEANINVALID
      else if cache_ops = OBMM_SHM_CACHE_WB_ONLY then HISI_CACHE_MAINT_CLEANSHARED
      else HISI_CACHE_MAINT_MAX)"

abbreviation (input) MAX_FLUSH_SIZE :: u64 where "MAX_FLUSH_SIZE \<equiv> 0x40000000"

text \<open>The retry loop around one hardware request.\<close>

partial_function (option) maintain_retry :: "'w cache_env \<Rightarrow> u64 \<Rightarrow> u64 \<Rightarrow> hisi_soc_cache_maint_type \<Rightarrow> 'w
    \<Rightarrow> (int \<times> 'w) option" where
  "maintain_retry env x sz ty w =
     (case hisi_soc_cache_maintain env x sz ty w of
        (ret, w1) \<Rightarrow> if ret \<noteq> - EBUSY then Some (ret, w1) else maintain_retry env x sz ty w1)"

text \<open>The loop over the chunks: return value of the last request and the world.\<close>

function flush_chunks :: "'w cache_env \<Rightarrow> hisi_soc_cache_maint_type \<Rightarrow> u64 \<Rightarrow> u64 \<Rightarrow> int \<Rightarrow> 'w
    \<Rightarrow> (int \<times> 'w) option" where
  "flush_chunks env ty curr_addr remain_size ret w =
     (if remain_size = 0 then Some (ret, w)
      else let flush_size = (if remain_size \<le> MAX_FLUSH_SIZE then remain_size else MAX_FLUSH_SIZE)
           in case maintain_retry env curr_addr flush_size ty w of
                None \<Rightarrow> None
              | Some (ret1, w1) \<Rightarrow>
                  if ret1 \<noteq> 0 then Some (ret1, w1)
                  else flush_chunks env ty (curr_addr + flush_size) (remain_size - flush_size) ret1 w1)"
  by pat_completeness auto

termination
  by (relation "measure (\<lambda>(env, ty, x, r, ret, w). unat r)") (auto simp: unat_sub word_le_nat_alt unat_gt_0)

definition flush_cache_by_pa :: "'w cache_env \<Rightarrow> u64 \<Rightarrow> u64 \<Rightarrow> u64 \<Rightarrow> 'w \<Rightarrow> (int \<times> 'w) option" where
  "flush_cache_by_pa env x sz cache_ops w =
     (if skip_cache_maintain env then Some (0, w)
      else if \<not> obmm_is_valid_cache_ops cache_ops then Some (- EINVAL, w)
      else flush_chunks env (hisi_maint_type cache_ops) x sz 0 w)"

section \<open>Draining the write queue\<close>

text \<open>\<open>drained i\<close> and \<open>expired i\<close> are what the \<open>i\<close>-th reads of the drain state and of the clock say.\<close>

partial_function (option) drain_poll :: "(nat \<Rightarrow> bool) \<Rightarrow> (nat \<Rightarrow> bool) \<Rightarrow> nat \<Rightarrow> int option" where
  "drain_poll drained expired i =
     (if drained i then Some 0
      else if expired i then Some (- ETIMEDOUT)
      else drain_poll drained expired (Suc i))"

definition ub_write_queue_flush :: "(u32 \<Rightarrow> nat \<Rightarrow> bool) \<Rightarrow> (nat \<Rightarrow> bool) \<Rightarrow> u32 \<Rightarrow> int option" where
  "ub_write_queue_flush drain_state expired scna = drain_poll (drain_state scna) expired 0"

section \<open>What the hardware promises\<close>

text \<open>\<open>F w\<close> is the set of addresses, with the kind of maintenance, that have been treated so far.  A
  request of at most 1G that returns 0 has treated its whole range, and no request undoes another.\<close>

definition range_of :: "u64 \<Rightarrow> u64 \<Rightarrow> nat set" where
  "range_of x sz = {k. unat x \<le> k \<and> k < unat x + unat sz}"

definition maintain_ok :: "'w cache_env \<Rightarrow> ('w \<Rightarrow> (nat \<times> hisi_soc_cache_maint_type) set) \<Rightarrow> bool" where
  "maintain_ok env F \<longleftrightarrow>
     (\<forall>x sz ty w ret w'. hisi_soc_cache_maintain env x sz ty w = (ret, w') \<longrightarrow> 0 < sz \<longrightarrow> sz \<le> MAX_FLUSH_SIZE
        \<longrightarrow> F w \<subseteq> F w' \<and> (ret = 0 \<longrightarrow> range_of x sz \<times> {ty} \<subseteq> F w'))"

text \<open>The hardware is not busy for ever.\<close>

definition not_busy_forever :: "'w cache_env \<Rightarrow> bool" where
  "not_busy_forever env \<longleftrightarrow>
     (\<forall>x sz ty w. \<exists>n. fst (hisi_soc_cache_maintain env x sz ty
        (((\<lambda>w. snd (hisi_soc_cache_maintain env x sz ty w)) ^^ n) w)) \<noteq> - EBUSY)"

text \<open>Hardware that answers busy once in a while: the world counts the calls and records what was
  treated.\<close>

definition demo_cache_env :: "(nat \<times> (u64 \<times> u64 \<times> hisi_soc_cache_maint_type) list) cache_env" where
  "demo_cache_env = \<lparr>skip_cache_maintain = False,
     hisi_soc_cache_maintain = (\<lambda>x sz ty (n, l). if n mod 2 = 0 then (- EBUSY, (Suc n, l))
        else (0, (Suc n, (x, sz, ty) # l)))\<rparr>"

section \<open>Facts on the loops\<close>

declare flush_chunks.simps [simp del]

lemma maintain_retry_total:
  assumes "not_busy_forever env"
  shows "\<exists>ret w'. maintain_retry env x sz ty w = Some (ret, w')"
proof -
  let ?f = "\<lambda>w. snd (hisi_soc_cache_maintain env x sz ty w)"
  obtain n where "fst (hisi_soc_cache_maintain env x sz ty ((?f ^^ n) w)) \<noteq> - EBUSY"
    using assms unfolding not_busy_forever_def by blast
  then show ?thesis
  proof (induction n arbitrary: w)
    case 0
    then show ?case by (subst maintain_retry.simps) (simp add: case_prod_beta)
  next
    case (Suc n)
    have "fst (hisi_soc_cache_maintain env x sz ty ((?f ^^ n) (?f w))) \<noteq> - EBUSY"
      using Suc.prems unfolding funpow_Suc_right comp_apply .
    from Suc.IH [OF this] show ?case by (subst maintain_retry.simps) (auto simp: case_prod_beta)
  qed
qed

lemma maintain_okD:
  assumes "maintain_ok env F" "hisi_soc_cache_maintain env x sz ty w = (ret, w')" "0 < sz" "sz \<le> MAX_FLUSH_SIZE"
  shows "F w \<subseteq> F w'" "ret = 0 \<Longrightarrow> range_of x sz \<times> {ty} \<subseteq> F w'"
  using assms unfolding maintain_ok_def by blast+

lemma maintain_retry_induct [consumes 1, case_names answer busy]:
  assumes "maintain_retry env x sz ty w = Some r"
    and answer: "\<And>w ret w1. hisi_soc_cache_maintain env x sz ty w = (ret, w1) \<Longrightarrow> ret \<noteq> - EBUSY \<Longrightarrow> P w (ret, w1)"
    and busy: "\<And>w w1 r. hisi_soc_cache_maintain env x sz ty w = (- EBUSY, w1) \<Longrightarrow> P w1 r \<Longrightarrow> P w r"
  shows "P w r"
proof -
  have "env' = env \<Longrightarrow> x' = x \<Longrightarrow> sz' = sz \<Longrightarrow> ty' = ty \<Longrightarrow> P w r"
    if "maintain_retry env' x' sz' ty' w = Some r" for env' x' sz' ty' w r
  proof (rule maintain_retry.raw_induct [of "\<lambda>env' x' sz' ty' w r. env' = env \<longrightarrow> x' = x \<longrightarrow> sz' = sz \<longrightarrow> ty' = ty \<longrightarrow> P w r"
        "((((env', x'), sz'), ty'), w)" r, unfolded prod.case, rule_format])
    fix f env' x' sz' ty' w r
    assume ih: "\<And>env' x' sz' ty' w r. f env' x' sz' ty' w = Some r \<Longrightarrow>
        env' = env \<Longrightarrow> x' = x \<Longrightarrow> sz' = sz \<Longrightarrow> ty' = ty \<Longrightarrow> P w r"
      and eq: "(case hisi_soc_cache_maintain env' x' sz' ty' w of
          (ret, w1) \<Rightarrow> if ret \<noteq> - EBUSY then Some (ret, w1) else f env' x' sz' ty' w1) = Some r"
      and same: "env' = env" "x' = x" "sz' = sz" "ty' = ty"
    obtain ret w1 where m: "hisi_soc_cache_maintain env x sz ty w = (ret, w1)" by fastforce
    show "P w r"
      using answer [OF m] busy [of w w1 r] ih [of env x sz ty w1 r] eq m unfolding same
      by (cases "ret = - EBUSY") auto
  qed (use that in auto)
  then show ?thesis using assms(1) by blast
qed

lemma maintain_retry_ok:
  assumes "maintain_retry env x sz ty w = Some r" "maintain_ok env F" "0 < sz" "sz \<le> MAX_FLUSH_SIZE"
  shows "F w \<subseteq> F (snd r) \<and> (fst r = 0 \<longrightarrow> range_of x sz \<times> {ty} \<subseteq> F (snd r))"
  using assms(1)
proof (induction rule: maintain_retry_induct)
  case (answer w ret w1)
  then show ?case using maintain_okD [OF assms(2) answer(1) assms(3,4)] by simp
next
  case (busy w w1 r)
  then show ?case using maintain_okD(1) [OF assms(2) busy(1) assms(3,4)] by blast
qed

lemma range_of_split:
  assumes "f \<le> r" "unat x + unat r \<le> 2 ^ 64" "f < r"
  shows "range_of x r = range_of x f \<union> range_of (x + f) (r - f)"
proof -
  have f: "unat f < unat r" using assms(3) by (simp add: word_less_nat_alt)
  have "unat (x + f) = unat x + unat f" using f assms(2) by (intro u64_unat_add) linarith
  moreover have "unat (r - f) = unat r - unat f" using assms(1) by (rule unat_sub)
  ultimately show ?thesis using f unfolding range_of_def by auto
qed

lemma flush_chunks_ok:
  assumes "maintain_ok env F"
  shows "flush_chunks env ty x r ret w = Some (0, w') \<Longrightarrow> unat x + unat r \<le> 2 ^ 64 \<Longrightarrow> ret = 0
    \<Longrightarrow> F w \<subseteq> F w' \<and> range_of x r \<times> {ty} \<subseteq> F w'"
  using assms
proof (induction env ty x r ret w rule: flush_chunks.induct)
  case (1 env ty x r ret w)
  show ?case
  proof (cases "r = 0")
    case True
    then show ?thesis using "1.prems" by (auto simp: range_of_def flush_chunks.simps)
  next
    case False
    define f where "f = (if r \<le> MAX_FLUSH_SIZE then r else MAX_FLUSH_SIZE)"
    have f: "0 < f" "f \<le> MAX_FLUSH_SIZE" "f \<le> r" using False by (auto simp: f_def word_gt_0)
    obtain ret1 w1 where m: "maintain_retry env x f ty w = Some (ret1, w1)"
      using "1.prems"(1) False unfolding flush_chunks.simps [of env ty x r] Let_def f_def [symmetric]
      by (auto split: option.splits)
    have z: "ret1 = 0" and rec: "flush_chunks env ty (x + f) (r - f) 0 w1 = Some (0, w')"
      using "1.prems"(1) False m unfolding flush_chunks.simps [of env ty x r] Let_def f_def [symmetric]
      by (auto split: if_splits)
    note ok = maintain_retry_ok [OF m "1.prems"(4) f(1,2)]
    show ?thesis
    proof (cases "f = r")
      case True
      then show ?thesis using ok z rec by (simp add: flush_chunks.simps)
    next
      case F: False
      then have lt: "f < r" using f(3) by simp
      have u: "unat f < unat r" using lt by (simp add: word_less_nat_alt)
      have "unat (x + f) = unat x + unat f" using u "1.prems"(2) by (intro u64_unat_add) linarith
      then have b: "unat (x + f) + unat (r - f) \<le> 2 ^ 64"
        using unat_sub [OF f(3)] u "1.prems"(2) by linarith
      have ih: "F w1 \<subseteq> F w' \<and> range_of (x + f) (r - f) \<times> {ty} \<subseteq> F w'"
        by (rule "1.IH" [OF False f_def m refl]) (use z rec b "1.prems"(4) in auto)
      then show ?thesis
        using ok z range_of_split [OF f(3) "1.prems"(2) lt] by auto
    qed
  qed
qed

lemma flush_chunks_total:
  assumes "not_busy_forever env"
  shows "\<exists>ret' w'. flush_chunks env ty x r ret w = Some (ret', w')"
  using assms
proof (induction env ty x r ret w rule: flush_chunks.induct)
  case (1 env ty x r ret w)
  define f where "f = (if r \<le> MAX_FLUSH_SIZE then r else MAX_FLUSH_SIZE)"
  obtain ret1 w1 where m: "maintain_retry env x f ty w = Some (ret1, w1)"
    using maintain_retry_total [OF "1.prems"] by blast
  have "\<exists>ret' w'. flush_chunks env ty (x + f) (r - f) ret1 w1 = Some (ret', w')" if "r \<noteq> 0" "ret1 = 0"
    by (rule "1.IH" [OF that(1) f_def m refl]) (use that "1.prems" in auto)
  then show ?case
    unfolding flush_chunks.simps [of env ty x r] Let_def f_def [symmetric] by (auto simp: m)
qed

section \<open>Properties\<close>



lemma drain_poll_eq:
  assumes "drained k \<or> expired k" "\<And>i. j \<le> i \<Longrightarrow> i < k \<Longrightarrow> \<not> drained i \<and> \<not> expired i" "j \<le> k"
  shows "drain_poll drained expired j = Some (if drained k then 0 else - ETIMEDOUT)"
  using assms
proof (induction "k - j" arbitrary: j)
  case 0
  then have j: "j = k" by simp
  show ?case unfolding j using "0.prems"(1) by (subst drain_poll.simps) auto
next
  case (Suc d)
  then have lt: "j < k" by simp
  have "\<not> drained j \<and> \<not> expired j" using Suc.prems(2) [of j] lt by simp
  moreover have "drain_poll drained expired (Suc j) = Some (if drained k then 0 else - ETIMEDOUT)"
    by (rule Suc.hyps(1)) (use Suc.hyps(2) Suc.prems(1,3) lt in simp_all, use Suc.prems(2) in simp)
  ultimately show ?case by (subst drain_poll.simps) simp
qed



end
