(* ===== verification/Numa_Nodes.thy ===== *)
theory Numa_Nodes
  imports Obmm_Types
begin

text \<open>
  The local NUMA nodes (the helpers at the end of \<^verbatim>\<open>drivers/ub/obmm/obmm_core.h\<close>): a node is local when it
  is online and not the image of another host's memory.  The masks of online and of remote nodes
  belong to the kernel and are parameters.
\<close>

section \<open>Walking over the local nodes\<close>

record numa_env =
  max_numnodes :: nat
  node_online :: "nat \<Rightarrow> bool"
  numa_is_remote_node :: "nat \<Rightarrow> bool"

definition is_online_local_node :: "numa_env \<Rightarrow> int \<Rightarrow> bool" where
  "is_online_local_node env node \<longleftrightarrow>
     0 \<le> node \<and> node < int (max_numnodes env) \<and> node_online env (nat node) \<and> \<not> numa_is_remote_node env (nat node)"

text \<open>\<open>next_node\<close> and \<open>first_node\<close> of the kernel: the next bit set in the mask of online nodes.\<close>

definition next_node :: "numa_env \<Rightarrow> nat \<Rightarrow> nat" where
  "next_node env node =
     (case filter (node_online env) [Suc node..<max_numnodes env] of [] \<Rightarrow> max_numnodes env | n # _ \<Rightarrow> n)"

definition first_node :: "numa_env \<Rightarrow> nat" where
  "first_node env = (case filter (node_online env) [0..<max_numnodes env] of [] \<Rightarrow> max_numnodes env | n # _ \<Rightarrow> n)"

lemma next_node_gt: "node < max_numnodes env \<Longrightarrow> node < next_node env node"
proof (cases "filter (node_online env) [Suc node..<max_numnodes env]")
  case (Cons n ns)
  then have "n \<in> set (filter (node_online env) [Suc node..<max_numnodes env])" by simp
  then have "Suc node \<le> n" by simp
  then show ?thesis using Cons by (simp add: next_node_def)
qed (simp add: next_node_def)

text \<open>The loops that skip remote nodes.\<close>

function skip_remote :: "numa_env \<Rightarrow> nat \<Rightarrow> nat" where
  "skip_remote env node =
     (if node < max_numnodes env \<and> numa_is_remote_node env node then skip_remote env (next_node env node)
      else node)"
  by pat_completeness auto
termination
  by (relation "measure (\<lambda>(env, node). max_numnodes env - node)")
     (auto intro!: diff_less_mono2 next_node_gt)

declare skip_remote.simps [simp del]

definition next_online_local_node :: "numa_env \<Rightarrow> nat \<Rightarrow> nat" where
  "next_online_local_node env node = skip_remote env (next_node env node)"

definition first_online_local_node :: "numa_env \<Rightarrow> nat" where
  "first_online_local_node env = skip_remote env (first_node env)"

lemma skip_remote_ge: "node \<le> skip_remote env node"
proof (induction env node rule: skip_remote.induct)
  case (1 env node)
  show ?case
  proof (cases "node < max_numnodes env \<and> numa_is_remote_node env node")
    case True
    then have "node < next_node env node" by (simp add: next_node_gt)
    also have "\<dots> \<le> skip_remote env (next_node env node)" using 1 True by blast
    finally show ?thesis using True by (subst skip_remote.simps) simp
  qed (subst skip_remote.simps, auto)
qed

text \<open>The nodes that \<open>for_each_online_local_node\<close> visits from a node on.\<close>

function nodes_from :: "numa_env \<Rightarrow> nat \<Rightarrow> nat list" where
  "nodes_from env node =
     (if node < max_numnodes env then node # nodes_from env (next_online_local_node env node) else [])"
  by pat_completeness auto
termination
proof (relation "measure (\<lambda>(env, node). max_numnodes env - node)")
  fix env :: numa_env and node
  assume "node < max_numnodes env"
  moreover from this have "node < next_online_local_node env node"
    using less_le_trans [OF next_node_gt skip_remote_ge] by (simp add: next_online_local_node_def)
  ultimately show "((env, next_online_local_node env node), env, node)
      \<in> measure (\<lambda>(env, node). max_numnodes env - node)" by simp
qed simp

declare nodes_from.simps [simp del]

definition online_local_nodes :: "numa_env \<Rightarrow> nat list" where
  "online_local_nodes env = nodes_from env (first_online_local_node env)"

section \<open>The walk visits exactly the local nodes, in order\<close>

definition local_from :: "numa_env \<Rightarrow> nat \<Rightarrow> nat list" where
  "local_from env k = filter (\<lambda>n. node_online env n \<and> \<not> numa_is_remote_node env n) [k..<max_numnodes env]"

lemma filter_upt_first:
  "(case filter P [k..<m] of [] \<Rightarrow> m | n # _ \<Rightarrow> n) = n \<Longrightarrow>
     n = m \<and> filter P [k..<m] = [] \<or> k \<le> n \<and> n < m \<and> P n \<and> filter P [k..<m] = n # filter P [Suc n..<m]"
proof (induction "m - k" arbitrary: k)
  case 0
  then show ?case by simp
next
  case (Suc d)
  then have "[k..<m] = k # [Suc k..<m]" by (simp add: upt_conv_Cons)
  then show ?case using Suc.hyps(1) [of "Suc k"] Suc.hyps(2) Suc.prems by (auto split: if_splits)
qed

lemma local_from_eq_filter:
  "local_from env k = filter (\<lambda>n. \<not> numa_is_remote_node env n) (filter (node_online env) [k..<max_numnodes env])"
  by (simp add: local_from_def conj_commute)

lemma local_from_skip:
  assumes "n = max_numnodes env \<and> filter (node_online env) [k..<max_numnodes env] = []
     \<or> k \<le> n \<and> n < max_numnodes env \<and> node_online env n \<and>
       filter (node_online env) [k..<max_numnodes env] = n # filter (node_online env) [Suc n..<max_numnodes env]"
  shows "local_from env k = local_from env n"
  using assms unfolding local_from_eq_filter
  by (elim disjE conjE) (simp_all add: upt_conv_Cons [of n] del: filter_filter)

lemma next_node_cases:
  "next_node env node = max_numnodes env \<and> filter (node_online env) [Suc node..<max_numnodes env] = []
   \<or> Suc node \<le> next_node env node \<and> next_node env node < max_numnodes env \<and> node_online env (next_node env node) \<and>
     filter (node_online env) [Suc node..<max_numnodes env]
       = next_node env node # filter (node_online env) [Suc (next_node env node)..<max_numnodes env]"
  by (rule filter_upt_first) (simp add: next_node_def)

lemma local_from_Suc: "local_from env (Suc node) = local_from env (next_node env node)"
  by (rule local_from_skip) (rule next_node_cases)

lemma local_from_end: "local_from env (max_numnodes env) = []"
  by (simp add: local_from_def)

lemma local_from_here:
  "n < max_numnodes env \<Longrightarrow> node_online env n \<and> \<not> numa_is_remote_node env n
    \<Longrightarrow> local_from env n = n # local_from env (Suc n)"
  by (simp add: local_from_def upt_conv_Cons [of n])

lemma skip_remote_local:
  "node = max_numnodes env \<or> node < max_numnodes env \<and> node_online env node \<Longrightarrow>
     skip_remote env node = max_numnodes env \<and> local_from env node = []
   \<or> skip_remote env node < max_numnodes env
     \<and> node_online env (skip_remote env node) \<and> \<not> numa_is_remote_node env (skip_remote env node)
     \<and> local_from env node = local_from env (skip_remote env node)"
proof (induction env node rule: skip_remote.induct)
  case (1 env node)
  show ?case
  proof (cases "node < max_numnodes env \<and> numa_is_remote_node env node")
    case True
    have "local_from env node = local_from env (next_node env node)"
      using True by (simp add: local_from_def upt_conv_Cons [of node] local_from_Suc [unfolded local_from_def])
    moreover have "next_node env node = max_numnodes env
        \<or> next_node env node < max_numnodes env \<and> node_online env (next_node env node)"
      using next_node_cases [of env node] by blast
    ultimately show ?thesis using "1.IH" [OF True] True unfolding skip_remote.simps [of env node] by simp
  next
    case False
    then show ?thesis using "1.prems" unfolding skip_remote.simps [of env node]
      by (auto simp: local_from_def)
  qed
qed

lemma nodes_from_local:
  assumes "node = max_numnodes env \<or> node < max_numnodes env \<and> node_online env node \<and> \<not> numa_is_remote_node env node"
  shows "nodes_from env node = local_from env node"
  using assms
proof (induction env node rule: nodes_from.induct)
  case (1 env node)
  show ?case
  proof (cases "node < max_numnodes env")
    case False
    then show ?thesis by (simp add: nodes_from.simps [of env node] local_from_def)
  next
    case True
    let ?n = "next_node env node" and ?l = "next_online_local_node env node"
    have s: "?l = max_numnodes env \<and> local_from env ?n = []
        \<or> ?l < max_numnodes env \<and> node_online env ?l \<and> \<not> numa_is_remote_node env ?l \<and> local_from env ?n = local_from env ?l"
      unfolding next_online_local_node_def
      by (rule skip_remote_local) (use next_node_cases [of env node] in blast)
    then have "nodes_from env ?l = local_from env ?l" using "1.IH" [OF True] by blast
    moreover have "local_from env ?l = local_from env (Suc node)"
      using s unfolding local_from_Suc by (elim disjE) (simp_all add: local_from_end)
    ultimately show ?thesis
      using True "1.prems" local_from_here [of node env] by (simp add: nodes_from.simps [of env node])
  qed
qed

section \<open>Properties\<close>

text \<open>C30: the loop \<open>for_each_online_local_node\<close> ends and visits every online local node exactly once, in
  increasing order, and no other node.\<close>

theorem online_local_nodes_eq:
  "online_local_nodes env = filter (\<lambda>n. is_online_local_node env (int n)) [0..<max_numnodes env]"
proof -
  let ?f = "first_node env" and ?l = "first_online_local_node env"
  have f: "?f = max_numnodes env \<and> filter (node_online env) [0..<max_numnodes env] = []
      \<or> 0 \<le> ?f \<and> ?f < max_numnodes env \<and> node_online env ?f \<and>
        filter (node_online env) [0..<max_numnodes env] = ?f # filter (node_online env) [Suc ?f..<max_numnodes env]"
    by (rule filter_upt_first) (simp add: first_node_def)
  have s: "?l = max_numnodes env \<and> local_from env ?f = []
      \<or> ?l < max_numnodes env \<and> node_online env ?l \<and> \<not> numa_is_remote_node env ?l \<and> local_from env ?f = local_from env ?l"
    unfolding first_online_local_node_def by (rule skip_remote_local) (use f in blast)
  then have "online_local_nodes env = local_from env ?l"
    unfolding online_local_nodes_def by (intro nodes_from_local) blast
  also have "\<dots> = local_from env ?f" using s by (elim disjE) (simp_all add: local_from_end)
  also have "\<dots> = local_from env 0" by (rule local_from_skip [OF f, symmetric])
  also have "\<dots> = filter (\<lambda>n. is_online_local_node env (int n)) [0..<max_numnodes env]"
    unfolding local_from_def by (rule filter_cong) (auto simp: is_online_local_node_def)
  finally show ?thesis .
qed

end
