(* ===== verification/Ubmempool_Allocator.thy ===== *)
theory Ubmempool_Allocator
  imports Conti_System Obmm_Cache Numa_Nodes
begin

text \<open>
  The memory pool of OBMM (\<^verbatim>\<open>drivers/ub/obmm/ubmempool_allocator.c\<close>): one contiguous allocator per local
  NUMA node, with callbacks that take segments from the hugetlb pool or from the buddy allocator,
  decide when the pool grows and shrinks, and clear segments.  The page allocators, the kernel page
  table and the cache hardware are parameters in \<open>kmem_env\<close>, functions on an abstract kernel state
  \<open>'k\<close>.  The loops over the nodes are written over the operations of one pool, so that their
  correctness is proved once, in the locale \<open>seg_pool\<close>, from the contract of those operations; the
  contiguous allocator is shown to meet it.
\<close>

section \<open>Kernel services and state\<close>

record folio =
  folio_pfn :: u64
  folio_size :: u64

record 'k kmem_env =
  kzalloc_ok :: "'k \<Rightarrow> bool"
  hugetlb_pool_alloc_size :: "int \<Rightarrow> u64 \<Rightarrow> 'k \<Rightarrow> folio option \<times> 'k"
  hugetlb_pool_free :: "u64 \<Rightarrow> 'k \<Rightarrow> int \<times> 'k"
  pfn_range_alloc :: "u64 \<Rightarrow> int \<Rightarrow> 'k \<Rightarrow> folio option \<times> 'k"
  pfn_range_free :: "u64 \<Rightarrow> 'k \<Rightarrow> int \<times> 'k"
  set_linear_mapping_invalid :: "u64 \<Rightarrow> u64 \<Rightarrow> bool \<Rightarrow> 'k \<Rightarrow> int \<times> 'k"
  ioremap_cache_ok :: "u64 \<Rightarrow> u64 \<Rightarrow> 'k \<Rightarrow> bool"
  memset_zero :: "u64 \<Rightarrow> u64 \<Rightarrow> 'k \<Rightarrow> 'k"
  cache_hw :: "'k cache_env"
  numa :: numa_env

text \<open>The part of \<open>struct mem_allocator\<close> that the callbacks reach from an allocator, by node, and the
  kernel state.  \<open>refill_timer\<close> says whether the timer is armed.\<close>

record 'k mp_world =
  pool_size :: "u64 list"
  can_expand :: "bool list"
  refill_timer :: "bool list"
  kmem :: 'k

definition refill_timeout :: "nat \<Rightarrow> 'k mp_world \<Rightarrow> 'k mp_world" where
  "refill_timeout nd w = w\<lparr>can_expand := (can_expand w)[nd := True]\<rparr>"

text \<open>\<open>ini\<close> is the flag \<open>initialized\<close> of the node's allocator.\<close>

definition pool_delay_expand :: "'k kmem_env \<Rightarrow> int \<Rightarrow> bool \<Rightarrow> 'k mp_world \<Rightarrow> 'k mp_world" where
  "pool_delay_expand env nd ini w =
     (if is_online_local_node (numa env) nd \<and> ini
      then w\<lparr>can_expand := (can_expand w)[nat nd := False], refill_timer := (refill_timer w)[nat nd := True]\<rparr>
      else w)"

section \<open>Callbacks\<close>

definition clear_block :: "mm_config \<Rightarrow> 'k kmem_env \<Rightarrow> memseg_node \<Rightarrow> 'k \<Rightarrow> (int \<times> 'k) option" where
  "clear_block cfg env p k =
     (let pa = addr p; sz = seg_size p;
          start = drop_bit (PAGE_SHIFT cfg) pa; stop = drop_bit (PAGE_SHIFT cfg) (pa + sz);
          (ret, k1) = set_linear_mapping_invalid env start stop False k
      in if ret < 0 then Some (ret, k1)
         else if \<not> ioremap_cache_ok env pa sz k1
         then Some (- ENOMEM, snd (set_linear_mapping_invalid env start stop True k1))
         else
           let k2 = memset_zero env pa sz k1;
               (ret3, k3) = set_linear_mapping_invalid env start stop True k2
           in if ret3 < 0 then Some (ret3, k3)
              else case flush_cache_by_pa (cache_hw env) pa sz OBMM_SHM_CACHE_WB_INVAL k3 of
                     None \<Rightarrow> None
                   | Some (ret4, k4) \<Rightarrow> Some (ret4, k4))"

definition cma_contract_size :: "conti_mem_allocator \<Rightarrow> 'k mp_world \<Rightarrow> u64" where
  "cma_contract_size a w =
     (let sz = ALIGN (conti_get_avail a - pool_size w ! nat (nid a)) (granu a)
      in if sint sz > 0 then sz else 0)"

definition cma_need_contract :: "conti_mem_allocator \<Rightarrow> 'k mp_world \<Rightarrow> bool" where
  "cma_need_contract a w \<longleftrightarrow> cma_contract_size a w > 0"

definition cma_expand_size :: "conti_mem_allocator \<Rightarrow> 'k mp_world \<Rightarrow> u64" where
  "cma_expand_size a w =
     (let sz = ALIGN_DOWN (pool_size w ! nat (nid a) - conti_get_avail a) (granu a)
      in if sint sz > 0 then sz else 0)"

definition cma_need_expand :: "conti_mem_allocator \<Rightarrow> 'k mp_world \<Rightarrow> bool" where
  "cma_need_expand a w \<longleftrightarrow> can_expand w ! nat (nid a) \<and> cma_expand_size a w > 0"

definition set_memseg_linear_mapping_invalid :: "mm_config \<Rightarrow> 'k kmem_env \<Rightarrow> memseg_node \<Rightarrow> bool \<Rightarrow> 'k
    \<Rightarrow> int \<times> 'k" where
  "set_memseg_linear_mapping_invalid cfg env node set_nc k =
     set_linear_mapping_invalid env (drop_bit (PAGE_SHIFT cfg) (addr node))
       (drop_bit (PAGE_SHIFT cfg) (addr node + seg_size node)) set_nc k"

text \<open>The common body of the three allocation callbacks, over the page allocator that they use: the
  node is allocated first, a failing page allocator delays the next expansion, a folio of the wrong
  size or a failing page table update gives the folio back.\<close>

definition alloc_memseg_with :: "('k \<Rightarrow> folio option \<times> 'k) \<Rightarrow> (u64 \<Rightarrow> 'k \<Rightarrow> int \<times> 'k) \<Rightarrow> mm_config \<Rightarrow> 'k kmem_env
    \<Rightarrow> conti_mem_allocator \<Rightarrow> 'k mp_world \<Rightarrow> memseg_node option \<times> 'k mp_world" where
  "alloc_memseg_with get put cfg env a w =
     (if \<not> kzalloc_ok env (kmem w) then (None, w)
      else case get (kmem w) of
             (None, k1) \<Rightarrow> (None, pool_delay_expand env (nid a) (initialized a) (w\<lparr>kmem := k1\<rparr>))
           | (Some folio, k1) \<Rightarrow>
               let node = \<lparr>addr = push_bit (PAGE_SHIFT cfg) (folio_pfn folio), seg_size = folio_size folio\<rparr>
               in if seg_size node \<noteq> granu a then (None, w\<lparr>kmem := snd (put (folio_pfn folio) k1)\<rparr>)
                  else let (ret, k2) = set_memseg_linear_mapping_invalid cfg env node True k1
                       in if ret \<noteq> 0 then (None, w\<lparr>kmem := snd (put (folio_pfn folio) k2)\<rparr>)
                          else (Some node, w\<lparr>kmem := k2\<rparr>))"

definition free_memseg_with :: "(u64 \<Rightarrow> 'k \<Rightarrow> int \<times> 'k) \<Rightarrow> mm_config \<Rightarrow> 'k kmem_env
    \<Rightarrow> memseg_node \<Rightarrow> 'k mp_world \<Rightarrow> 'k mp_world" where
  "free_memseg_with put cfg env node w =
     (let k1 = snd (set_memseg_linear_mapping_invalid cfg env node False (kmem w))
      in w\<lparr>kmem := snd (put (drop_bit (PAGE_SHIFT cfg) (addr node)) k1)\<rparr>)"

definition hugetlb_pmd_alloc_memseg :: "mm_config \<Rightarrow> 'k kmem_env \<Rightarrow> conti_mem_allocator \<Rightarrow> 'k mp_world
    \<Rightarrow> memseg_node option \<times> 'k mp_world" where
  "hugetlb_pmd_alloc_memseg cfg env a w =
     alloc_memseg_with (hugetlb_pool_alloc_size env (nid a) (PMD_SIZE cfg)) (hugetlb_pool_free env) cfg env a w"

definition hugetlb_pud_alloc_memseg :: "mm_config \<Rightarrow> 'k kmem_env \<Rightarrow> conti_mem_allocator \<Rightarrow> 'k mp_world
    \<Rightarrow> memseg_node option \<times> 'k mp_world" where
  "hugetlb_pud_alloc_memseg cfg env a w =
     alloc_memseg_with (hugetlb_pool_alloc_size env (nid a) (PUD_SIZE cfg)) (hugetlb_pool_free env) cfg env a w"

definition buddy_alloc_memseg :: "mm_config \<Rightarrow> 'k kmem_env \<Rightarrow> conti_mem_allocator \<Rightarrow> 'k mp_world
    \<Rightarrow> memseg_node option \<times> 'k mp_world" where
  "buddy_alloc_memseg cfg env a w =
     alloc_memseg_with (pfn_range_alloc env (drop_bit (PAGE_SHIFT cfg) (granu a)) (nid a)) (pfn_range_free env)
       cfg env a w"

definition hugetlb_free_memseg :: "mm_config \<Rightarrow> 'k kmem_env \<Rightarrow> memseg_node \<Rightarrow> 'k mp_world \<Rightarrow> 'k mp_world" where
  "hugetlb_free_memseg cfg env = free_memseg_with (hugetlb_pool_free env) cfg env"

definition buddy_free_memseg :: "mm_config \<Rightarrow> 'k kmem_env \<Rightarrow> memseg_node \<Rightarrow> 'k mp_world \<Rightarrow> 'k mp_world" where
  "buddy_free_memseg cfg env = free_memseg_with (pfn_range_free env) cfg env"

section \<open>The three kinds of pool\<close>

datatype allocator_id = ALLOCATOR_HUGETLB_PMD | ALLOCATOR_HUGETLB_PUD | ALLOCATOR_BUDDY_HIGHMEM | ALLOCATOR_MAX

text \<open>A clearing that never returns, because the flushing hardware stays busy for ever, shows as the
  busy error here.\<close>

definition clear_block_cb :: "mm_config \<Rightarrow> 'k kmem_env \<Rightarrow> memseg_node \<Rightarrow> 'k mp_world \<Rightarrow> int \<times> 'k mp_world" where
  "clear_block_cb cfg env p w =
     (case clear_block cfg env p (kmem w) of
        None \<Rightarrow> (- EBUSY, w)
      | Some (ret, k) \<Rightarrow> (ret, w\<lparr>kmem := k\<rparr>))"

definition mempool_ops :: "mm_config \<Rightarrow> 'k kmem_env
    \<Rightarrow> (mm_config \<Rightarrow> 'k kmem_env \<Rightarrow> memseg_node \<Rightarrow> 'k mp_world \<Rightarrow> 'k mp_world)
    \<Rightarrow> (mm_config \<Rightarrow> 'k kmem_env \<Rightarrow> conti_mem_allocator \<Rightarrow> 'k mp_world \<Rightarrow> memseg_node option \<times> 'k mp_world)
    \<Rightarrow> 'k mp_world conti_mempool_ops" where
  "mempool_ops cfg env put get =
     \<lparr>clear_memseg = Some (\<lambda>a. clear_block_cb cfg env),
      pool_free_memseg = Some (\<lambda>a. put cfg env),
      pool_alloc_memseg = Some (get cfg env),
      need_contract = Some cma_need_contract, contract_size = Some cma_contract_size,
      need_expand = Some cma_need_expand, expand_size = Some cma_expand_size\<rparr>"

definition hugetlb_pmd_ops :: "mm_config \<Rightarrow> 'k kmem_env \<Rightarrow> 'k mp_world conti_mempool_ops" where
  "hugetlb_pmd_ops cfg env = mempool_ops cfg env hugetlb_free_memseg hugetlb_pmd_alloc_memseg"

definition hugetlb_pud_ops :: "mm_config \<Rightarrow> 'k kmem_env \<Rightarrow> 'k mp_world conti_mempool_ops" where
  "hugetlb_pud_ops cfg env = mempool_ops cfg env hugetlb_free_memseg hugetlb_pud_alloc_memseg"

definition buddy_ops :: "mm_config \<Rightarrow> 'k kmem_env \<Rightarrow> 'k mp_world conti_mempool_ops" where
  "buddy_ops cfg env = mempool_ops cfg env buddy_free_memseg buddy_alloc_memseg"

definition allocator_ops :: "mm_config \<Rightarrow> 'k kmem_env \<Rightarrow> allocator_id \<Rightarrow> 'k mp_world conti_mempool_ops option" where
  "allocator_ops cfg env aid =
     (case aid of ALLOCATOR_HUGETLB_PMD \<Rightarrow> Some (hugetlb_pmd_ops cfg env)
      | ALLOCATOR_HUGETLB_PUD \<Rightarrow> Some (hugetlb_pud_ops cfg env)
      | ALLOCATOR_BUDDY_HIGHMEM \<Rightarrow> Some (buddy_ops cfg env)
      | ALLOCATOR_MAX \<Rightarrow> None)"

definition allocator_names :: "(allocator_id \<times> string) list" where
  "allocator_names = [(ALLOCATOR_HUGETLB_PMD, ''hugetlb_pmd''), (ALLOCATOR_HUGETLB_PUD, ''hugetlb_pud''),
     (ALLOCATOR_BUDDY_HIGHMEM, ''buddy_highmem'')]"

section \<open>Module parameters\<close>

text \<open>The module parameters, the build options they depend on, and the library function that parses
  a size and returns the unread rest.\<close>

record mp_params =
  mempool_size :: "string option"
  mempool_allocator :: string
  mem_allocator_granu :: "string option"
  memparse :: "string \<Rightarrow> u64 \<times> string"
  contig_mem_pool_percent :: int
  arm64_64k_pages :: bool

definition select_mem_allocator :: "mp_params \<Rightarrow> allocator_id" where
  "select_mem_allocator par =
     (case filter (\<lambda>(aid, name). name = mempool_allocator par) allocator_names of
        [] \<Rightarrow> ALLOCATOR_MAX
      | (aid, _) # _ \<Rightarrow>
          if \<not> arm64_64k_pages par \<and> contig_mem_pool_percent par \<noteq> 100 \<and> aid = ALLOCATOR_HUGETLB_PMD
          then ALLOCATOR_MAX else aid)"

definition is_power_of_2 :: "u64 \<Rightarrow> bool" where
  "is_power_of_2 n \<longleftrightarrow> n \<noteq> 0 \<and> n AND (n - 1) = 0"

text \<open>The result is the return code and the new \<open>__obmm_memseg_size\<close>.\<close>

definition init_mem_allocator_granu :: "mm_config \<Rightarrow> mp_params \<Rightarrow> allocator_id \<Rightarrow> int \<times> u64" where
  "init_mem_allocator_granu cfg par aid =
     (case mem_allocator_granu par of
        None \<Rightarrow> (0, if aid = ALLOCATOR_HUGETLB_PUD then PUD_SIZE cfg
                    else if aid = ALLOCATOR_HUGETLB_PMD then PMD_SIZE cfg else OBMM_BASIC_GRANU)
      | Some p \<Rightarrow>
          let (sz, rest) = memparse par p
          in if rest \<noteq> [] then (- EINVAL, sz)
             else if sz < OBMM_BASIC_GRANU \<or> sz mod OBMM_BASIC_GRANU \<noteq> 0 then (- EINVAL, sz)
             else if \<not> is_power_of_2 sz then (- EINVAL, sz)
             else if aid = ALLOCATOR_HUGETLB_PUD \<and> sz \<noteq> PUD_SIZE cfg then (- EINVAL, sz)
             else if aid = ALLOCATOR_HUGETLB_PMD \<and> sz \<noteq> PMD_SIZE cfg then (- EINVAL, sz)
             else (0, sz))"

text \<open>The loop of \<open>print_granu\<close>: the number and the unit that are printed.\<close>

fun print_granu_loop :: "nat \<Rightarrow> u64 \<Rightarrow> nat \<Rightarrow> u64 \<times> nat" where
  "print_granu_loop 0 g i = (g, i)"
| "print_granu_loop (Suc left) g i = (if 1024 \<le> g then print_granu_loop left (drop_bit 10 g) (Suc i) else (g, i))"

definition print_granu :: "u64 \<Rightarrow> u64 \<times> string" where
  "print_granu g = (let (n, i) = print_granu_loop 4 g 0 in (n, ['''', ''K'', ''M'', ''G'', ''T''] ! i))"

section \<open>The pool of all nodes\<close>

record 'k ubmempool =
  allocators :: "conti_mem_allocator list"
  alloc_ops :: "allocator_id option list"
  mpw :: "'k mp_world"
  memseg_size :: u64
  mempool_kobj :: bool
  ghes_registered :: bool

definition ops_at :: "mm_config \<Rightarrow> 'k kmem_env \<Rightarrow> 'k ubmempool \<Rightarrow> nat \<Rightarrow> 'k mp_world conti_mempool_ops" where
  "ops_at cfg env st i =
     (case alloc_ops st ! i of
        Some aid \<Rightarrow> (case allocator_ops cfg env aid of Some ops \<Rightarrow> ops | None \<Rightarrow> buddy_ops cfg env)
      | None \<Rightarrow> buddy_ops cfg env)"

text \<open>The loop of \<open>free_memory_contiguous\<close> from node \<open>i\<close> on.\<close>

fun free_nodes :: "(nat \<Rightarrow> 'n list \<Rightarrow> 'a \<Rightarrow> 'w \<Rightarrow> 'a \<times> 'w) \<Rightarrow> nat \<Rightarrow> 'n list list \<Rightarrow> 'a list \<Rightarrow> 'w \<Rightarrow> 'a list \<times> 'w" where
  "free_nodes free i [] as w = (as, w)"
| "free_nodes free i (h # hs) as w =
     (if h = [] then free_nodes free (Suc i) hs as w
      else let (a, w1) = free i h (as ! i) w
           in free_nodes free (Suc i) hs (as[i := a]) w1)"

text \<open>The loop of \<open>allocate_memory_contiguous\<close> from node \<open>i\<close> on: the return code, the allocators, the
  lists of segments and the world at its end.\<close>

fun alloc_nodes :: "('a \<Rightarrow> bool) \<Rightarrow> ('a \<Rightarrow> u64) \<Rightarrow> (nat \<Rightarrow> u64 \<Rightarrow> 'a \<Rightarrow> 'w \<Rightarrow> (u64 \<times> 'n list \<times> 'a \<times> 'w) option)
    \<Rightarrow> nat \<Rightarrow> u64 list \<Rightarrow> 'a list \<Rightarrow> 'n list list \<Rightarrow> 'w \<Rightarrow> (int \<times> 'a list \<times> 'n list list \<times> 'w) option" where
  "alloc_nodes ini unit alloc i [] as hs w = Some (0, as, hs, w)"
| "alloc_nodes ini unit alloc i (sz # szs) as hs w =
     (if sz = 0 then alloc_nodes ini unit alloc (Suc i) szs as hs w
      else if \<not> ini (as ! i) then Some (- ENODEV, as, hs, w)
      else if sz mod unit (as ! i) \<noteq> 0 then Some (- EINVAL, as, hs, w)
      else case alloc i sz (as ! i) w of
             None \<Rightarrow> None
           | Some (allocated, head, a, w1) \<Rightarrow>
               if allocated < sz then Some (- ENOMEM, as[i := a], hs[i := head], w1)
               else alloc_nodes ini unit alloc (Suc i) szs (as[i := a]) (hs[i := head]) w1)"

definition free_memory_contiguous :: "mm_config \<Rightarrow> 'k kmem_env \<Rightarrow> memseg_node list list \<Rightarrow> 'k ubmempool
    \<Rightarrow> memseg_node list list \<times> 'k ubmempool" where
  "free_memory_contiguous cfg env desc st =
     (let (as, w) = free_nodes (\<lambda>i. conti_free_memory (ops_at cfg env st i)) 0 desc (allocators st) (mpw st)
      in (replicate OBMM_MAX_LOCAL_NUMA_NODES [], st\<lparr>allocators := as, mpw := w\<rparr>))"

definition allocate_memory_contiguous :: "mm_config \<Rightarrow> 'k kmem_env \<Rightarrow> u64 list \<Rightarrow> bool \<Rightarrow> bool \<Rightarrow> 'k ubmempool
    \<Rightarrow> (int \<times> memseg_node list list \<times> 'k ubmempool) option" where
  "allocate_memory_contiguous cfg env sizes zero allow_slow st =
     (case alloc_nodes initialized granu
             (\<lambda>i sz a w. conti_alloc_memory (ops_at cfg env st i) sz zero allow_slow a w)
             0 sizes (allocators st) (replicate OBMM_MAX_LOCAL_NUMA_NODES []) (mpw st) of
        None \<Rightarrow> None
      | Some (ret, as, desc, w) \<Rightarrow>
          let st1 = st\<lparr>allocators := as, mpw := w\<rparr>
          in if ret = 0 then Some (0, desc, st1)
             else let (desc1, st2) = free_memory_contiguous cfg env desc st1 in Some (ret, desc1, st2))"

abbreviation (input) mempool_contract_size :: u64 where "mempool_contract_size \<equiv> 0x10000000000"

text \<open>A node whose allocator was never set up has granularity 0 and no callbacks: the request is
  refused because its size is not a multiple of the granularity.\<close>

definition ubmempool_contract :: "mm_config \<Rightarrow> 'k kmem_env \<Rightarrow> int \<Rightarrow> bool \<Rightarrow> 'k ubmempool \<Rightarrow> u64 \<times> 'k ubmempool" where
  "ubmempool_contract cfg env nd is_hugepage st =
     (if \<not> is_online_local_node (numa env) nd then (0, st)
      else
        let i = nat nd; a = allocators st ! i;
            is_hugetlb_pool = (alloc_ops st ! i = Some ALLOCATOR_HUGETLB_PMD
                             \<or> alloc_ops st ! i = Some ALLOCATOR_HUGETLB_PUD)
        in if is_hugepage = is_hugetlb_pool
           then let w = pool_delay_expand env nd (initialized a) (mpw st);
                    (r, a1, w1) = conti_mem_allocator_contract (ops_at cfg env st i) mempool_contract_size a w
                in (r, st\<lparr>allocators := (allocators st)[i := a1], mpw := w1\<rparr>)
           else (0, st))"

definition mempool_size_parse :: "mp_params \<Rightarrow> 'k kmem_env \<Rightarrow> string \<Rightarrow> nat \<Rightarrow> 'k mp_world \<Rightarrow> int \<times> 'k mp_world" where
  "mempool_size_parse par env p local_cnt w =
     (let (mempool, _) = memparse par p
      in if local_cnt = 0 then (- EINVAL, w)
         else (0, fold (\<lambda>nd w. w\<lparr>pool_size := (pool_size w)[nd := mempool div of_nat local_cnt]\<rparr>)
                    (online_local_nodes (numa env)) w))"

definition mem_allocator_uninit_one :: "mm_config \<Rightarrow> 'k kmem_env \<Rightarrow> nat \<Rightarrow> 'k ubmempool \<Rightarrow> 'k ubmempool" where
  "mem_allocator_uninit_one cfg env nd st =
     (let opsp = (case alloc_ops st ! nd of None \<Rightarrow> None | Some aid \<Rightarrow> allocator_ops cfg env aid);
          (a, w) = conti_mem_allocator_deinit opsp (allocators st ! nd) (mpw st)
      in st\<lparr>allocators := (allocators st)[nd := a],
            mpw := w\<lparr>refill_timer := (refill_timer w)[nd := False]\<rparr>\<rparr>)"

text \<open>\<open>cenv nd\<close> holds the answers of the kernel services that set-up of node \<open>nd\<close> asks.\<close>

definition mem_allocator_init_one :: "mm_config \<Rightarrow> 'k kmem_env \<Rightarrow> (nat \<Rightarrow> conti_init_env) \<Rightarrow> nat \<Rightarrow> allocator_id
    \<Rightarrow> 'k ubmempool \<Rightarrow> int \<times> 'k ubmempool" where
  "mem_allocator_init_one cfg env cenv nd aid st =
     (let w = (mpw st)\<lparr>can_expand := (can_expand (mpw st))[nd := True],
                       refill_timer := (refill_timer (mpw st))[nd := False]\<rparr>;
          (ret, al) = conti_mem_allocator_init cfg (cenv nd) (Some (allocators st ! nd)) (int nd)
                        (memseg_size st) (allocator_ops cfg env aid) (mempool_kobj st);
          st1 = st\<lparr>mpw := w, allocators := (allocators st)[nd := the al],
                   alloc_ops := (alloc_ops st)[nd := Some aid]\<rparr>
      in (ret, st1))"

fun init_nodes :: "mm_config \<Rightarrow> 'k kmem_env \<Rightarrow> (nat \<Rightarrow> conti_init_env) \<Rightarrow> allocator_id \<Rightarrow> nat list \<Rightarrow> nat list
    \<Rightarrow> 'k ubmempool \<Rightarrow> int \<times> nat list \<times> 'k ubmempool" where
  "init_nodes cfg env cenv aid [] before st = (0, before, st)"
| "init_nodes cfg env cenv aid (nd # nds) before st =
     (let (ret, st1) = mem_allocator_init_one cfg env cenv nd aid st
      in if ret \<noteq> 0 then (ret, before, st1)
         else init_nodes cfg env cenv aid nds (before @ [nd]) st1)"

definition ubmempool_allocator_init :: "mm_config \<Rightarrow> 'k kmem_env \<Rightarrow> mp_params \<Rightarrow> (nat \<Rightarrow> conti_init_env) \<Rightarrow> bool
    \<Rightarrow> 'k ubmempool \<Rightarrow> int \<times> 'k ubmempool" where
  "ubmempool_allocator_init cfg env par cenv kobj_ok st =
     (let nodes = online_local_nodes (numa env); local_cnt = length nodes
      in if \<exists>nd \<in> set nodes. OBMM_MAX_LOCAL_NUMA_NODES \<le> nd then (- EOPNOTSUPP, st)
         else
           let n = OBMM_MAX_LOCAL_NUMA_NODES;
               st0 = st\<lparr>allocators := replicate n zeroed_allocator, alloc_ops := replicate n None,
                        mpw := \<lparr>pool_size = replicate n 0, can_expand = replicate n False,
                                refill_timer = replicate n False, kmem = kmem (mpw st)\<rparr>\<rparr>;
               (ret1, w1) = (case mempool_size par of None \<Rightarrow> (0, mpw st0)
                             | Some p \<Rightarrow> mempool_size_parse par env p local_cnt (mpw st0));
               st1 = st0\<lparr>mpw := w1\<rparr>
           in if ret1 \<noteq> 0 then (ret1, st1)
              else let aid = select_mem_allocator par
                in if aid = ALLOCATOR_MAX then (- EINVAL, st1)
                   else let (ret2, sz) = init_mem_allocator_granu cfg par aid; st2 = st1\<lparr>memseg_size := sz\<rparr>
                     in if ret2 \<noteq> 0 then (ret2, st2)
                        else if \<not> kobj_ok then (- ENOMEM, st2)
                        else let (ret3, done_nodes, st3) =
                                   init_nodes cfg env cenv aid nodes [] (st2\<lparr>mempool_kobj := True\<rparr>)
                          in if ret3 \<noteq> 0
                             then (ret3, (fold (mem_allocator_uninit_one cfg env) done_nodes st3)\<lparr>mempool_kobj := False\<rparr>)
                             else (0, st3\<lparr>ghes_registered := True\<rparr>))"

definition ubmempool_allocator_exit :: "mm_config \<Rightarrow> 'k kmem_env \<Rightarrow> 'k ubmempool \<Rightarrow> 'k ubmempool" where
  "ubmempool_allocator_exit cfg env st =
     (let st1 = fold (\<lambda>nd st. if initialized (allocators st ! nd) then mem_allocator_uninit_one cfg env nd st else st)
                  (online_local_nodes (numa env)) (st\<lparr>ghes_registered := False\<rparr>)
      in st1\<lparr>mempool_kobj := False\<rparr>)"

text \<open>What the error record and the page tables say about a memory error.\<close>

record mem_err_env =
  in_nmi :: bool
  pa_valid :: bool
  physical_addr :: u64
  pfn_valid :: "u64 \<Rightarrow> bool"
  pfn_to_nid :: "u64 \<Rightarrow> int"

abbreviation (input) NOTIFY_DONE :: int where "NOTIFY_DONE \<equiv> 0"

abbreviation (input) NOTIFY_OK :: int where "NOTIFY_OK \<equiv> 1"

definition handle_ghes_mem_ras :: "mm_config \<Rightarrow> 'k kmem_env \<Rightarrow> mem_err_env \<Rightarrow> 'k ubmempool \<Rightarrow> int \<times> 'k ubmempool" where
  "handle_ghes_mem_ras cfg env err st =
     (let pfn = drop_bit (PAGE_SHIFT cfg) (physical_addr err); nd = pfn_to_nid err pfn
      in if in_nmi err then (NOTIFY_DONE, st)
         else if \<not> pa_valid err then (NOTIFY_DONE, st)
         else if \<not> pfn_valid err pfn then (NOTIFY_DONE, st)
         else if \<not> is_online_local_node (numa env) nd then (NOTIFY_DONE, st)
         else (NOTIFY_OK, st\<lparr>allocators := (allocators st)[nat nd :=
                 snd (conti_mem_allocator_isolate_memseg (physical_addr err) (allocators st ! nat nd))]\<rparr>))"

section \<open>What the page allocators promise\<close>

text \<open>Segments start on a page.  \<open>src k\<close> is the set of segment addresses that the page allocator behind
  \<open>get\<close> and \<open>put\<close> could still give out.  Neither the page table updates nor the clearing of a segment
  add to it.\<close>

definition page_addrs :: "mm_config \<Rightarrow> u64 set" where
  "page_addrs cfg = {x. push_bit (PAGE_SHIFT cfg) (drop_bit (PAGE_SHIFT cfg) x) = x}"

definition page_source_ok :: "mm_config \<Rightarrow> ('k \<Rightarrow> folio option \<times> 'k) \<Rightarrow> (u64 \<Rightarrow> 'k \<Rightarrow> int \<times> 'k)
    \<Rightarrow> ('k \<Rightarrow> u64 set) \<Rightarrow> bool" where
  "page_source_ok cfg get put src \<longleftrightarrow>
     (\<forall>k f k'. get k = (Some f, k') \<longrightarrow> push_bit (PAGE_SHIFT cfg) (folio_pfn f) \<in> src k
        \<and> src k' \<subseteq> src k - {push_bit (PAGE_SHIFT cfg) (folio_pfn f)})
   \<and> (\<forall>k k'. get k = (None, k') \<longrightarrow> src k' \<subseteq> src k)
   \<and> (\<forall>pfn k. src (snd (put pfn k)) \<subseteq> insert (push_bit (PAGE_SHIFT cfg) pfn) (src k))"

definition kernel_quiet :: "'k kmem_env \<Rightarrow> ('k \<Rightarrow> u64 set) \<Rightarrow> bool" where
  "kernel_quiet env src \<longleftrightarrow>
     (\<forall>i j b k. src (snd (set_linear_mapping_invalid env i j b k)) \<subseteq> src k)
   \<and> (\<forall>x sz k. src (memset_zero env x sz k) \<subseteq> src k)
   \<and> (\<forall>x sz ty k. src (snd (hisi_soc_cache_maintain (cache_hw env) x sz ty k)) \<subseteq> src k)"

definition kmem_source_ok :: "mm_config \<Rightarrow> 'k kmem_env \<Rightarrow> allocator_id \<Rightarrow> ('k \<Rightarrow> u64 set) \<Rightarrow> bool" where
  "kmem_source_ok cfg env aid src \<longleftrightarrow>
     (\<forall>k. src k \<subseteq> page_addrs cfg) \<and> kernel_quiet env src
   \<and> (if aid = ALLOCATOR_BUDDY_HIGHMEM
      then \<forall>n nd. page_source_ok cfg (pfn_range_alloc env n nd) (pfn_range_free env) src
      else \<forall>nd sz. page_source_ok cfg (hugetlb_pool_alloc_size env nd sz) (hugetlb_pool_free env) src)"

definition node_inv :: "conti_mem_allocator \<Rightarrow> nat \<Rightarrow> bool" where
  "node_inv a h \<longleftrightarrow> (if initialized a then conti_inv a h else h = 0)"

text \<open>The bookkeeping of all nodes: \<open>hs ! k\<close> segments of node \<open>k\<close> are handed out elsewhere.\<close>

definition mempool_inv :: "nat list \<Rightarrow> 'k ubmempool \<Rightarrow> memseg_node list list \<Rightarrow> bool" where
  "mempool_inv hs st desc \<longleftrightarrow> length (allocators st) = OBMM_MAX_LOCAL_NUMA_NODES
     \<and> length hs = OBMM_MAX_LOCAL_NUMA_NODES \<and> length desc = OBMM_MAX_LOCAL_NUMA_NODES
     \<and> (\<forall>k < OBMM_MAX_LOCAL_NUMA_NODES. node_inv (allocators st ! k) (hs ! k + length (desc ! k)))"

text \<open>A kernel with a list of free page frames and a list of zeroed ones, and a pool with two segments
  on its only local node.\<close>

definition demo_kenv :: "(u64 list \<times> u64 list) kmem_env" where
  "demo_kenv =
     \<lparr>kzalloc_ok = (\<lambda>k. True),
      hugetlb_pool_alloc_size = (\<lambda>nd sz k. case fst k of [] \<Rightarrow> (None, k)
        | p # ps \<Rightarrow> (Some \<lparr>folio_pfn = p, folio_size = sz\<rparr>, (filter (\<lambda>q. push_bit 12 q \<noteq> push_bit 12 p) ps, snd k))),
      hugetlb_pool_free = (\<lambda>p k. (0, (p # fst k, filter (\<lambda>q. q \<noteq> p) (snd k)))),
      pfn_range_alloc = (\<lambda>n nd k. case fst k of [] \<Rightarrow> (None, k)
        | p # ps \<Rightarrow> (Some \<lparr>folio_pfn = p, folio_size = push_bit 12 n\<rparr>, (filter (\<lambda>q. push_bit 12 q \<noteq> push_bit 12 p) ps, snd k))),
      pfn_range_free = (\<lambda>p k. (0, (p # fst k, filter (\<lambda>q. q \<noteq> p) (snd k)))),
      set_linear_mapping_invalid = (\<lambda>i j b k. (0, k)),
      ioremap_cache_ok = (\<lambda>x sz k. True),
      memset_zero = (\<lambda>x sz k. (fst k, drop_bit 12 x # snd k)),
      cache_hw = \<lparr>skip_cache_maintain = False, hisi_soc_cache_maintain = (\<lambda>x sz ty k. (0, k))\<rparr>,
      numa = \<lparr>max_numnodes = 4, node_online = (\<lambda>n. n < 2), numa_is_remote_node = (\<lambda>n. n = 1)\<rparr>\<rparr>"

definition demo_mempool :: "(u64 list \<times> u64 list) ubmempool" where
  "demo_mempool =
     \<lparr>allocators = demo_pool [0x40000000, 0x40200000] # replicate 15 zeroed_allocator,
      alloc_ops = Some ALLOCATOR_BUDDY_HIGHMEM # replicate 15 None,
      mpw = \<lparr>pool_size = 0x40000000 # replicate 15 0, can_expand = True # replicate 15 False,
             refill_timer = replicate 16 False, kmem = ([], [])\<rparr>,
      memseg_size = 0x200000, mempool_kobj = True, ghes_registered = True\<rparr>"

definition demo_src :: "u64 list \<times> u64 list \<Rightarrow> u64 set" where
  "demo_src k = push_bit 12 ` set (fst k)"

section \<open>Allocation over all nodes\<close>

text \<open>The contract of one pool, as the loops over the nodes use it.  \<open>inv a h\<close> says that the pool is
  consistent with \<open>h\<close> units handed out.\<close>

locale seg_pool =
  fixes ini :: "'a \<Rightarrow> bool" and unit :: "'a \<Rightarrow> u64" and inv :: "'a \<Rightarrow> nat \<Rightarrow> bool"
    and alloc :: "nat \<Rightarrow> u64 \<Rightarrow> 'a \<Rightarrow> 'w \<Rightarrow> (u64 \<times> 'n list \<times> 'a \<times> 'w) option"
    and free :: "nat \<Rightarrow> 'n list \<Rightarrow> 'a \<Rightarrow> 'w \<Rightarrow> 'a \<times> 'w"
  assumes alloc_returns: "\<lbrakk>inv a h; ini a; sz mod unit a = 0\<rbrakk>
      \<Longrightarrow> \<exists>r head a' w'. alloc i sz a w = Some (r, head, a', w')"
    and alloc_keeps: "\<lbrakk>inv a h; ini a; sz mod unit a = 0; alloc i sz a w = Some (r, head, a', w')\<rbrakk>
      \<Longrightarrow> inv a' (h + length head) \<and> r = of_nat (length head) * unit a \<and> r \<le> sz"
    and free_keeps: "\<lbrakk>inv a (h + length ns); ns \<noteq> []; free i ns a w = (a', w')\<rbrakk> \<Longrightarrow> inv a' h"
begin

text \<open>Every pool is consistent with the units it had handed out before and those on the list of its
  node.\<close>

definition pools_inv :: "nat list \<Rightarrow> 'a list \<Rightarrow> 'n list list \<Rightarrow> bool" where
  "pools_inv hs as ds \<longleftrightarrow> length as = length hs \<and> length ds = length hs
     \<and> (\<forall>k < length hs. inv (as ! k) (hs ! k + length (ds ! k)))"

lemma pools_inv_update:
  assumes "pools_inv hs as ds" "inv a (hs ! i + length d)"
  shows "pools_inv hs (as[i := a]) (ds[i := d])"
  unfolding pools_inv_def
proof (intro conjI allI impI)
  fix k assume "k < length hs"
  then show "inv (as[i := a] ! k) (hs ! k + length (ds[i := d] ! k))"
    using assms unfolding pools_inv_def by (cases "k = i") auto
qed (use assms in \<open>auto simp: pools_inv_def\<close>)

lemma alloc_nodes_spec:
  assumes "pools_inv hs as ds" "i + length szs \<le> length hs" "\<forall>k. i \<le> k \<longrightarrow> k < length hs \<longrightarrow> ds ! k = []"
  shows "\<exists>ret as' ds' w'. alloc_nodes ini unit alloc i szs as ds w = Some (ret, as', ds', w')
    \<and> pools_inv hs as' ds' \<and> (\<forall>k < i. ds' ! k = ds ! k)
    \<and> (ret = 0 \<longrightarrow> (\<forall>j < length szs. of_nat (length (ds' ! (i + j))) * unit (as ! (i + j)) = szs ! j))"
  using assms
proof (induction szs arbitrary: i as ds w)
  case Nil
  then show ?case by simp
next
  case (Cons sz szs)
  show ?case
  proof (cases "sz = 0")
    case True
    from Cons.IH [of as ds "Suc i" w] Cons.prems obtain ret as' ds' w' where
      ih: "alloc_nodes ini unit alloc (Suc i) szs as ds w = Some (ret, as', ds', w')" "pools_inv hs as' ds'"
        "\<forall>k < Suc i. ds' ! k = ds ! k"
        "ret = 0 \<longrightarrow> (\<forall>j < length szs. of_nat (length (ds' ! (Suc i + j))) * unit (as ! (Suc i + j)) = szs ! j)"
      by auto
    have "ds' ! i = []" using ih(3) Cons.prems by simp
    then show ?thesis using True ih
      by (intro exI [of _ ret] exI [of _ as'] exI [of _ ds'] exI [of _ w']) (auto simp: nth_Cons split: nat.splits)
  next
    case nz: False
    have here: "i < length hs" "ds ! i = []" using Cons.prems by auto
    have iv: "inv (as ! i) (hs ! i)" using Cons.prems(1) here unfolding pools_inv_def by fastforce
    show ?thesis
    proof (cases "ini (as ! i) \<and> sz mod unit (as ! i) = 0")
      case False
      then show ?thesis using nz Cons.prems(1) by auto
    next
      case ok: True
      from alloc_returns [OF iv conjunct1 [OF ok] conjunct2 [OF ok], of i w] obtain r head a' w1 where
        al: "alloc i sz (as ! i) w = Some (r, head, a', w1)" by blast
      note k = alloc_keeps [OF iv conjunct1 [OF ok] conjunct2 [OF ok] al]
      have p: "pools_inv hs (as[i := a']) (ds[i := head])"
        by (rule pools_inv_update [OF Cons.prems(1)]) (use k in simp)
      show ?thesis
      proof (cases "r < sz")
        case True
        then show ?thesis using nz ok al p by auto
      next
        case False
        then have r: "r = sz" using k by (intro order_antisym) auto
        have li: "i < length ds" using here Cons.prems(1) by (simp add: pools_inv_def)
        from Cons.IH [OF p, of "Suc i" w1] Cons.prems obtain ret as' ds' w' where
          ih: "alloc_nodes ini unit alloc (Suc i) szs (as[i := a']) (ds[i := head]) w1 = Some (ret, as', ds', w')"
            "pools_inv hs as' ds'" "\<forall>k < Suc i. ds' ! k = ds[i := head] ! k"
            "ret = 0 \<longrightarrow> (\<forall>j < length szs. of_nat (length (ds' ! (Suc i + j))) * unit (as[i := a'] ! (Suc i + j)) = szs ! j)"
          by auto
        have "ds' ! i = head" using ih(3) li by simp
        then show ?thesis using nz ok al False ih k r
          by (intro exI [of _ ret] exI [of _ as'] exI [of _ ds'] exI [of _ w']) (auto simp: nth_Cons split: nat.splits)
      qed
    qed
  qed
qed

lemma free_nodes_spec:
  assumes "pools_inv hs as (pre @ ds)" "\<forall>d \<in> set pre. d = []"
  shows "pools_inv hs (fst (free_nodes free (length pre) ds as w)) (map (\<lambda>_. []) hs)"
  using assms
proof (induction ds arbitrary: pre as w)
  case Nil
  then have "pre ! k = []" if "k < length hs" for k using that nth_mem [of k pre] by (auto simp: pools_inv_def)
  then show ?case using Nil.prems(1) by (auto simp: pools_inv_def)
next
  case (Cons d ds)
  show ?case
  proof (cases "d = []")
    case True
    then show ?thesis using Cons.IH [of as "pre @ [d]" w] Cons.prems by simp
  next
    case False
    let ?i = "length pre"
    obtain a w1 where f: "free ?i d (as ! ?i) w = (a, w1)" by fastforce
    have "?i < length hs" using Cons.prems(1) by (simp add: pools_inv_def)
    then have "inv (as ! ?i) (hs ! ?i + length d)" using Cons.prems(1) unfolding pools_inv_def by fastforce
    from free_keeps [OF this False f] have "inv a (hs ! ?i)" .
    then have "pools_inv hs (as[?i := a]) ((pre @ d # ds)[?i := []])"
      by (intro pools_inv_update [OF Cons.prems(1)]) simp
    then show ?thesis using Cons.IH [of "as[?i := a]" "pre @ [[]]" w1] Cons.prems(2) False f by simp
  qed
qed

end

lemma conti_alloc_initialized:
  "conti_alloc_memory ops sz clear allow_slow a w = Some (r, head, a', w') \<Longrightarrow> initialized a' = initialized a"
  unfolding conti_alloc_memory_def conti_alloc_memory_slow_def Let_def case_prod_beta
  by (auto split: if_splits option.splits)

interpretation mp: seg_pool initialized granu node_inv
  "\<lambda>i sz a w. conti_alloc_memory (ops i) sz clear allow_slow a w" "\<lambda>i. conti_free_memory (ops i)"
  for ops :: "nat \<Rightarrow> 'w conti_mempool_ops" and clear allow_slow
proof
  fix a :: conti_mem_allocator and h sz i and w :: 'w
  assume a: "node_inv a h" "initialized a" "sz mod granu a = 0"
  then have iv: "conti_inv a h" by (simp add: node_inv_def)
  show "\<exists>r head a' w'. conti_alloc_memory (ops i) sz clear allow_slow a w = Some (r, head, a', w')"
    by (rule alloc_total [OF iv a(3)])
  show "node_inv a' (h + length head) \<and> r = of_nat (length head) * granu a \<and> r \<le> sz"
    if "conti_alloc_memory (ops i) sz clear allow_slow a w = Some (r, head, a', w')" for r head a' w'
    using alloc_inv [OF iv a(3) that] conti_alloc_initialized [OF that] a(2) by (simp add: node_inv_def)
next
  fix a :: conti_mem_allocator and h ns i a' and w w' :: 'w
  assume a: "node_inv a (h + length ns)" "ns \<noteq> []" "conti_free_memory (ops i) ns a w = (a', w')"
  then have ini: "initialized a" by (auto simp: node_inv_def split: if_splits)
  then have "conti_inv a' h" using a free_memory_inv by (auto simp: node_inv_def)
  moreover have "initialized a'" using a(3) ini by (auto simp: conti_free_memory_def Let_def)
  ultimately show "node_inv a' h" by (simp add: node_inv_def)
qed

lemma mempool_inv_pools:
  "mempool_inv hs st desc \<longleftrightarrow> mp.pools_inv hs (allocators st) desc \<and> length hs = OBMM_MAX_LOCAL_NUMA_NODES"
  by (auto simp: mempool_inv_def mp.pools_inv_def)

lemma free_memory_contiguous_inv:
  assumes "mempool_inv hs st desc"
  shows "mempool_inv hs (snd (free_memory_contiguous cfg env desc st)) (replicate OBMM_MAX_LOCAL_NUMA_NODES [])"
proof -
  have p: "mp.pools_inv hs (allocators st) ([] @ desc)" and l: "length hs = OBMM_MAX_LOCAL_NUMA_NODES"
    using assms(1) by (simp_all add: mempool_inv_pools)
  have "map (\<lambda>_. []) hs = replicate OBMM_MAX_LOCAL_NUMA_NODES ([] :: memseg_node list)"
    using l by (simp add: map_replicate_const)
  then show ?thesis
    using mp.free_nodes_spec [OF p, of "ops_at cfg env st" "mpw st"] l
    by (auto simp: mempool_inv_pools free_memory_contiguous_def Let_def case_prod_beta)
qed

section \<open>Properties\<close>

lemma allocate_spec:
  assumes "mempool_inv hs st (replicate OBMM_MAX_LOCAL_NUMA_NODES [])" "length sizes \<le> OBMM_MAX_LOCAL_NUMA_NODES"
  shows "\<exists>ret desc st'. allocate_memory_contiguous cfg env sizes zero allow_slow st = Some (ret, desc, st')
    \<and> mempool_inv hs st' desc
    \<and> (if ret = 0
       then \<forall>k < length sizes. of_nat (length (desc ! k)) * granu (allocators st ! k) = sizes ! k
       else desc = replicate OBMM_MAX_LOCAL_NUMA_NODES [])
    \<and> mempool_inv hs (snd (free_memory_contiguous cfg env desc st')) (replicate OBMM_MAX_LOCAL_NUMA_NODES [])"
proof -
  let ?n = OBMM_MAX_LOCAL_NUMA_NODES
  have p: "mp.pools_inv hs (allocators st) (replicate ?n [])" and l: "length hs = ?n"
    using assms(1) by (simp_all add: mempool_inv_pools)
  have e: "\<forall>k. 0 \<le> k \<longrightarrow> k < length hs \<longrightarrow> replicate ?n [] ! k = []" using l by simp
  from mp.alloc_nodes_spec [OF p _ e, of sizes "ops_at cfg env st" zero allow_slow "mpw st"] assms(2) l
  obtain ret as desc w where
    al: "alloc_nodes initialized granu (\<lambda>i sz a w. conti_alloc_memory (ops_at cfg env st i) sz zero allow_slow a w)
           0 sizes (allocators st) (replicate ?n []) (mpw st) = Some (ret, as, desc, w)"
      "mp.pools_inv hs as desc"
      "ret = 0 \<longrightarrow> (\<forall>j < length sizes. of_nat (length (desc ! j)) * granu (allocators st ! j) = sizes ! j)"
    by auto
  let ?st1 = "st\<lparr>allocators := as, mpw := w\<rparr>"
  have i1: "mempool_inv hs ?st1 desc" using al(2) l by (simp add: mempool_inv_pools)
  show ?thesis
  proof (cases "ret = 0")
    case True
    then show ?thesis
      using al i1 free_memory_contiguous_inv [OF i1, of cfg env] by (simp add: allocate_memory_contiguous_def Let_def)
  next
    case False
    obtain desc1 st2 where f: "free_memory_contiguous cfg env desc ?st1 = (desc1, st2)" by fastforce
    then have "desc1 = replicate ?n []" by (auto simp: free_memory_contiguous_def Let_def split: prod.splits)
    then show ?thesis
      using False al(1) f free_memory_contiguous_inv [OF i1, of cfg env] free_memory_contiguous_inv [of hs st2 desc1 cfg env]
      by (auto simp: allocate_memory_contiguous_def Let_def)
  qed
qed

text \<open>C31: an allocation over all nodes returns, and it is all or nothing.  On success every node
  contributes exactly the bytes asked of it.  On failure no segment is left on any list and every
  pool is consistent with what was handed out before, so nothing leaks.  Releasing the lists restores
  the books of every node.\<close>

theorem allocate_all_or_nothing:
  assumes "mempool_inv hs st (replicate OBMM_MAX_LOCAL_NUMA_NODES [])" "length sizes \<le> OBMM_MAX_LOCAL_NUMA_NODES"
  shows "\<exists>ret desc st'. allocate_memory_contiguous cfg env sizes zero allow_slow st = Some (ret, desc, st')
    \<and> mempool_inv hs st' desc
    \<and> (if ret = 0
       then \<forall>k < length sizes. of_nat (length (desc ! k)) * granu (allocators st ! k) = sizes ! k
       else desc = replicate OBMM_MAX_LOCAL_NUMA_NODES [])
    \<and> mempool_inv hs (snd (free_memory_contiguous cfg env desc st')) (replicate OBMM_MAX_LOCAL_NUMA_NODES [])"
  by (rule allocate_spec [OF assms])

lemma demo_mempool_inv: "mempool_inv (replicate 16 0) demo_mempool (replicate 16 [])"
proof -
  have "node_inv (allocators demo_mempool ! k) 0" if "k < 16" for k
  proof (cases k)
    case 0
    then show ?thesis
      by (simp add: demo_mempool_def node_inv_def demo_pool_def demo_start_def zeroed_allocator_def conti_inv_def)
  next
    case (Suc j)
    then show ?thesis using that by (simp add: demo_mempool_def node_inv_def zeroed_allocator_def)
  qed
  then show ?thesis by (simp add: mempool_inv_def demo_mempool_def)
qed

theorem allocate_all_or_nothing_witness:
  "\<exists>ret desc st'. allocate_memory_contiguous demo_cfg demo_kenv [0x400000, 0x200000] False False demo_mempool
      = Some (ret, desc, st') \<and> mempool_inv (replicate 16 0) st' desc"
  using allocate_all_or_nothing [OF demo_mempool_inv, of "[0x400000, 0x200000]" demo_cfg demo_kenv False False]
  by auto

section \<open>The callbacks are a proper source of segments\<close>

lemma kernel_quietD:
  assumes "kernel_quiet env src"
  shows "src (snd (set_linear_mapping_invalid env i j b k)) \<subseteq> src k"
    "src (memset_zero env x sz k) \<subseteq> src k"
    "src (snd (hisi_soc_cache_maintain (cache_hw env) x sz ty k)) \<subseteq> src k"
  using assms unfolding kernel_quiet_def by blast+

lemma maintain_retry_quiet:
  assumes "maintain_retry env x sz ty k = Some r"
    and q: "\<And>x sz ty k. src (snd (hisi_soc_cache_maintain env x sz ty k)) \<subseteq> src k"
  shows "src (snd r) \<subseteq> src k"
  using assms(1)
proof (induction rule: maintain_retry_induct)
  case (answer w ret w1)
  then show ?case using q [of x sz ty w] by simp
next
  case (busy w w1 r)
  then show ?case using q [of x sz ty w] by simp
qed

lemma flush_chunks_quiet:
  assumes "flush_chunks env ty x r ret k = Some (ret', k')"
    and q: "\<And>x sz ty k. src (snd (hisi_soc_cache_maintain env x sz ty k)) \<subseteq> src k"
  shows "src k' \<subseteq> src k"
  using assms
proof (induction env ty x r ret k rule: flush_chunks.induct)
  case (1 env ty x r ret k)
  define f where "f = (if r \<le> MAX_FLUSH_SIZE then r else MAX_FLUSH_SIZE)"
  show ?case
  proof (cases "r = 0")
    case True
    then show ?thesis using "1.prems"(1) by (simp add: flush_chunks.simps)
  next
    case False
    obtain ret1 k1 where m: "maintain_retry env x f ty k = Some (ret1, k1)"
      using "1.prems"(1) False unfolding flush_chunks.simps [of env ty x r] Let_def f_def [symmetric]
      by (auto split: option.splits)
    have k1: "src k1 \<subseteq> src k"
      using maintain_retry_quiet [of env x f ty k _ src, OF m "1.prems"(2)] by simp
    show ?thesis
    proof (cases "ret1 = 0")
      case z: True
      have "flush_chunks env ty (x + f) (r - f) ret1 k1 = Some (ret', k')"
        using "1.prems"(1) False m z unfolding flush_chunks.simps [of env ty x r] Let_def f_def [symmetric] by simp
      then have "src k' \<subseteq> src k1"
        using "1.IH" [OF False f_def m refl] z "1.prems"(2) by simp
      then show ?thesis using k1 by blast
    next
      case nz: False
      then have "k' = k1"
        using "1.prems"(1) False m unfolding flush_chunks.simps [of env ty x r] Let_def f_def [symmetric] by simp
      then show ?thesis using k1 by simp
    qed
  qed
qed

lemma clear_block_quiet:
  assumes "kernel_quiet env src" "clear_block cfg env p k = Some (ret, k')"
  shows "src k' \<subseteq> src k"
proof -
  let ?i = "drop_bit (PAGE_SHIFT cfg) (addr p)" and ?j = "drop_bit (PAGE_SHIFT cfg) (addr p + seg_size p)"
  note q = kernel_quietD [OF assms(1)]
  obtain r1 k1 where 1: "set_linear_mapping_invalid env ?i ?j False k = (r1, k1)" by fastforce
  define k2 where "k2 = memset_zero env (addr p) (seg_size p) k1"
  obtain r3 k3 where 3: "set_linear_mapping_invalid env ?i ?j True k2 = (r3, k3)" by fastforce
  have s1: "src k1 \<subseteq> src k" using q(1) [of ?i ?j False k] 1 by simp
  have s3: "src k3 \<subseteq> src k" using q(1) [of ?i ?j True k2] 3 q(2) [of "addr p" "seg_size p" k1] s1 k2_def by auto
  have "src k' \<subseteq> src k3" if "flush_cache_by_pa (cache_hw env) (addr p) (seg_size p) OBMM_SHM_CACHE_WB_INVAL k3 = Some (ret, k')"
    using that flush_chunks_quiet [of "cache_hw env" _ _ _ _ k3 ret k' src] q(3)
    by (auto simp: flush_cache_by_pa_def split: if_splits)
  moreover have "src (snd (set_linear_mapping_invalid env ?i ?j True k1)) \<subseteq> src k" using q(1) s1 by blast
  ultimately show ?thesis
    using assms(2) s1 s3
    by (auto simp: clear_block_def Let_def 1 3 k2_def [symmetric] split: if_splits option.splits)
qed

lemma pool_delay_expand_kmem [simp]: "kmem (pool_delay_expand env nd ini w) = kmem w"
  by (simp add: pool_delay_expand_def)

lemma page_source_okD:
  assumes "page_source_ok cfg get put src"
  shows "get k = (Some f, k') \<Longrightarrow> push_bit (PAGE_SHIFT cfg) (folio_pfn f) \<in> src k"
    "get k = (Some f, k') \<Longrightarrow> src k' \<subseteq> src k - {push_bit (PAGE_SHIFT cfg) (folio_pfn f)}"
    "get k = (None, k') \<Longrightarrow> src k' \<subseteq> src k"
    "src (snd (put pfn k)) \<subseteq> insert (push_bit (PAGE_SHIFT cfg) pfn) (src k)"
  using assms unfolding page_source_ok_def by (blast, blast, blast, blast)

lemma alloc_memseg_with_source:
  assumes "page_source_ok cfg get put src" "kernel_quiet env src" "alloc_memseg_with get put cfg env a w = (r, w')"
  shows "case r of None \<Rightarrow> src (kmem w') \<subseteq> src (kmem w)
    | Some n \<Rightarrow> addr n \<in> src (kmem w) \<and> src (kmem w') \<subseteq> src (kmem w) - {addr n} \<and> seg_size n = granu a"
proof (cases "kzalloc_ok env (kmem w)")
  case False
  then show ?thesis using assms(3) by (auto simp: alloc_memseg_with_def)
next
  case kz: True
  note q = kernel_quietD(1) [OF assms(2)]
  obtain fo k1 where g: "get (kmem w) = (fo, k1)" by fastforce
  show ?thesis
  proof (cases fo)
    case None
    then show ?thesis using assms(3) kz g page_source_okD(3) [OF assms(1), of "kmem w" k1] by (auto simp: alloc_memseg_with_def)
  next
    case (Some f)
    let ?x = "push_bit (PAGE_SHIFT cfg) (folio_pfn f)"
    let ?n = "\<lparr>addr = ?x, seg_size = folio_size f\<rparr>"
    have s: "?x \<in> src (kmem w)" "src k1 \<subseteq> src (kmem w) - {?x}"
      using page_source_okD(1,2) [OF assms(1)] g Some by blast+
    have ret_src: "src (snd (put (folio_pfn f) k)) \<subseteq> src (kmem w)" if "src k \<subseteq> src k1" for k
      using page_source_okD(4) [OF assms(1), of "folio_pfn f" k] s that by blast
    obtain ret k2 where m: "set_memseg_linear_mapping_invalid cfg env ?n True k1 = (ret, k2)" by fastforce
    have k2: "src k2 \<subseteq> src k1"
      using m q by (metis set_memseg_linear_mapping_invalid_def snd_conv)
    show ?thesis
      using assms(3) kz g Some m s k2 ret_src [of k1] ret_src [OF k2]
      by (auto simp: alloc_memseg_with_def Let_def split: if_splits)
  qed
qed

lemma mempool_ops_source:
  assumes q: "kernel_quiet env src" and u: "\<And>k. src k \<subseteq> page_addrs cfg"
    and p: "\<And>a. page_source_ok cfg (get a) put src"
    and g: "\<And>a w. getf cfg env a w = alloc_memseg_with (get a) put cfg env a w"
    and f: "putf cfg env = free_memseg_with put cfg env"
  shows "seg_source_ok (mempool_ops cfg env putf getf) (page_addrs cfg) (\<lambda>w. src (kmem w))"
proof -
  let ?ops = "mempool_ops cfg env putf getf"
  have get: "conti_pool_alloc_memseg ?ops a w = alloc_memseg_with (get a) put cfg env a w" for a w
    by (simp add: conti_pool_alloc_memseg_def mempool_ops_def g)
  have "addr n \<in> src (kmem w) \<and> src (kmem w') \<subseteq> src (kmem w) - {addr n}"
    if "conti_pool_alloc_memseg ?ops a w = (Some n, w')" for a w n w'
    using alloc_memseg_with_source [OF p q that [unfolded get]] by simp
  moreover have "src (kmem w') \<subseteq> src (kmem w)" if "conti_pool_alloc_memseg ?ops a w = (None, w')" for a w w'
    using alloc_memseg_with_source [OF p q that [unfolded get]] by simp
  moreover have "src (kmem (conti_pool_free_memseg ?ops a n w)) \<subseteq> insert (addr n) (src (kmem w))"
    if n: "addr n \<in> page_addrs cfg" for a n w
  proof -
    let ?k1 = "snd (set_memseg_linear_mapping_invalid cfg env n False (kmem w))"
    have "src ?k1 \<subseteq> src (kmem w)" using kernel_quietD(1) [OF q] by (simp add: set_memseg_linear_mapping_invalid_def)
    then show ?thesis
      using page_source_okD(4) [OF p, of "drop_bit (PAGE_SHIFT cfg) (addr n)" ?k1] n
      by (auto simp: conti_pool_free_memseg_def mempool_ops_def f free_memseg_with_def page_addrs_def Let_def)
  qed
  moreover have "src (kmem (snd (conti_clear_memseg ?ops a n w))) \<subseteq> src (kmem w)" for a n w
    using clear_block_quiet [OF q]
    by (auto simp: conti_clear_memseg_def mempool_ops_def clear_block_cb_def split: option.splits)
  ultimately show ?thesis unfolding seg_source_ok_def using u by blast
qed

lemma mempool_source:
  assumes "allocator_ops cfg env aid = Some ops" "kmem_source_ok cfg env aid src"
  shows "seg_source_ok ops (page_addrs cfg) (\<lambda>w. src (kmem w))"
proof -
  have q: "kernel_quiet env src" and u: "\<And>k. src k \<subseteq> page_addrs cfg"
    using assms(2) by (auto simp: kmem_source_ok_def)
  show ?thesis
  proof (cases aid)
    case ALLOCATOR_HUGETLB_PMD
    then have "ops = mempool_ops cfg env hugetlb_free_memseg hugetlb_pmd_alloc_memseg"
      using assms(1) by (simp add: allocator_ops_def hugetlb_pmd_ops_def)
    then show ?thesis
      using mempool_ops_source [OF q u, of "\<lambda>a. hugetlb_pool_alloc_size env (nid a) (PMD_SIZE cfg)" "hugetlb_pool_free env"
          hugetlb_pmd_alloc_memseg hugetlb_free_memseg] assms(2) ALLOCATOR_HUGETLB_PMD
      by (simp add: kmem_source_ok_def hugetlb_pmd_alloc_memseg_def hugetlb_free_memseg_def)
  next
    case ALLOCATOR_HUGETLB_PUD
    then have "ops = mempool_ops cfg env hugetlb_free_memseg hugetlb_pud_alloc_memseg"
      using assms(1) by (simp add: allocator_ops_def hugetlb_pud_ops_def)
    then show ?thesis
      using mempool_ops_source [OF q u, of "\<lambda>a. hugetlb_pool_alloc_size env (nid a) (PUD_SIZE cfg)" "hugetlb_pool_free env"
          hugetlb_pud_alloc_memseg hugetlb_free_memseg] assms(2) ALLOCATOR_HUGETLB_PUD
      by (simp add: kmem_source_ok_def hugetlb_pud_alloc_memseg_def hugetlb_free_memseg_def)
  next
    case ALLOCATOR_BUDDY_HIGHMEM
    then have "ops = mempool_ops cfg env buddy_free_memseg buddy_alloc_memseg"
      using assms(1) by (simp add: allocator_ops_def buddy_ops_def)
    then show ?thesis
      using mempool_ops_source [OF q u, of "\<lambda>a. pfn_range_alloc env (drop_bit (PAGE_SHIFT cfg) (granu a)) (nid a)"
          "pfn_range_free env" buddy_alloc_memseg buddy_free_memseg] assms(2) ALLOCATOR_BUDDY_HIGHMEM
      by (simp add: kmem_source_ok_def buddy_alloc_memseg_def buddy_free_memseg_def)
  qed (use assms(1) in \<open>simp add: allocator_ops_def\<close>)
qed

text \<open>C7: with the callbacks of this driver, whichever page allocator is selected, no segment ever has
  two owners, provided the page allocator never gives out a page frame twice and nothing else in the
  kernel hands page frames back to it behind its back.\<close>

theorem mempool_no_double_owner:
  assumes "allocator_ops cfg env aid = Some ops" "kmem_source_ok cfg env aid src" "conti_reachable ops w0 s"
  shows "distinct (map addr (pool_segs (pool s) @ held s))
    \<and> addr ` set (pool_segs (pool s) @ held s) \<inter> src (kmem (world s)) = {}"
  using owner_inv_distinct [OF reachable_owner_inv [OF mempool_source [OF assms(1,2)] assms(3)]] by blast

lemma demo_kmem_source: "kmem_source_ok demo_cfg demo_kenv ALLOCATOR_BUDDY_HIGHMEM demo_src"
proof -
  have "push_bit 12 (drop_bit 12 (push_bit 12 (x :: u64))) = push_bit 12 x" for x
    by (rule bit_word_eqI) (auto simp: bit_simps)
  then have u: "demo_src k \<subseteq> page_addrs demo_cfg" for k
    by (auto simp: demo_src_def page_addrs_def demo_cfg_def)
  moreover have "kernel_quiet demo_kenv demo_src"
    by (simp add: kernel_quiet_def demo_kenv_def demo_src_def)
  ultimately show ?thesis
    by (auto simp: kmem_source_ok_def page_source_ok_def demo_kenv_def demo_src_def demo_cfg_def split: list.splits)
qed

theorem mempool_no_double_owner_witness:
  "distinct (map addr (pool_segs demo_start))
   \<and> conti_reachable (buddy_ops demo_cfg demo_kenv) (mpw demo_mempool) \<lparr>pool = demo_start, held = [], world = mpw demo_mempool\<rparr>"
proof -
  have i: "conti_mem_allocator_init demo_cfg demo_env (Some zeroed_allocator) 0 0x200000
      (Some (buddy_ops demo_cfg demo_kenv)) True = (0, Some demo_start)"
    by (simp add: conti_mem_allocator_init_def buddy_ops_def mempool_ops_def demo_cfg_def demo_env_def demo_start_def
      IS_ALIGNED_def clear_thread_init_def pool_thread_init_def zeroed_allocator_def)
  note r = conti_reachable.start [OF i, of "mpw demo_mempool"]
  have "allocator_ops demo_cfg demo_kenv ALLOCATOR_BUDDY_HIGHMEM = Some (buddy_ops demo_cfg demo_kenv)"
    by (simp add: allocator_ops_def)
  from mempool_no_double_owner [OF this demo_kmem_source r] r show ?thesis by simp
qed

section \<open>How much the pool of a node grows and shrinks\<close>

lemma sint_pos_part: "unat (if sint (x :: u64) > 0 then x else 0) = (if unat x < 2 ^ 63 then unat x else 0)"
proof (cases "unat x < 2 ^ 63")
  case True
  then have "0 < sint x \<longleftrightarrow> 0 < unat x" by (simp only: u64_sint if_True of_nat_0_less_iff)
  then show ?thesis using True by (auto simp: unat_eq_zero)
next
  case False
  have "int (unat x) < 2 ^ 64" using u64_lt [of x] by (metis of_nat_less_iff of_nat_numeral of_nat_power)
  then have "\<not> 0 < sint x" using False by (simp only: u64_sint if_False)
  then show ?thesis using False by simp
qed

lemma cma_expand_exact:
  assumes g: "granu a = 2 ^ k" "k < 62"
    and b: "unat (conti_get_avail a) < 2 ^ 62" "unat (pool_size w ! nat (nid a)) < 2 ^ 62"
  shows "unat (cma_expand_size a w)
      = (unat (pool_size w ! nat (nid a)) - unat (conti_get_avail a)) div 2 ^ k * 2 ^ k"
proof -
  define d where "d = pool_size w ! nat (nid a) - conti_get_avail a"
  have G: "(2 :: nat) ^ k < 2 ^ 62" by (rule power_strict_increasing) (use g(2) in auto)
  have v: "unat (ALIGN_DOWN d (2 ^ k)) = unat d div 2 ^ k * 2 ^ k" by (rule unat_ALIGN_DOWN_pow2)
  have lo: "unat d < unat d div 2 ^ k * 2 ^ k + 2 ^ k" by (rule round_down_gt) simp
  have hi: "unat d div 2 ^ k * 2 ^ k \<le> unat d" by simp
  show ?thesis
  proof (cases "unat (conti_get_avail a) \<le> unat (pool_size w ! nat (nid a))")
    case True
    then have "unat d = unat (pool_size w ! nat (nid a)) - unat (conti_get_avail a)"
      by (simp add: d_def unat_sub_wrap)
    moreover from this have "unat d < 2 ^ 63" using b(2) by simp
    then have "unat (ALIGN_DOWN d (2 ^ k)) < 2 ^ 63" using hi v by linarith
    ultimately show ?thesis using v
      by (simp add: cma_expand_size_def g(1) d_def [symmetric] sint_pos_part Let_def)
  next
    case False
    then have "unat d + 2 ^ 62 \<ge> 2 ^ 64" using b(1) by (simp add: d_def unat_sub_wrap)
    then have "unat (ALIGN_DOWN d (2 ^ k)) \<ge> 2 ^ 63" using lo v G by simp
    then show ?thesis using False
      by (simp add: cma_expand_size_def g(1) d_def [symmetric] sint_pos_part Let_def)
  qed
qed

lemma cma_contract_exact:
  assumes g: "granu a = 2 ^ k" "k < 62"
    and b: "unat (conti_get_avail a) < 2 ^ 62" "unat (pool_size w ! nat (nid a)) < 2 ^ 62"
  shows "unat (cma_contract_size a w)
      = (unat (conti_get_avail a) - unat (pool_size w ! nat (nid a)) + 2 ^ k - 1) div 2 ^ k * 2 ^ k"
proof -
  define d where "d = conti_get_avail a - pool_size w ! nat (nid a)"
  define e where "e = d + (2 ^ k - 1)"
  have G: "(2 :: nat) ^ k < 2 ^ 62" by (rule power_strict_increasing) (use g(2) in auto)
  have m: "unat (2 ^ k - 1 :: u64) = 2 ^ k - 1"
    using g(2) by (simp add: unat_p2 unat_minus_one [OF p2_nonzero])
  have A: "ALIGN d (2 ^ k) = ALIGN_DOWN e (2 ^ k)" by (simp add: ALIGN_def ALIGN_DOWN_eq e_def)
  have v: "unat (ALIGN d (2 ^ k)) = unat e div 2 ^ k * 2 ^ k" unfolding A by (rule unat_ALIGN_DOWN_pow2)
  have lo: "unat e < unat e div 2 ^ k * 2 ^ k + 2 ^ k" by (rule round_down_gt) simp
  have hi: "unat e div 2 ^ k * 2 ^ k \<le> unat e" by simp
  show ?thesis
  proof (cases "unat (pool_size w ! nat (nid a)) \<le> unat (conti_get_avail a)")
    case True
    then have "unat d = unat (conti_get_avail a) - unat (pool_size w ! nat (nid a))"
      by (simp add: d_def unat_sub_wrap)
    moreover from this have "unat e = unat d + (2 ^ k - 1)"
      unfolding e_def by (subst u64_unat_add) (use b(1) G m in auto)
    moreover from this have "unat e < 2 ^ 63" using b(1) G \<open>unat d = _\<close> by simp
    then have "unat (ALIGN d (2 ^ k)) < 2 ^ 63" using hi v by linarith
    ultimately show ?thesis using v
      by (simp add: cma_contract_size_def g(1) d_def [symmetric] sint_pos_part Let_def)
  next
    case False
    then have d: "unat d + 2 ^ 62 \<ge> 2 ^ 64" using b(2) by (simp add: d_def unat_sub_wrap)
    have "unat e div 2 ^ k = 0 \<or> unat e div 2 ^ k * 2 ^ k \<ge> 2 ^ 63"
    proof (cases "unat d + (2 ^ k - 1) < 2 ^ 64")
      case True
      then have "unat e = unat d + (2 ^ k - 1)" unfolding e_def by (subst u64_unat_add) (use m in auto)
      then have "unat d \<le> unat e" by linarith
      moreover have "a \<le> b \<Longrightarrow> 2 ^ 64 \<le> a + 2 ^ 62 \<Longrightarrow> b < q + p \<Longrightarrow> p < 2 ^ 62 \<Longrightarrow> 2 ^ 63 \<le> q" for a b p q :: nat
        by simp
      ultimately have "2 ^ 63 \<le> unat e div 2 ^ k * 2 ^ k" using d lo G by blast
      then show ?thesis by blast
    next
      case wrap: False
      have "unat e = unat d + (2 ^ k - 1) - 2 ^ 64"
        unfolding e_def using wrap by (subst unat_plus_if') (simp add: m)
      moreover have "a < 2 ^ 64 \<Longrightarrow> 0 < p \<Longrightarrow> a + (p - 1) - 2 ^ 64 < p" for a p :: nat by simp
      ultimately have "unat e < 2 ^ k" using u64_lt [of d] by simp
      then show ?thesis by simp
    qed
    then have "unat (cma_contract_size a w) = 0" using v
      by (auto simp: cma_contract_size_def g(1) d_def [symmetric] sint_pos_part Let_def)
    then show ?thesis using False by simp
  qed
qed

text \<open>C32: with a power-of-two granularity, the amount by which the pool of a node is to grow is its
  shortfall rounded down to whole segments, the amount by which it is to shrink is its surplus
  rounded up, and neither computation is disturbed by the unsigned subtraction wrapping around; so a
  pool is never asked to grow and to shrink at once.\<close>

theorem cma_sizes_exact:
  assumes "granu a = 2 ^ k" "k < 62"
    and "unat (conti_get_avail a) < 2 ^ 62" "unat (pool_size w ! nat (nid a)) < 2 ^ 62"
  shows "unat (cma_expand_size a w)
      = (unat (pool_size w ! nat (nid a)) - unat (conti_get_avail a)) div 2 ^ k * 2 ^ k
   \<and> unat (cma_contract_size a w)
      = (unat (conti_get_avail a) - unat (pool_size w ! nat (nid a)) + 2 ^ k - 1) div 2 ^ k * 2 ^ k
   \<and> (cma_expand_size a w = 0 \<or> cma_contract_size a w = 0)"
proof -
  note e = cma_expand_exact [OF assms] and c = cma_contract_exact [OF assms]
  have "unat (cma_expand_size a w) = 0 \<or> unat (cma_contract_size a w) = 0"
    unfolding e c by (cases "unat (conti_get_avail a) \<le> unat (pool_size w ! nat (nid a))") auto
  then show ?thesis using e c unfolding unat_eq_zero by blast
qed

theorem cma_sizes_exact_witness:
  "unat (cma_expand_size demo_start (mpw demo_mempool)) = 0x40000000
   \<and> granu demo_start = 2 ^ 21 \<and> pool_size (mpw demo_mempool) ! 0 = 0x40000000"
  using cma_sizes_exact [of demo_start 21 "mpw demo_mempool"]
  by (simp add: demo_start_def demo_mempool_def conti_get_avail_def zeroed_allocator_def)

end
