(* ===== verification/Obmm_Export_Walk.thy ===== *)
theory Obmm_Export_Walk
  imports Obmm_Types Ubmempool_Allocator
begin

text \<open>
  Exported regions and the operations that visit their memory (\<^verbatim>\<open>drivers/ub/obmm/obmm_core.h\<close>,
  \<^verbatim>\<open>obmm_export_region_ops.c\<close>).  The memory of a region is a scatter list of physical chunks; an offset
  in the region counts through the chunks in their order.  One walk serves cache flushing, changes of
  the kernel's own mapping, mapping to user space and the two directions of address lookup.
\<close>

section \<open>Data\<close>

text \<open>An element of a scatter list: the physical address of its page and its length.\<close>

record scatterlist =
  sg_phys :: u64
  sg_length :: u32

record mem_description_pid =
  pid :: int
  user_va :: u64
  pinned :: int
  start_time :: u64

record obmm_export_region =
  e_region :: obmm_region
  node_count :: u32
  node_mem_size :: "u64 list"
  mem_desc_pid :: mem_description_pid
  mem_desc :: "memseg_node list list"
  sgt :: "scatterlist list"
  ummu_dev :: "nat option"
  tokenid :: u32
  uba :: u64
  vendor_len :: u32
  vendor_info :: "u8 list"
  affinity :: int
  e_deid :: "u8 list"

datatype obmm_region_type = OBMM_EXPORT_REGION | OBMM_IMPORT_REGION

record obmm_ext_addr =
  ext_region_type :: obmm_region_type
  ext_regionid :: u32
  ext_offset :: u64
  ext_tid :: u32
  ext_uba :: u64
  ext_numa_id :: int
  ext_pa :: u64

text \<open>Page protection, reduced to the two attributes that the sources choose.\<close>

datatype prot_access = PAGE_READONLY | PAGE_READONLY_EXEC | PAGE_SHARED_WRITE | PAGE_NONE

datatype prot_cache = PROT_NORMAL | PROT_NORMAL_NC | PROT_DEVICE

record pgprot =
  access_of :: prot_access
  cache_of :: prot_cache

text \<open>An open file of the driver, its \<open>private_data\<close> the region that it stands for, and a mapping of a
  process; \<open>vm_ops\<close> tells whether the mapping has the driver's table of operations.\<close>

record shm_file =
  f_flags :: u32
  f_mode :: u32
  private_data :: nat

record vm_area =
  vm_start :: u64
  vm_end :: u64
  vm_flags :: u64
  vm_pgoff :: u64
  vm_page_prot :: pgprot
  vm_private_data :: u64
  vm_file :: "shm_file option"
  vm_ops :: bool

text \<open>The kernel calls that enter pages into a user page table.\<close>

record 'k map_env =
  remap_pfn_range :: "vm_area \<Rightarrow> u64 \<Rightarrow> u64 \<Rightarrow> u64 \<Rightarrow> pgprot \<Rightarrow> 'k \<Rightarrow> int \<times> 'k"
  remap_pfn_range_try_pmd :: "vm_area \<Rightarrow> u64 \<Rightarrow> u64 \<Rightarrow> u64 \<Rightarrow> pgprot \<Rightarrow> 'k \<Rightarrow> int \<times> 'k"

section \<open>The walk\<close>

text \<open>A visitor gets the first and the last address of a piece and the piece's offset in the region, and
  changes its own argument; a result other than 0 ends the walk.  \<open>None\<close> is a visitor that does not
  return.\<close>

type_synonym 'a walk_fn = "u64 \<Rightarrow> u64 \<Rightarrow> u64 \<Rightarrow> 'a \<Rightarrow> (int \<times> 'a) option"

fun walk_sgs :: "'a walk_fn \<Rightarrow> scatterlist list \<Rightarrow> u64 \<Rightarrow> u64 \<Rightarrow> u64 \<Rightarrow> 'a \<Rightarrow> 'a option" where
  "walk_sgs fn [] off len from_head a = Some a"
| "walk_sgs fn (sg # sgs) off len from_head a =
     (let l = ucast (sg_length sg)
      in if off \<ge> l then walk_sgs fn sgs (off - l) len (from_head + l) a
         else
           let start = sg_phys sg + off;
               sz = min l (off + len) - off
           in case fn start (start + sz - 1) (from_head + off) a of
                None \<Rightarrow> None
              | Some (ret, a1) \<Rightarrow>
                  if ret \<noteq> 0 then Some a1
                  else if len - sz = 0 then Some a1
                  else walk_sgs fn sgs 0 (len - sz) (from_head + l) a1)"

definition walk_export_memory :: "obmm_export_region \<Rightarrow> u64 \<Rightarrow> u64 \<Rightarrow> 'a walk_fn \<Rightarrow> 'a \<Rightarrow> 'a option" where
  "walk_export_memory e_reg off len fn a = (if len = 0 then Some a else walk_sgs fn (sgt e_reg) off len 0 a)"

section \<open>Visitors\<close>

text \<open>Cache maintenance.\<close>

record flush_cache_info =
  fl_ret :: int
  succ_flush_count :: int
  total_flush_count :: int

definition flush_cache_call :: "'k cache_env \<Rightarrow> u64 \<Rightarrow> (flush_cache_info \<times> 'k) walk_fn" where
  "flush_cache_call env cache_ops start stop off a =
     (case a of (i, k) \<Rightarrow>
        (case flush_cache_by_pa env start (stop - start + 1) cache_ops k of
           None \<Rightarrow> None
         | Some (ret, k1) \<Rightarrow>
             let i1 = (if ret = 0 then i\<lparr>succ_flush_count := succ_flush_count i + 1\<rparr>
                       else if fl_ret i = 0 then i\<lparr>fl_ret := ret\<rparr> else i)
             in Some (0, i1\<lparr>total_flush_count := total_flush_count i1 + 1\<rparr>, k1)))"

definition flush_export_region :: "'k cache_env \<Rightarrow> obmm_export_region \<Rightarrow> u64 \<Rightarrow> u64 \<Rightarrow> u64 \<Rightarrow> 'k \<Rightarrow> (int \<times> 'k) option" where
  "flush_export_region env e_reg off len cache_ops k =
     map_option (\<lambda>(i, k1). (fl_ret i, k1))
       (walk_export_memory e_reg off len (flush_cache_call env cache_ops)
          (\<lparr>fl_ret = 0, succ_flush_count = 0, total_flush_count = 0\<rparr>, k))"

text \<open>The kernel's linear mapping.\<close>

definition kernel_pgtable_invalid_call :: "mm_config \<Rightarrow> 'k kmem_env \<Rightarrow> bool \<Rightarrow> (int \<times> 'k) walk_fn" where
  "kernel_pgtable_invalid_call cfg env set_inval start stop off a =
     (let (ret, k1) = set_linear_mapping_invalid env (drop_bit (PAGE_SHIFT cfg) start)
                        (drop_bit (PAGE_SHIFT cfg) (stop + 1)) set_inval (snd a)
      in Some (0, ret, k1))"

definition kernel_pgtable_set_export_invalid :: "mm_config \<Rightarrow> 'k kmem_env \<Rightarrow> u64 \<Rightarrow> obmm_export_region \<Rightarrow> u64 \<Rightarrow> u64
    \<Rightarrow> bool \<Rightarrow> 'k \<Rightarrow> int \<times> 'k" where
  "kernel_pgtable_set_export_invalid cfg env memseg e_reg off len set_inval k =
     (if off mod memseg \<noteq> 0 \<or> len mod memseg \<noteq> 0 then (- EINVAL, k)
      else the (walk_export_memory e_reg off len (kernel_pgtable_invalid_call cfg env set_inval) (0, k)))"

text \<open>Mapping to user space.\<close>

definition map_range_call :: "mm_config \<Rightarrow> 'k map_env \<Rightarrow> vm_area \<Rightarrow> obmm_mmap_granu \<Rightarrow> (int \<times> 'k) walk_fn" where
  "map_range_call cfg env vma mgranu start stop off a =
     (let len = stop - start + 1;
          vm_offset = off - push_bit (PAGE_SHIFT cfg) (vm_pgoff vma);
          pfn = drop_bit (PAGE_SHIFT cfg) start;
          (ret, k1) = (case mgranu of
             OBMM_MMAP_GRANU_PAGE \<Rightarrow> remap_pfn_range env vma (vm_start vma + vm_offset) pfn len (vm_page_prot vma) (snd a)
           | OBMM_MMAP_GRANU_PMD \<Rightarrow> remap_pfn_range_try_pmd env vma (vm_start vma + vm_offset) pfn len (vm_page_prot vma) (snd a)
           | OBMM_MMAP_GRANU_NONE \<Rightarrow> (- EINVAL, snd a))
      in if ret \<noteq> 0 then Some (- 1, ret, k1) else Some (0, ret, k1))"

definition map_export_region :: "mm_config \<Rightarrow> 'k map_env \<Rightarrow> vm_area \<Rightarrow> obmm_export_region \<Rightarrow> obmm_mmap_granu \<Rightarrow> 'k \<Rightarrow> int \<times> 'k" where
  "map_export_region cfg env vma e_reg mgranu k =
     the (walk_export_memory e_reg (push_bit (PAGE_SHIFT cfg) (vm_pgoff vma)) (vm_end vma - vm_start vma)
            (map_range_call cfg env vma mgranu) (0, k))"

text \<open>Lookup of an offset from a physical address and the other way round.\<close>

record pa_info =
  pi_addr :: u64
  pi_off :: u64
  pi_found :: bool

definition search_offset_from_pa :: "pa_info walk_fn" where
  "search_offset_from_pa start stop off i =
     (if pi_addr i \<ge> start \<and> pi_addr i \<le> stop
      then Some (- 1, i\<lparr>pi_off := pi_addr i - start + off, pi_found := True\<rparr>)
      else Some (0, i))"

definition search_pa_from_offset :: "pa_info walk_fn" where
  "search_pa_from_offset start stop off i =
     (if off \<noteq> pi_off i then Some (- 1, i\<lparr>pi_found := False\<rparr>)
      else Some (- 1, i\<lparr>pi_addr := start, pi_found := True\<rparr>))"

definition get_pa_detail_export_region :: "obmm_export_region \<Rightarrow> u64 \<Rightarrow> obmm_ext_addr \<Rightarrow> int \<times> obmm_ext_addr" where
  "get_pa_detail_export_region e_reg pa ext =
     (let i = the (walk_export_memory e_reg 0 (mem_size (e_region e_reg)) search_offset_from_pa
                     \<lparr>pi_addr = pa, pi_off = 0, pi_found = False\<rparr>)
      in if \<not> pi_found i then (- EFAULT, ext)
         else (0, ext\<lparr>ext_region_type := OBMM_EXPORT_REGION, ext_regionid := word_of_int (regionid (e_region e_reg)),
                      ext_offset := pi_off i, ext_tid := tokenid e_reg, ext_uba := uba e_reg + pi_off i,
                      ext_numa_id := NUMA_NO_NODE, ext_pa := pa\<rparr>))"

definition get_offset_detail_export_region :: "obmm_export_region \<Rightarrow> u64 \<Rightarrow> obmm_ext_addr \<Rightarrow> int \<times> obmm_ext_addr" where
  "get_offset_detail_export_region e_reg off ext =
     (if off \<ge> mem_size (e_region e_reg) then (- EINVAL, ext)
      else
        let i = the (walk_export_memory e_reg off 1 search_pa_from_offset \<lparr>pi_addr = 0, pi_off = off, pi_found = False\<rparr>)
        in if \<not> pi_found i then (- ENODATA, ext)
           else (0, ext\<lparr>ext_region_type := OBMM_EXPORT_REGION, ext_regionid := word_of_int (regionid (e_region e_reg)),
                        ext_offset := off, ext_tid := tokenid e_reg, ext_uba := uba e_reg + off,
                        ext_numa_id := NUMA_NO_NODE, ext_pa := pi_addr i\<rparr>))"

section \<open>Reference: the bytes of a region\<close>

definition sg_bytes :: "scatterlist \<Rightarrow> u64 list" where
  "sg_bytes sg = map (\<lambda>i. sg_phys sg + of_nat i) [0..<unat (sg_length sg)]"

text \<open>The physical address of every byte of a region, in the order of offsets.\<close>

definition region_bytes :: "scatterlist list \<Rightarrow> u64 list" where
  "region_bytes sgs = concat (map sg_bytes sgs)"

text \<open>The pieces that a walk visits when nothing stops it.\<close>

fun pieces :: "scatterlist list \<Rightarrow> u64 \<Rightarrow> u64 \<Rightarrow> u64 \<Rightarrow> (u64 \<times> u64 \<times> u64) list" where
  "pieces [] off len from_head = []"
| "pieces (sg # sgs) off len from_head =
     (let l = ucast (sg_length sg)
      in if off \<ge> l then pieces sgs (off - l) len (from_head + l)
         else
           let start = sg_phys sg + off; sz = min l (off + len) - off
           in (start, start + sz - 1, from_head + off)
              # (if len - sz = 0 then [] else pieces sgs 0 (len - sz) (from_head + l)))"

fun run_pieces :: "'a walk_fn \<Rightarrow> (u64 \<times> u64 \<times> u64) list \<Rightarrow> 'a \<Rightarrow> 'a option" where
  "run_pieces fn [] a = Some a"
| "run_pieces fn ((s, e, off) # ps) a =
     (case fn s e off a of
        None \<Rightarrow> None
      | Some (ret, a1) \<Rightarrow> if ret \<noteq> 0 then Some a1 else run_pieces fn ps a1)"

definition piece_bytes :: "u64 \<times> u64 \<times> u64 \<Rightarrow> u64 list" where
  "piece_bytes p = map (\<lambda>i. fst p + of_nat i) [0..<Suc (unat (fst (snd p) - fst p))]"

definition sg_total :: "scatterlist list \<Rightarrow> nat" where
  "sg_total sgs = sum_list (map (\<lambda>sg. unat (sg_length sg)) sgs)"

definition piece_offsets :: "u64 \<times> u64 \<times> u64 \<Rightarrow> u64 list" where
  "piece_offsets p = map (\<lambda>i. snd (snd p) + of_nat i) [0..<Suc (unat (fst (snd p) - fst p))]"

text \<open>No chunk runs past the end of the address space, the chunks make up the region's size, and no
  address occurs twice.\<close>

definition sgs_ok :: "obmm_export_region \<Rightarrow> bool" where
  "sgs_ok e_reg \<longleftrightarrow> (\<forall>sg \<in> set (sgt e_reg). unat (sg_phys sg) + unat (sg_length sg) \<le> 2 ^ 64)
     \<and> sg_total (sgt e_reg) = unat (mem_size (e_region e_reg)) \<and> distinct (region_bytes (sgt e_reg))"

text \<open>The kernel world after the linear mapping of some pieces was changed.\<close>

definition pgt_world :: "mm_config \<Rightarrow> 'k kmem_env \<Rightarrow> bool \<Rightarrow> (u64 \<times> u64 \<times> u64) list \<Rightarrow> 'k \<Rightarrow> 'k" where
  "pgt_world cfg env inval ps k = fold (\<lambda>(s, e, off) k. snd (set_linear_mapping_invalid env
     (drop_bit (PAGE_SHIFT cfg) s) (drop_bit (PAGE_SHIFT cfg) (e + 1)) inval k)) ps k"

definition demo_region :: obmm_region where
  "demo_region = \<lparr>regionid = 7, reg_flags = 0, device_released = 0, refcnt = 1, mem_size = 6, mmap_mode = OBMM_MMAP_INIT,
     mmap_granu = OBMM_MMAP_GRANU_NONE, mem_cap = 0, mmap_count = 0, ownership_info = None, priv_len = 0, priv = []\<rparr>"

definition demo_e_reg :: obmm_export_region where
  "demo_e_reg = \<lparr>e_region = demo_region, node_count = 1, node_mem_size = [6],
     mem_desc_pid = \<lparr>pid = 0, user_va = 0, pinned = 0, start_time = 0\<rparr>, mem_desc = [],
     sgt = [\<lparr>sg_phys = 0x1000, sg_length = 4\<rparr>, \<lparr>sg_phys = 0x800, sg_length = 2\<rparr>],
     ummu_dev = None, tokenid = 5, uba = 0x9000, vendor_len = 0, vendor_info = [], affinity = 0, e_deid = []\<rparr>"

definition demo_ext :: obmm_ext_addr where
  "demo_ext = \<lparr>ext_region_type = OBMM_IMPORT_REGION, ext_regionid = 0, ext_offset = 0, ext_tid = 0, ext_uba = 0,
     ext_numa_id = 0, ext_pa = 0\<rparr>"

text \<open>A kernel that refuses to change the first piece.\<close>

definition demo_refusing_kenv :: "(u64 list \<times> u64 list) kmem_env" where
  "demo_refusing_kenv = demo_kenv\<lparr>set_linear_mapping_invalid := (\<lambda>i j b k. (if i = 1 then - EINVAL else 0, k))\<rparr>"

section \<open>The walk visits the pieces in order\<close>

lemma walk_sgs_run: "walk_sgs fn sgs off len h a = run_pieces fn (pieces sgs off len h) a"
proof (induction sgs arbitrary: off len h a)
  case (Cons sg sgs)
  then show ?case by (simp add: Let_def split: option.split prod.split)
qed simp

lemma walk_run:
  "walk_export_memory e_reg off len fn a = run_pieces fn (if len = 0 then [] else pieces (sgt e_reg) off len 0) a"
  by (simp add: walk_export_memory_def walk_sgs_run)

text \<open>A visitor that never stops the walk folds over the pieces.\<close>

locale total_visitor =
  fixes fn :: "'a walk_fn" and step :: "u64 \<Rightarrow> u64 \<Rightarrow> u64 \<Rightarrow> 'a \<Rightarrow> 'a"
  assumes goes_on: "fn s e off a = Some (0, step s e off a)"
begin

lemma run_fold: "run_pieces fn ps a = Some (fold (\<lambda>(s, e, off). step s e off) ps a)"
proof (induction ps arbitrary: a)
  case (Cons p ps)
  then show ?case by (cases p) (simp add: goes_on)
qed simp

lemma walk_fold: "walk_export_memory e_reg off len fn a
    = Some (fold (\<lambda>(s, e, off). step s e off) (if len = 0 then [] else pieces (sgt e_reg) off len 0) a)"
  by (simp only: walk_run run_fold)

end

interpretation pgt: total_visitor "kernel_pgtable_invalid_call cfg env set_inval"
  "\<lambda>s e off a. set_linear_mapping_invalid env (drop_bit (PAGE_SHIFT cfg) s) (drop_bit (PAGE_SHIFT cfg) (e + 1)) set_inval (snd a)"
  for cfg env set_inval
  by unfold_locales (simp add: kernel_pgtable_invalid_call_def split: prod.split)

text \<open>The other visitors always return too.\<close>

lemma run_some:
  assumes "\<And>s e off a. \<exists>r. fn s e off a = Some r"
  shows "\<exists>b. run_pieces fn ps a = Some b"
proof (induction ps arbitrary: a)
  case (Cons p ps)
  obtain s e off where p: "p = (s, e, off)" by (cases p)
  obtain r b where "fn s e off a = Some (r, b)" using assms by (metis surj_pair)
  then show ?case using Cons p by simp
qed simp

lemma map_range_some: "\<exists>r. map_range_call cfg env vma mg s e off a = Some r"
  by (auto simp: map_range_call_def Let_def split: prod.split)

section \<open>Lengths\<close>

lemma sg_total_simps [simp]: "sg_total [] = 0" "sg_total (sg # sgs) = unat (sg_length sg) + sg_total sgs"
  by (simp_all add: sg_total_def)

lemma length_sg_bytes [simp]: "length (sg_bytes sg) = unat (sg_length sg)"
  by (simp add: sg_bytes_def)

lemma region_bytes_simps [simp]: "region_bytes [] = []" "region_bytes (sg # sgs) = sg_bytes sg @ region_bytes sgs"
  by (simp_all add: region_bytes_def)

lemma length_region_bytes [simp]: "length (region_bytes sgs) = sg_total sgs"
  by (induction sgs) simp_all

lemma unat_sg_length: "unat (ucast (sg_length sg) :: u64) = unat (sg_length sg)"
  proof -
  have "unat (sg_length sg) < 2 ^ 32" using unsigned_less [of "sg_length sg"] by simp
  then have "unat (sg_length sg) < 2 ^ 64" by simp
  then show ?thesis by (simp add: unsigned_ucast_eq take_bit_word_eq_self unsigned_take_bit_eq take_bit_nat_eq_self)
qed

text \<open>The size that one step of the walk takes from an element.\<close>

lemma unat_piece_size:
  fixes l off len :: u64
  assumes "off < l" and "unat off + unat len < 2 ^ 64"
  shows "unat (min l (off + len) - off) = min (unat l - unat off) (unat len)"
proof -
  have o: "unat off < unat l" using assms(1) by (simp add: word_less_nat_alt)
  have s: "unat (off + len) = unat off + unat len"
    using assms(2) by (subst unat_add_lem [THEN iffD1]) simp_all
  have "unat (min l (off + len)) = min (unat l) (unat off + unat len)"
    by (simp add: min_def word_le_nat_alt s)
  moreover have "off \<le> min l (off + len)"
    using o s by (simp add: word_le_nat_alt)
  ultimately show ?thesis using o by (simp add: unat_sub)
qed

lemma piece_bytes_take:
  fixes st sz :: u64
  assumes "sz \<noteq> 0"
  shows "piece_bytes (st, st + sz - 1, h) = map (\<lambda>i. st + of_nat i) [0..<unat sz]"
proof -
  have "st + sz - 1 - st = sz - 1" by simp
  moreover have "Suc (unat (sz - 1)) = unat sz"
    using assms by (simp add: unat_minus_one) (metis Suc_pred unat_gt_0)
  ultimately show ?thesis by (simp add: piece_bytes_def del: upt_Suc)
qed

lemma sg_slice:
  assumes "a \<le> unat (sg_length sg)" and "n \<le> unat (sg_length sg) - a"
  shows "take n (drop a (sg_bytes sg)) = map (\<lambda>i. sg_phys sg + of_nat a + of_nat i) [0..<n]"
proof (rule nth_equalityI)
  fix i
  assume "i < length (take n (drop a (sg_bytes sg)))"
  then have "i < n" and "a + i < unat (sg_length sg)" using assms by auto
  then show "take n (drop a (sg_bytes sg)) ! i = map (\<lambda>i. sg_phys sg + of_nat a + of_nat i) [0..<n] ! i"
    by (simp add: sg_bytes_def)
qed (use assms in simp)

lemma piece_offsets_take:
  fixes st sz h :: u64
  assumes "sz \<noteq> 0"
  shows "piece_offsets (st, st + sz - 1, h) = map (\<lambda>i. h + of_nat i) [0..<unat sz]"
proof -
  have "st + sz - 1 - st = sz - 1" by simp
  moreover have "Suc (unat (sz - 1)) = unat sz"
    using assms by (simp add: unat_minus_one) (metis Suc_pred unat_gt_0)
  ultimately show ?thesis by (simp add: piece_offsets_def del: upt_Suc)
qed

lemma upt_shift_append:
  "map (\<lambda>i. (x :: u64) + of_nat i) [0..<m] @ map (\<lambda>i. x + of_nat m + of_nat i) [0..<n] = map (\<lambda>i. x + of_nat i) [0..<m + n]"
proof -
  have "[0..<m + n] = [0..<m] @ map (\<lambda>i. i + m) [0..<n]"
    by (simp add: upt_add_eq_append [of 0] map_add_upt add.commute)
  then show ?thesis by (simp add: add.assoc add.commute [of _ "of_nat m"] comp_def)
qed

text \<open>One step of the walk, in natural numbers.\<close>

lemma pieces_step:
  fixes off len :: u64
  assumes lo: "off < ucast (sg_length sg)" and tot: "unat off + unat len < 2 ^ 64" and ne: "len \<noteq> 0"
  defines "sz \<equiv> min (ucast (sg_length sg)) (off + len) - off"
  shows "unat sz = min (unat (sg_length sg) - unat off) (unat len)" and "sz \<noteq> 0"
    and "unat (len - sz) = unat len - unat sz"
    and "len - sz \<noteq> 0 \<Longrightarrow> unat sz = unat (sg_length sg) - unat off"
proof -
  show s: "unat sz = min (unat (sg_length sg) - unat off) (unat len)"
    using unat_piece_size [OF lo tot] by (simp add: sz_def unat_sg_length)
  have lo': "unat off < unat (sg_length sg)" using lo by (simp add: word_less_nat_alt unat_sg_length)
  have len0: "0 < unat len" using ne by (simp add: unat_gt_0)
  have "0 < unat sz" using s lo' len0 by simp
  then show "sz \<noteq> 0" by auto
  have le: "sz \<le> len" using s by (simp add: word_le_nat_alt)
  then show d: "unat (len - sz) = unat len - unat sz" by (simp add: unat_sub)
  show "unat sz = unat (sg_length sg) - unat off" if "len - sz \<noteq> 0"
  proof -
    have "0 < unat (len - sz)" using that by (simp add: unat_gt_0)
    then show ?thesis using d s by linarith
  qed
qed

text \<open>Induction over a walk that stays in the region: an element before the offset is skipped, the
  last element is used in part or in whole, any other one to its end.\<close>

lemma pieces_induct [consumes 3, case_names skip last_piece more]:
  fixes off len h :: u64
  assumes "unat off + unat len \<le> sg_total sgs" and "sg_total sgs < 2 ^ 64" and "len \<noteq> 0"
    and skip: "\<And>sg sgs off off1 len h.
      unat (sg_length sg) \<le> unat off \<Longrightarrow> unat off1 = unat off - unat (sg_length sg) \<Longrightarrow> off = off1 + ucast (sg_length sg)
      \<Longrightarrow> pieces (sg # sgs) off len h = pieces sgs off1 len (h + ucast (sg_length sg))
      \<Longrightarrow> P sgs off1 len (h + ucast (sg_length sg)) \<Longrightarrow> P (sg # sgs) off len h"
    and last_piece: "\<And>sg sgs off len h.
      len \<noteq> 0 \<Longrightarrow> unat off + unat len \<le> unat (sg_length sg)
      \<Longrightarrow> pieces (sg # sgs) off len h = [(sg_phys sg + off, sg_phys sg + off + len - 1, h + off)]
      \<Longrightarrow> P (sg # sgs) off len h"
    and more: "\<And>sg sgs off len h sz.
      sz \<noteq> 0 \<Longrightarrow> unat off + unat sz = unat (sg_length sg) \<Longrightarrow> unat len = unat sz + unat (len - sz)
      \<Longrightarrow> ucast (sg_length sg) = off + sz
      \<Longrightarrow> pieces (sg # sgs) off len h = (sg_phys sg + off, sg_phys sg + off + sz - 1, h + off)
              # pieces sgs 0 (len - sz) (h + ucast (sg_length sg))
      \<Longrightarrow> P sgs 0 (len - sz) (h + ucast (sg_length sg)) \<Longrightarrow> P (sg # sgs) off len h"
  shows "P sgs off len h"
  using assms(1-3)
proof (induction sgs arbitrary: off len h)
  case Nil
  then show ?case by (simp add: unat_eq_zero)
next
  case (Cons sg sgs off len h)
  define l :: u64 where "l = ucast (sg_length sg)"
  have ul: "unat l = unat (sg_length sg)" by (simp add: l_def unat_sg_length)
  show ?case
  proof (cases "l \<le> off")
    case True
    then have le: "unat (sg_length sg) \<le> unat off" by (simp add: word_le_nat_alt ul)
    have d: "unat (off - l) = unat off - unat (sg_length sg)" using True by (simp add: unat_sub ul)
    have "P sgs (off - l) len (h + l)" using Cons.IH [of "off - l" len "h + l"] Cons.prems d le by simp
    then show ?thesis using skip [of sg off "off - l" sgs len h] le d True by (simp add: l_def Let_def)
  next
    case False
    then have lo: "off < ucast (sg_length sg)" by (simp add: l_def)
    have tot: "unat off + unat len < 2 ^ 64" using Cons.prems by linarith
    define sz where "sz = min (ucast (sg_length sg)) (off + len) - off"
    note st = pieces_step [OF lo tot Cons.prems(3), folded sz_def]
    have lo': "unat off < unat (sg_length sg)" using lo by (simp add: word_less_nat_alt unat_sg_length)
    have eq: "pieces (sg # sgs) off len h = (sg_phys sg + off, sg_phys sg + off + sz - 1, h + off)
        # (if len - sz = 0 then [] else pieces sgs 0 (len - sz) (h + ucast (sg_length sg)))"
      unfolding sz_def using lo by (simp only: pieces.simps Let_def not_le [symmetric] if_False)
    show ?thesis
    proof (cases "len - sz = 0")
      case True
      then have ls: "sz = len" by simp
      have "unat len \<le> unat (sg_length sg) - unat off" using st(1) unfolding ls by linarith
      then have b: "unat off + unat len \<le> unat (sg_length sg)" using lo' by linarith
      have "pieces (sg # sgs) off len h = [(sg_phys sg + off, sg_phys sg + off + len - 1, h + off)]"
        using eq True unfolding ls by simp
      then show ?thesis by (rule last_piece [OF Cons.prems(3) b])
    next
      case rest: False
      have os: "unat off + unat sz = unat (sg_length sg)" using st(4) [OF rest] lo' by simp
      have ls: "unat len = unat sz + unat (len - sz)" using st(1,3) by simp
      have "of_nat (unat off + unat sz) = (of_nat (unat l) :: u64)" using os ul by simp
      then have w: "ucast (sg_length sg) = off + sz" by (simp add: l_def)
      have "P sgs 0 (len - sz) (h + ucast (sg_length sg))"
        using Cons.IH [of 0 "len - sz" "h + ucast (sg_length sg)"] Cons.prems os ls rest by simp
      then show ?thesis using more [OF st(2) os ls w] eq rest by simp
    qed
  qed
qed

declare pieces.simps(2) [simp del]

lemma pieces_slice:
  assumes "unat off + unat len \<le> sg_total sgs" and "sg_total sgs < 2 ^ 64" and "len \<noteq> 0"
  shows "concat (map piece_bytes (pieces sgs off len h)) = take (unat len) (drop (unat off) (region_bytes sgs))"
  using assms
proof (induction sgs off len h rule: pieces_induct)
  case (last_piece sg sgs off len h)
  then show ?case using piece_bytes_take [of len] sg_slice [of "unat off" sg "unat len"] by simp
next
  case (more sg sgs off len h sz)
  have "piece_bytes (sg_phys sg + off, sg_phys sg + off + sz - 1, h + off) = drop (unat off) (sg_bytes sg)"
    using piece_bytes_take [OF more(1)] sg_slice [of "unat off" sg "unat sz"] more(2) by simp
  moreover have "unat (sg_length sg) - unat off = unat sz" using more(2) by simp
  moreover have "unat off - unat (sg_length sg) = 0" using more(2) by simp
  ultimately show ?case using more(3,5,6) by simp
qed simp

lemma pieces_offsets:
  assumes "unat off + unat len \<le> sg_total sgs" and "sg_total sgs < 2 ^ 64" and "len \<noteq> 0"
  shows "concat (map piece_offsets (pieces sgs off len h)) = map (\<lambda>i. h + off + of_nat i) [0..<unat len]"
  using assms
proof (induction sgs off len h rule: pieces_induct)
  case (skip sg sgs off off1 len h)
  then show ?case by (simp add: ac_simps)
next
  case (last_piece sg sgs off len h)
  then show ?case using piece_offsets_take [of len] by simp
next
  case (more sg sgs off len h sz)
  have "h + ucast (sg_length sg) = h + off + of_nat (unat sz)" using more(4) by (simp add: ac_simps)
  then have "concat (map piece_offsets (pieces (sg # sgs) off len h))
      = map (\<lambda>i. h + off + of_nat i) [0..<unat sz] @ map (\<lambda>i. h + off + of_nat (unat sz) + of_nat i) [0..<unat (len - sz)]"
    using more(5,6) piece_offsets_take [OF more(1)] by simp
  then show ?case by (simp only: upt_shift_append more(3))
qed

section \<open>Lookups\<close>

lemma piece_no_wrap:
  fixes p off sz :: u64
  assumes "sz \<noteq> 0" and "unat p + (unat off + unat sz) \<le> 2 ^ 64"
  shows "p + off \<le> p + off + sz - 1"
proof -
  have pos: "0 < unat sz" using assms(1) by (simp add: unat_gt_0)
  have d: "unat (sz - 1) = unat sz - 1" using assms(1) by (simp add: unat_minus_one)
  have a: "unat (p + off) = unat p + unat off" using assms(2) pos by (simp add: unat_word_ariths)
  have "unat (p + off + (sz - 1)) = unat p + unat off + unat (sz - 1)"
    using assms(2) pos d by (subst unat_word_ariths) (simp add: a)
  then have "p + off \<le> p + off + (sz - 1)" using a by (simp add: word_le_nat_alt)
  then show ?thesis by (simp add: add_diff_eq)
qed

lemma pieces_no_wrap:
  assumes "unat off + unat len \<le> sg_total sgs" and "sg_total sgs < 2 ^ 64" and "len \<noteq> 0"
  shows "(\<forall>sg \<in> set sgs. unat (sg_phys sg) + unat (sg_length sg) \<le> 2 ^ 64)
    \<longrightarrow> (\<forall>(s, e, x) \<in> set (pieces sgs off len h). s \<le> e)"
  using assms
proof (induction sgs off len h rule: pieces_induct)
  case (last_piece sg sgs off len h)
  have "sg_phys sg + off \<le> sg_phys sg + off + len - 1" if "unat (sg_phys sg) + unat (sg_length sg) \<le> 2 ^ 64"
    using that last_piece(1,2) by (intro piece_no_wrap) simp_all
  then show ?case using last_piece(3) by simp
next
  case (more sg sgs off len h sz)
  have "sg_phys sg + off \<le> sg_phys sg + off + sz - 1" if "unat (sg_phys sg) + unat (sg_length sg) \<le> 2 ^ 64"
    using that more(1,2) by (intro piece_no_wrap) simp_all
  then show ?case using more(5,6) by simp
qed simp

lemma mem_piece:
  assumes "s \<le> e"
  shows "x \<in> set (piece_bytes (s, e, h)) \<longleftrightarrow> s \<le> x \<and> x \<le> e"
proof
  assume "x \<in> set (piece_bytes (s, e, h))"
  then obtain i where i: "i \<le> unat (e - s)" and x: "x = s + of_nat i"
    by (auto simp: piece_bytes_def less_Suc_eq_le simp del: upt_Suc)
  have es: "unat (e - s) = unat e - unat s" and le: "unat s \<le> unat e"
    using assms by (simp_all add: unat_sub word_le_nat_alt)
  have "unat e < 2 ^ 64" using unsigned_less [of e] by simp
  then have "unat s + i < 2 ^ 64" using i es le by linarith
  then have "unat x = unat s + i"
    using x by (simp add: unat_word_ariths unat_of_nat)
  then show "s \<le> x \<and> x \<le> e" using i es le by (simp add: word_le_nat_alt)
next
  assume x: "s \<le> x \<and> x \<le> e"
  then have "unat (x - s) < Suc (unat (e - s))"
    using assms by (simp add: unat_sub word_le_nat_alt less_Suc_eq_le diff_le_mono)
  then show "x \<in> set (piece_bytes (s, e, h))"
    by (auto simp: piece_bytes_def image_iff simp del: upt_Suc intro!: bexI [of _ "unat (x - s)"])
qed

lemma search_none:
  assumes "\<forall>(s, e, x) \<in> set ps. s \<le> e" and "pi_addr i \<notin> set (concat (map piece_bytes ps))"
  shows "run_pieces search_offset_from_pa ps i = Some i"
  using assms
proof (induction ps)
  case (Cons p ps)
  obtain s e h where p: "p = (s, e, h)" by (cases p)
  then show ?case using Cons mem_piece [of s e "pi_addr i" h]
    by (auto simp: search_offset_from_pa_def)
qed simp

lemma search_finds:
  assumes "\<forall>(s, e, x) \<in> set ps. s \<le> e" and "distinct (concat (map piece_bytes ps))"
    and "j < length (concat (map piece_bytes ps))" and "pi_addr i = concat (map piece_bytes ps) ! j"
  shows "run_pieces search_offset_from_pa ps i = Some (i\<lparr>pi_off := concat (map piece_offsets ps) ! j, pi_found := True\<rparr>)"
  using assms
proof (induction ps arbitrary: j)
  case (Cons p ps)
  obtain s e h where p: "p = (s, e, h)" by (cases p)
  have se: "s \<le> e" using Cons.prems(1) p by simp
  have lens: "length (piece_bytes p) = Suc (unat (e - s))" "length (piece_offsets p) = Suc (unat (e - s))"
    by (simp_all add: p piece_bytes_def piece_offsets_def del: upt_Suc)
  show ?case
  proof (cases "j < length (piece_bytes p)")
    case True
    have ij: "pi_addr i = piece_bytes p ! j" using Cons.prems(4) True by (simp add: nth_append)
    then have "pi_addr i \<in> set (piece_bytes p)" using True nth_mem by metis
    then have r: "s \<le> pi_addr i \<and> pi_addr i \<le> e" using mem_piece [OF se] p by metis
    have v: "pi_addr i = s + of_nat j"
      using ij True lens p by (simp add: piece_bytes_def del: upt_Suc)
    have "concat (map piece_offsets (p # ps)) ! j = h + of_nat j"
      using True lens p by (simp add: nth_append piece_offsets_def del: upt_Suc)
    then show ?thesis using r v p by (simp add: search_offset_from_pa_def add.commute)
  next
    case False
    have "pi_addr i = concat (map piece_bytes ps) ! (j - length (piece_bytes p))"
      using Cons.prems(4) False by (simp add: nth_append)
    moreover have "j - length (piece_bytes p) < length (concat (map piece_bytes ps))"
      using Cons.prems(3) False by simp
    ultimately have tl: "run_pieces search_offset_from_pa ps i
        = Some (i\<lparr>pi_off := concat (map piece_offsets ps) ! (j - length (piece_bytes p)), pi_found := True\<rparr>)"
      and "pi_addr i \<in> set (concat (map piece_bytes ps))"
      using Cons.IH [of "j - length (piece_bytes p)"] Cons.prems(1,2) by (simp, metis nth_mem)
    then have "pi_addr i \<notin> set (piece_bytes p)" using Cons.prems(2) by auto
    then have "\<not> (s \<le> pi_addr i \<and> pi_addr i \<le> e)" using mem_piece [OF se] p by metis
    then have "search_offset_from_pa s e h i = Some (0, i)" by (auto simp: search_offset_from_pa_def)
    then show ?thesis using p tl False lens by (simp add: nth_append)
  qed
qed simp

lemma piece_bytes_Cons: "\<exists>xs. piece_bytes p = fst p # xs" and piece_offsets_Cons: "\<exists>xs. piece_offsets p = snd (snd p) # xs"
  by (simp_all add: piece_bytes_def piece_offsets_def upt_conv_Cons del: upt_Suc)

text \<open>A walk over one byte visits one piece.\<close>

lemma pieces_one:
  assumes "unat off < sg_total sgs" and "sg_total sgs < 2 ^ 64"
  shows "\<exists>e ps. pieces sgs off 1 0 = (region_bytes sgs ! unat off, e, off) # ps"
proof -
  have one: "unat off + unat (1 :: u64) \<le> sg_total sgs" using assms(1) by simp
  have b: "concat (map piece_bytes (pieces sgs off 1 0)) = [region_bytes sgs ! unat off]"
    using pieces_slice [OF one assms(2)] assms(1)
    by (simp add: take_Suc_conv_app_nth [of 0, simplified] Cons_nth_drop_Suc [symmetric])
  have o: "concat (map piece_offsets (pieces sgs off 1 0)) = [off]"
    using pieces_offsets [OF one assms(2), of 0] by simp
  obtain p ps where p: "pieces sgs off 1 0 = p # ps" using b by (cases "pieces sgs off 1 0") auto
  have "fst p = region_bytes sgs ! unat off" "snd (snd p) = off"
    using b o p piece_bytes_Cons [of p] piece_offsets_Cons [of p] by auto
  then show ?thesis using p by (cases p) auto
qed

lemma pgt_fold_snd: "snd (fold (\<lambda>(s, e, off) a. set_linear_mapping_invalid env (drop_bit (PAGE_SHIFT cfg) s)
      (drop_bit (PAGE_SHIFT cfg) (e + 1)) inval (snd a)) ps a) = pgt_world cfg env inval ps (snd a)"
  unfolding pgt_world_def by (induction ps rule: rev_induct) (simp_all split: prod.split)

text \<open>C20: a walk of a part of a region visits exactly the bytes of that part, in order and each once,
  whatever the visitor does: it runs the visitor over pieces whose addresses are the slice of the region
  and whose offsets count through it, until the visitor stops it.\<close>

theorem walk_visits_slice:
  assumes "sg_total (sgt e_reg) < 2 ^ 64" and "unat off + unat len \<le> sg_total (sgt e_reg)"
  shows "\<exists>ps. walk_export_memory e_reg off len fn a = run_pieces fn ps a
    \<and> concat (map piece_bytes ps) = take (unat len) (drop (unat off) (region_bytes (sgt e_reg)))
    \<and> concat (map piece_offsets ps) = map (\<lambda>i. off + of_nat i) [0..<unat len]"
proof (intro exI conjI)
  let ?ps = "if len = 0 then [] else pieces (sgt e_reg) off len 0"
  show "walk_export_memory e_reg off len fn a = run_pieces fn ?ps a" by (rule walk_run)
  show "concat (map piece_bytes ?ps) = take (unat len) (drop (unat off) (region_bytes (sgt e_reg)))"
    using pieces_slice [OF assms(2,1)] by simp
  show "concat (map piece_offsets ?ps) = map (\<lambda>i. off + of_nat i) [0..<unat len]"
    using pieces_offsets [OF assms(2,1), of 0] by simp
qed

text \<open>The two lookups are inverse to each other: every offset of a region has a physical address, that
  address is found again at the same offset, and an address outside the region is refused.\<close>

lemma pa_offset_inverse:
  assumes "sgs_ok e_reg"
  shows "(\<forall>off < mem_size (e_region e_reg). \<exists>ext1 ext2.
      get_offset_detail_export_region e_reg off ext = (0, ext1) \<and> ext_pa ext1 = region_bytes (sgt e_reg) ! unat off
      \<and> get_pa_detail_export_region e_reg (ext_pa ext1) ext = (0, ext2) \<and> ext_offset ext2 = off \<and> ext2 = ext1)
    \<and> (\<forall>pa. pa \<notin> set (region_bytes (sgt e_reg)) \<longrightarrow> get_pa_detail_export_region e_reg pa ext = (- EFAULT, ext))"
proof -
  let ?sgs = "sgt e_reg" and ?sz = "mem_size (e_region e_reg)"
  let ?ps = "if ?sz = 0 then [] else pieces ?sgs 0 ?sz 0"
  have t: "sg_total ?sgs = unat ?sz" "sg_total ?sgs < 2 ^ 64" "distinct (region_bytes ?sgs)"
    using assms unsigned_less [of ?sz] by (simp_all add: sgs_ok_def)
  have le: "unat (0 :: u64) + unat ?sz \<le> sg_total ?sgs" using t(1) by simp
  have nw: "\<forall>(s, e, x) \<in> set ?ps. s \<le> e"
    using pieces_no_wrap [OF le t(2), of 0] assms by (simp add: sgs_ok_def)
  have b: "concat (map piece_bytes ?ps) = region_bytes ?sgs"
    using pieces_slice [OF le t(2), of 0] t(1) length_region_bytes [of ?sgs] by (auto simp del: length_region_bytes)
  have o: "concat (map piece_offsets ?ps) = map of_nat [0..<unat ?sz]"
    using pieces_offsets [OF le t(2), of 0] by (simp cong: map_cong)
  have "\<exists>ext1 ext2. get_offset_detail_export_region e_reg off ext = (0, ext1) \<and> ext_pa ext1 = region_bytes ?sgs ! unat off
      \<and> get_pa_detail_export_region e_reg (ext_pa ext1) ext = (0, ext2) \<and> ext_offset ext2 = off \<and> ext2 = ext1"
    if off: "off < ?sz" for off
  proof -
    have u: "unat off < unat ?sz" using off by (simp add: word_less_nat_alt)
    let ?pa = "region_bytes ?sgs ! unat off"
    obtain e ps where "pieces ?sgs off 1 0 = (?pa, e, off) # ps" using pieces_one [OF _ t(2)] u t(1) by metis
    then have g: "walk_export_memory e_reg off 1 search_pa_from_offset \<lparr>pi_addr = 0, pi_off = off, pi_found = False\<rparr>
        = Some \<lparr>pi_addr = ?pa, pi_off = off, pi_found = True\<rparr>"
      by (simp add: walk_run search_pa_from_offset_def)
    have "run_pieces search_offset_from_pa ?ps \<lparr>pi_addr = ?pa, pi_off = 0, pi_found = False\<rparr>
        = Some \<lparr>pi_addr = ?pa, pi_off = map of_nat [0..<unat ?sz] ! unat off, pi_found = True\<rparr>"
      using search_finds [OF nw, of "unat off" "\<lparr>pi_addr = ?pa, pi_off = 0, pi_found = False\<rparr>", unfolded b o] t u by simp
    then have "walk_export_memory e_reg 0 ?sz search_offset_from_pa \<lparr>pi_addr = ?pa, pi_off = 0, pi_found = False\<rparr>
        = Some \<lparr>pi_addr = ?pa, pi_off = off, pi_found = True\<rparr>"
      unfolding walk_run using u by simp
    then show ?thesis using g off
      by (simp add: get_offset_detail_export_region_def get_pa_detail_export_region_def not_le)
  qed
  moreover have "get_pa_detail_export_region e_reg pa ext = (- EFAULT, ext)" if "pa \<notin> set (region_bytes ?sgs)" for pa
    using search_none [OF nw, of "\<lparr>pi_addr = pa, pi_off = 0, pi_found = False\<rparr>", unfolded b] that
    by (simp add: get_pa_detail_export_region_def walk_run)
  ultimately show ?thesis by blast
qed

text \<open>C37: changing the kernel's mapping of a part of a region reports the result for the last piece only:
  an error for an earlier piece is lost when the last piece succeeds.\<close>

theorem pgtable_reports_last_piece:
  assumes "off mod memseg = 0" "len mod memseg = 0" "len \<noteq> 0"
    and "pieces (sgt e_reg) off len 0 = ps @ [(s, e, x)]"
  shows "kernel_pgtable_set_export_invalid cfg env memseg e_reg off len inval k
    = set_linear_mapping_invalid env (drop_bit (PAGE_SHIFT cfg) s) (drop_bit (PAGE_SHIFT cfg) (e + 1)) inval
        (pgt_world cfg env inval ps k)"
  using assms by (simp add: kernel_pgtable_set_export_invalid_def pgt.walk_fold pgt_fold_snd)

theorem walk_visits_slice_witness:
  "\<exists>ps. walk_export_memory demo_e_reg 3 2 (\<lambda>s e off l. Some (0, (s, e, off) # l)) [] = run_pieces (\<lambda>s e off l. Some (0, (s, e, off) # l)) ps []
    \<and> concat (map piece_bytes ps) = take (unat (2 :: u64)) (drop (unat (3 :: u64)) (region_bytes (sgt demo_e_reg)))
    \<and> concat (map piece_offsets ps) = map (\<lambda>i. 3 + of_nat i) [0..<unat (2 :: u64)]"
  by (rule walk_visits_slice) (simp_all add: demo_e_reg_def)

lemma demo_pieces: "pieces (sgt demo_e_reg) 0 6 0 = [(0x1000, 0x1003, 0)] @ [(0x800, 0x801, 4)]"
  by (simp add: demo_e_reg_def pieces.simps)

theorem pgtable_reports_last_piece_witness:
  "fst (set_linear_mapping_invalid demo_refusing_kenv (drop_bit 12 0x1000) (drop_bit 12 (0x1003 + 1)) True ([], [])) \<noteq> 0
    \<and> kernel_pgtable_set_export_invalid \<lparr>PAGE_SHIFT = 12, PMD_SHIFT = 21, PUD_SHIFT = 30\<rparr> demo_refusing_kenv 2 demo_e_reg 0 6 True ([], [])
      = (0, [], [])"
  using pgtable_reports_last_piece [OF _ _ _ demo_pieces, of 2 "\<lparr>PAGE_SHIFT = 12, PMD_SHIFT = 21, PUD_SHIFT = 30\<rparr>" demo_refusing_kenv True "([], [])"]
  by (simp add: demo_refusing_kenv_def pgt_world_def)

end
