(* ===== verification/Obmm_Export_Pool.thy ===== *)
theory Obmm_Export_Pool
  imports Obmm_Export_Walk
begin

text \<open>
  Memory for exported regions from the pool (\<^verbatim>\<open>drivers/ub/obmm/obmm_export_from_pool.c\<close>) and the checks and
  copies of user data that all exports share (\<^verbatim>\<open>obmm_export.c\<close>, \<^verbatim>\<open>obmm_core.c\<close>).  The segments that the
  pool hands out are merged into runs and described by a scatter list whose elements are at most 2G
  long; the list is allocated with a size that is counted beforehand.
\<close>

section \<open>Kernel services\<close>

text \<open>What the export code uses beside the pool: allocations, copies from user space, the topology of the
  machine, and the UMMU device that makes memory reachable from other hosts.  \<open>dma_map_sgtable\<close> also
  returns what \<open>sg_dma_address\<close> reads afterwards.\<close>

record 'k exp_env =
  exp_kenv :: "'k kmem_env"
  exp_alloc :: "'k \<Rightarrow> bool \<times> 'k"
  copy_from_user :: "u64 \<Rightarrow> nat \<Rightarrow> 'k \<Rightarrow> u8 list option"
  sg_alloc_table :: "u32 \<Rightarrow> 'k \<Rightarrow> int \<times> 'k"
  cpumask_of_node :: "nat \<Rightarrow> nat list"
  topology_physical_package_id :: "nat \<Rightarrow> int"
  ummu_core_alloc_tdev :: "u8 list \<Rightarrow> u32 \<Rightarrow> 'k \<Rightarrow> nat option \<times> u32 \<times> 'k"
  ummu_core_free_tdev :: "nat \<Rightarrow> 'k \<Rightarrow> int \<times> 'k"
  dma_map_sgtable :: "nat \<Rightarrow> scatterlist list \<Rightarrow> 'k \<Rightarrow> int \<times> u64 \<times> 'k"
  dma_unmap_sgtable :: "nat \<Rightarrow> scatterlist list \<Rightarrow> 'k \<Rightarrow> 'k"

definition set_kmem :: "'k \<Rightarrow> 'k ubmempool \<Rightarrow> 'k ubmempool" where
  "set_kmem k st = st\<lparr>mpw := (mpw st)\<lparr>kmem := k\<rparr>\<rparr>"

abbreviation kmem_of :: "'k ubmempool \<Rightarrow> 'k" where "kmem_of st \<equiv> kmem (mpw st)"

record obmm_cmd_export =
  ex_size :: "u64 list"
  ex_length :: u64
  ex_flags :: u64
  ex_uba :: u64
  ex_mem_id :: u64
  ex_tokenid :: u32
  ex_pxm_numa :: int
  ex_priv_len :: u16
  ex_vendor_len :: u16
  ex_deid :: "u8 list"
  ex_seid :: "u8 list"
  ex_vendor_info :: u64
  ex_priv :: u64

section \<open>Packages\<close>

definition nid_to_package_id :: "'k exp_env \<Rightarrow> nat \<Rightarrow> int" where
  "nid_to_package_id env nd =
     (if \<not> is_online_local_node (numa (exp_kenv env)) (int nd) then - 1
      else case cpumask_of_node env nd of [] \<Rightarrow> - 1 | cpu # _ \<Rightarrow> topology_physical_package_id env cpu)"

fun nodes_package_loop :: "'k exp_env \<Rightarrow> nat list \<Rightarrow> int \<Rightarrow> int" where
  "nodes_package_loop env [] package_id = package_id"
| "nodes_package_loop env (nd # nds) package_id =
     (let this_package_id = nid_to_package_id env nd
      in if this_package_id = - 1 then - 1
         else if package_id = - 1 then nodes_package_loop env nds this_package_id
         else if package_id \<noteq> this_package_id then - 1
         else nodes_package_loop env nds package_id)"

text \<open>A node mask is a set of nodes; the loops visit it in increasing order.\<close>

definition get_nodes_package :: "'k exp_env \<Rightarrow> nat set \<Rightarrow> int" where
  "get_nodes_package env nodes = nodes_package_loop env (sorted_list_of_set nodes) (- 1)"

definition nodes_on_same_package :: "'k exp_env \<Rightarrow> nat set \<Rightarrow> bool" where
  "nodes_on_same_package env nodes \<longleftrightarrow> get_nodes_package env nodes \<noteq> - 1"

section \<open>Scatter lists for segments\<close>

abbreviation (input) MAX_CHUNK_SHIFT :: nat where "MAX_CHUNK_SHIFT \<equiv> 31"

abbreviation (input) MAX_CHUNK_SIZE :: u64 where "MAX_CHUNK_SIZE \<equiv> 0x80000000"

abbreviation (input) MAX_CHUNK_MASK :: u64 where "MAX_CHUNK_MASK \<equiv> 0x7fffffff"

definition size_to_chunk_count :: "u64 \<Rightarrow> u64" where
  "size_to_chunk_count sz = drop_bit MAX_CHUNK_SHIFT sz + (if sz AND MAX_CHUNK_MASK \<noteq> 0 then 1 else 0)"

fun chunk_count_loop :: "u64 \<Rightarrow> u64 \<Rightarrow> u64 \<Rightarrow> u64 \<Rightarrow> memseg_node list \<Rightarrow> u64" where
  "chunk_count_loop memseg start stop chunk_count [] = chunk_count + size_to_chunk_count (stop - start)"
| "chunk_count_loop memseg start stop chunk_count (node # ns) =
     (if stop = addr node then chunk_count_loop memseg start (stop + memseg) chunk_count ns
      else chunk_count_loop memseg (addr node) (addr node + memseg) (chunk_count + size_to_chunk_count (stop - start)) ns)"

definition memseg_list_to_chunk_count :: "u64 \<Rightarrow> memseg_node list \<Rightarrow> u64" where
  "memseg_list_to_chunk_count memseg head = chunk_count_loop memseg 0 0 0 head"

text \<open>The pointer into a scatter list that is being filled: how many elements are left (none when it is
  null), and the elements already filled.\<close>

type_synonym sg_cursor = "nat \<times> scatterlist list"

fun fill_chunks_loop :: "mm_config \<Rightarrow> nat \<Rightarrow> u64 \<Rightarrow> u64 \<Rightarrow> u64 \<Rightarrow> sg_cursor \<Rightarrow> u64 \<times> sg_cursor" where
  "fill_chunks_loop cfg 0 start sz filled s = (filled, s)"
| "fill_chunks_loop cfg (Suc n) start sz filled s =
     (if fst s = 0 then (filled, s)
      else
        let chunk_size = (if sz > MAX_CHUNK_SIZE then MAX_CHUNK_SIZE else sz);
            sg = \<lparr>sg_phys = push_bit (PAGE_SHIFT cfg) (drop_bit (PAGE_SHIFT cfg) start), sg_length = ucast chunk_size\<rparr>
        in fill_chunks_loop cfg n (start + chunk_size) (sz - chunk_size) (filled + 1) (fst s - 1, snd s @ [sg]))"

definition fill_sg_chunks :: "mm_config \<Rightarrow> sg_cursor \<Rightarrow> u64 \<Rightarrow> u64 \<Rightarrow> u64 \<times> sg_cursor" where
  "fill_sg_chunks cfg s start sz = fill_chunks_loop cfg (unat (size_to_chunk_count sz)) start sz 0 s"

fun fill_list_loop :: "mm_config \<Rightarrow> u64 \<Rightarrow> u64 \<Rightarrow> u64 \<Rightarrow> u64 \<Rightarrow> sg_cursor \<Rightarrow> memseg_node list \<Rightarrow> u64 \<times> sg_cursor" where
  "fill_list_loop cfg memseg start stop filled s [] =
     (if stop \<noteq> 0 then let (chunk_count, s1) = fill_sg_chunks cfg s start (stop - start) in (filled + chunk_count, s1)
      else (filled, s))"
| "fill_list_loop cfg memseg start stop filled s (node # ns) =
     (if stop = addr node then fill_list_loop cfg memseg start (stop + memseg) filled s ns
      else
        let (filled1, s1) = (if stop \<noteq> 0
               then let (chunk_count, s1) = fill_sg_chunks cfg s start (stop - start) in (filled + chunk_count, s1)
               else (filled, s))
        in fill_list_loop cfg memseg (addr node) (addr node + memseg) filled1 s1 ns)"

definition fill_sg_list :: "mm_config \<Rightarrow> u64 \<Rightarrow> sg_cursor \<Rightarrow> memseg_node list \<Rightarrow> u64 \<times> sg_cursor" where
  "fill_sg_list cfg memseg s head = fill_list_loop cfg memseg 0 0 0 s head"

fun fill_all :: "mm_config \<Rightarrow> u64 \<Rightarrow> u64 \<Rightarrow> sg_cursor \<Rightarrow> memseg_node list list \<Rightarrow> u64 \<times> sg_cursor" where
  "fill_all cfg memseg filled s [] = (filled, s)"
| "fill_all cfg memseg filled s (head # hs) =
     (let (chunk_count, s1) = fill_sg_list cfg memseg s head in fill_all cfg memseg (filled + chunk_count) s1 hs)"

text \<open>The result code and, when it is 0, the scatter list.  \<open>sg_alloc_table\<close> takes the number of elements
  as an \<open>unsigned int\<close>.\<close>

definition sg_alloc_table_from_memdesc :: "mm_config \<Rightarrow> 'k exp_env \<Rightarrow> u64 \<Rightarrow> memseg_node list list \<Rightarrow> 'k
    \<Rightarrow> int \<times> scatterlist list \<times> 'k" where
  "sg_alloc_table_from_memdesc cfg env memseg desc k =
     (let total_chunks = sum_list (map (memseg_list_to_chunk_count memseg) desc)
      in if total_chunks = 0 then (- EINVAL, [], k)
         else
           let nents = ucast total_chunks; (ret, k1) = sg_alloc_table env nents k
           in if ret \<noteq> 0 then (ret, [], k1)
              else
                let (filled_chunks, s) = fill_all cfg memseg 0 (unat nents, []) desc
                in if filled_chunks \<noteq> total_chunks \<or> fst s \<noteq> 0 then (- ENOTRECOVERABLE, [], k1)
                   else (0, snd s, k1))"

section \<open>Memory from the pool\<close>

definition alloc_export_memory_pool :: "mm_config \<Rightarrow> 'k exp_env \<Rightarrow> obmm_export_region \<Rightarrow> 'k ubmempool
    \<Rightarrow> (int \<times> obmm_export_region \<times> 'k ubmempool) option" where
  "alloc_export_memory_pool cfg env e_reg st =
     (let allow_slow = (\<not> region_fast_alloc (e_region e_reg));
          sizes = take (unat (node_count e_reg)) (node_mem_size e_reg)
      in if \<exists>sz \<in> set sizes. sz \<noteq> 0 \<and> sz mod memseg_size st \<noteq> 0 then Some (- EINVAL, e_reg, st)
         else case allocate_memory_contiguous cfg (exp_kenv env) sizes True allow_slow st of
                None \<Rightarrow> None
              | Some (ret, desc, st1) \<Rightarrow>
                  if ret \<noteq> 0 then Some (ret, e_reg\<lparr>mem_desc := desc\<rparr>, st1)
                  else
                    let (ret1, sgs, k1) = sg_alloc_table_from_memdesc cfg env (memseg_size st1) desc (kmem_of st1);
                        st2 = set_kmem k1 st1
                    in if ret1 \<noteq> 0
                       then let (desc1, st3) = free_memory_contiguous cfg (exp_kenv env) desc st2
                            in Some (ret1, e_reg\<lparr>mem_desc := desc1\<rparr>, st3)
                       else Some (0, e_reg\<lparr>mem_desc := desc, sgt := sgs\<rparr>, st2))"

definition free_export_memory_pool :: "mm_config \<Rightarrow> 'k exp_env \<Rightarrow> obmm_export_region \<Rightarrow> 'k ubmempool
    \<Rightarrow> obmm_export_region \<times> 'k ubmempool" where
  "free_export_memory_pool cfg env e_reg st =
     (let (desc, st1) = free_memory_contiguous cfg (exp_kenv env) (mem_desc e_reg) st
      in (e_reg\<lparr>sgt := [], mem_desc := desc\<rparr>, st1))"

section \<open>From the command to a region\<close>

definition export_flags_to_region_flags :: "u64 \<Rightarrow> int \<times> u64" where
  "export_flags_to_region_flags user_flags =
     (if user_flags AND NOT OBMM_EXPORT_FLAG_MASK \<noteq> 0 then (- EINVAL, 0)
      else (0, (if user_flags AND OBMM_EXPORT_FLAG_ALLOW_MMAP \<noteq> 0 then OBMM_REGION_FLAG_ALLOW_MMAP else 0)
             OR (if user_flags AND OBMM_EXPORT_FLAG_FAST \<noteq> 0 then OBMM_REGION_FLAG_FAST_ALLOC else 0)))"

definition set_obmm_region_priv :: "(u64 \<Rightarrow> nat \<Rightarrow> u8 list option) \<Rightarrow> u32 \<Rightarrow> u64 \<Rightarrow> obmm_region \<Rightarrow> int \<times> obmm_region" where
  "set_obmm_region_priv copy plen ptr reg =
     (let reg0 = reg\<lparr>priv_len := 0\<rparr>
      in if unat plen > OBMM_MAX_PRIV_LEN then (- EINVAL, reg0)
         else case copy ptr (unat plen) of
                None \<Rightarrow> (- EFAULT, reg0)
              | Some bytes \<Rightarrow> (0, reg0\<lparr>priv := bytes @ drop (length bytes) (priv reg0), priv_len := plen\<rparr>))"

definition set_export_vendor :: "'k exp_env \<Rightarrow> u32 \<Rightarrow> u64 \<Rightarrow> obmm_export_region \<Rightarrow> 'k \<Rightarrow> int \<times> obmm_export_region \<times> 'k" where
  "set_export_vendor env vlen ptr e_reg k =
     (if vlen = 0 then (0, e_reg\<lparr>vendor_info := [], vendor_len := vlen\<rparr>, k)
      else if unat vlen > OBMM_MAX_VENDOR_LEN then (- EINVAL, e_reg, k)
      else
        let (okay, k1) = exp_alloc env k
        in if \<not> okay then (- ENOMEM, e_reg, k1)
           else case copy_from_user env ptr (unat vlen) k1 of
                  None \<Rightarrow> (- EFAULT, e_reg\<lparr>vendor_info := []\<rparr>, k1)
                | Some bytes \<Rightarrow> (0, e_reg\<lparr>vendor_info := bytes, vendor_len := vlen\<rparr>, k1))"

text \<open>The loop over the sizes from node \<open>i\<close> on: an error, or the total and the nodes used.\<close>

fun region_size_loop :: "'k exp_env \<Rightarrow> u64 \<Rightarrow> nat \<Rightarrow> u64 list \<Rightarrow> u64 \<Rightarrow> nat set \<Rightarrow> int + u64 \<times> nat set" where
  "region_size_loop env memseg i [] tot nodes = Inr (tot, nodes)"
| "region_size_loop env memseg i (sz # szs) tot nodes =
     (if \<not> IS_ALIGNED sz memseg then Inl (- EINVAL)
      else if sz \<noteq> 0 \<and> \<not> is_online_local_node (numa (exp_kenv env)) (int i) then Inl (- ENODEV)
      else if sz \<noteq> 0 then
        (if tot > - 1 - sz then Inl (- EOVERFLOW)
         else region_size_loop env memseg (Suc i) szs (tot + sz) (insert i nodes))
      else region_size_loop env memseg (Suc i) szs tot nodes)"

definition calculate_export_region_size :: "'k exp_env \<Rightarrow> u64 \<Rightarrow> obmm_cmd_export \<Rightarrow> int + u64" where
  "calculate_export_region_size env memseg cmd =
     (if unat (ex_length cmd) > OBMM_MAX_LOCAL_NUMA_NODES then Inl (- E2BIG)
      else if ex_pxm_numa cmd > int OBMM_MAX_LOCAL_NUMA_NODES \<or> ex_pxm_numa cmd < 0 then Inl (- EINVAL)
      else case region_size_loop env memseg 0 (take (unat (ex_length cmd)) (ex_size cmd)) 0 {} of
             Inl e \<Rightarrow> Inl e
           | Inr (tot, nodes) \<Rightarrow>
               if tot = 0 then Inl (- EINVAL)
               else if \<not> nodes_on_same_package env (insert (nat (ex_pxm_numa cmd)) nodes) then Inl (- EINVAL)
               else Inr tot)"

text \<open>A freshly zeroed region.\<close>

definition zeroed_region :: obmm_region where
  "zeroed_region = \<lparr>regionid = 0, reg_flags = 0, device_released = 0, refcnt = 0, mem_size = 0, mmap_mode = OBMM_MMAP_INIT,
     mmap_granu = OBMM_MMAP_GRANU_NONE, mem_cap = 0, mmap_count = 0, ownership_info = None, priv_len = 0,
     priv = replicate OBMM_MAX_PRIV_LEN 0\<rparr>"

definition zeroed_e_reg :: obmm_export_region where
  "zeroed_e_reg = \<lparr>e_region = zeroed_region, node_count = 0, node_mem_size = replicate OBMM_MAX_LOCAL_NUMA_NODES 0,
     mem_desc_pid = \<lparr>pid = 0, user_va = 0, pinned = 0, start_time = 0\<rparr>, mem_desc = replicate OBMM_MAX_LOCAL_NUMA_NODES [],
     sgt = [], ummu_dev = None, tokenid = 0, uba = 0, vendor_len = 0, vendor_info = [], affinity = 0,
     e_deid = replicate 16 0\<rparr>"

text \<open>The loop that drops trailing nodes without memory; the caller has checked that some node has memory.\<close>

fun compact_nodes :: "u64 list \<Rightarrow> nat \<Rightarrow> nat" where
  "compact_nodes sizes 0 = 0"
| "compact_nodes sizes (Suc n) = (if n > 0 \<and> sizes ! n = 0 then compact_nodes sizes n else Suc n)"

definition alloc_region_from_cmd :: "'k exp_env \<Rightarrow> u64 \<Rightarrow> obmm_cmd_export \<Rightarrow> 'k \<Rightarrow> (int + obmm_export_region) \<times> 'k" where
  "alloc_region_from_cmd env memseg cmd k =
     (case calculate_export_region_size env memseg cmd of
        Inl e \<Rightarrow> (Inl e, k)
      | Inr total_size \<Rightarrow>
          let (okay, k1) = exp_alloc env k
          in if \<not> okay then (Inl (- ENOMEM), k1)
             else
               let (ret, flags) = export_flags_to_region_flags (ex_flags cmd);
                   reg = zeroed_region\<lparr>device_released := 1, mem_size := total_size,
                           mem_cap := OBMM_MEM_ALLOW_CACHEABLE_MMAP OR OBMM_MEM_ALLOW_NONCACHEABLE_MMAP, reg_flags := flags\<rparr>;
                   e_reg = zeroed_e_reg\<lparr>e_region := reg, affinity := ex_pxm_numa cmd, e_deid := ex_deid cmd\<rparr>
               in if ret \<noteq> 0 then (Inl ret, k1)
                  else
                    let n = unat (ex_length cmd);
                        sizes = take n (ex_size cmd) @ drop n (node_mem_size e_reg);
                        (ret1, reg1) = set_obmm_region_priv (\<lambda>p m. copy_from_user env p m k1) (ucast (ex_priv_len cmd)) (ex_priv cmd) reg
                    in if ret1 \<noteq> 0 then (Inl ret1, k1)
                       else
                         let e_reg1 = e_reg\<lparr>node_mem_size := sizes, node_count := of_nat (compact_nodes sizes n), e_region := reg1\<rparr>;
                             (ret2, e_reg2, k2) = set_export_vendor env (ucast (ex_vendor_len cmd)) (ex_vendor_info cmd) e_reg1 k1
                         in if ret2 \<noteq> 0 then (Inl ret2, k2) else (Inr e_reg2, k2))"

section \<open>Reference: runs and chunks\<close>

text \<open>The maximal runs of adjacent segments, with their sizes; the first one may be empty.\<close>

fun runs :: "u64 \<Rightarrow> u64 \<Rightarrow> u64 \<Rightarrow> memseg_node list \<Rightarrow> (u64 \<times> u64) list" where
  "runs memseg start stop [] = [(start, stop - start)]"
| "runs memseg start stop (node # ns) =
     (if stop = addr node then runs memseg start (stop + memseg) ns
      else (start, stop - start) # runs memseg (addr node) (addr node + memseg) ns)"

definition addr_run :: "u64 \<Rightarrow> nat \<Rightarrow> u64 list" where
  "addr_run start n = map (\<lambda>i. start + of_nat i) [0..<n]"

definition seg_bytes :: "u64 \<Rightarrow> memseg_node \<Rightarrow> u64 list" where
  "seg_bytes memseg node = addr_run (addr node) (unat memseg)"

text \<open>Number of chunks for a number of bytes.\<close>

definition chunks_for :: "nat \<Rightarrow> nat" where
  "chunks_for n = n div 2 ^ 31 + (if n mod 2 ^ 31 \<noteq> 0 then 1 else 0)"

fun run_chunks :: "mm_config \<Rightarrow> nat \<Rightarrow> u64 \<Rightarrow> u64 \<Rightarrow> scatterlist list" where
  "run_chunks cfg 0 start sz = []"
| "run_chunks cfg (Suc n) start sz =
     (let c = (if sz > MAX_CHUNK_SIZE then MAX_CHUNK_SIZE else sz)
      in \<lparr>sg_phys = push_bit (PAGE_SHIFT cfg) (drop_bit (PAGE_SHIFT cfg) start), sg_length = ucast c\<rparr>
         # run_chunks cfg n (start + c) (sz - c))"

definition chunks_of_runs :: "mm_config \<Rightarrow> (u64 \<times> u64) list \<Rightarrow> scatterlist list" where
  "chunks_of_runs cfg rs = concat (map (\<lambda>(s, z). run_chunks cfg (chunks_for (unat z)) s z) rs)"

definition count_of_runs :: "(u64 \<times> u64) list \<Rightarrow> nat" where
  "count_of_runs rs = sum_list (map (\<lambda>(s, z). chunks_for (unat z)) rs)"

text \<open>A run that ends at 0 is the empty one at the start: no segment ends at the end of the address space.\<close>

definition segs_fit :: "u64 \<Rightarrow> memseg_node list \<Rightarrow> bool" where
  "segs_fit memseg ns \<longleftrightarrow> (\<forall>node \<in> set ns. unat (addr node) + unat memseg < 2 ^ 64)"

text \<open>A kernel whose calls succeed, for examples.\<close>

definition demo_exp_env :: "(u64 list \<times> u64 list) exp_env" where
  "demo_exp_env = \<lparr>exp_kenv = demo_kenv, exp_alloc = (\<lambda>k. (True, k)), copy_from_user = (\<lambda>p n k. Some (replicate n 0)),
     sg_alloc_table = (\<lambda>n k. (0, k)), cpumask_of_node = (\<lambda>nd. [4 * nd]), topology_physical_package_id = (\<lambda>cpu. int (cpu div 8)),
     ummu_core_alloc_tdev = (\<lambda>p t k. (Some 0, 1, k)), ummu_core_free_tdev = (\<lambda>d k. (0, k)),
     dma_map_sgtable = (\<lambda>d s k. (0, 0x100000, k)), dma_unmap_sgtable = (\<lambda>d s k. k)\<rparr>"

definition demo_desc :: "memseg_node list list" where
  "demo_desc = [[\<lparr>addr = 0x1000, seg_size = 0x1000\<rparr>, \<lparr>addr = 0x2000, seg_size = 0x1000\<rparr>, \<lparr>addr = 0x8000, seg_size = 0x1000\<rparr>], [],
     [\<lparr>addr = 0x3000, seg_size = 0x1000\<rparr>]]"

definition demo_pool_e_reg :: obmm_export_region where
  "demo_pool_e_reg = zeroed_e_reg\<lparr>node_count := 2, node_mem_size := [0x400000, 0x200000]\<rparr>"

lemma chunks_for_0 [simp]: "chunks_for 0 = 0"
  by (simp add: chunks_for_def)

lemma chunks_for_small: "0 < n \<Longrightarrow> n \<le> 2 ^ 31 \<Longrightarrow> chunks_for n = 1"
  by (cases "n = 2 ^ 31") (simp_all add: chunks_for_def)

lemma chunks_for_big:
  assumes "2 ^ 31 < n"
  shows "chunks_for n = Suc (chunks_for (n - 2 ^ 31))"
proof -
  have "n = 2 ^ 31 + (n - 2 ^ 31)" using assms by simp
  then have "n div 2 ^ 31 = Suc ((n - 2 ^ 31) div 2 ^ 31)" "n mod 2 ^ 31 = (n - 2 ^ 31) mod 2 ^ 31"
    by (metis div_add_self1 plus_1_eq_Suc add.commute power_eq_0_iff zero_neq_numeral, metis mod_add_self1)
  then show ?thesis by (simp add: chunks_for_def)
qed

lemma chunks_for_bounds: "n \<le> chunks_for n * 2 ^ 31" and chunks_for_least: "n \<le> c * 2 ^ 31 \<Longrightarrow> chunks_for n \<le> c"
proof -
  have 1: "n \<le> (n div d + (if n mod d \<noteq> 0 then 1 else 0)) * d" if d: "0 < d" for d :: nat
  proof -
    obtain q r where "n = q * d + r" "r < d" using d div_mult_mod_eq [of n d] mod_less_divisor [of d n] by metis
    then show ?thesis using d by (auto simp: add_mult_distrib)
  qed
  have 2: "n div d + (if n mod d \<noteq> 0 then 1 else 0) \<le> c" if "0 < d" "n \<le> c * d" for d :: nat
  proof (cases "n mod d = 0")
    case True
    then show ?thesis using div_le_mono [OF that(2), of d] that(1) by simp
  next
    case False
    then have "n \<noteq> c * d" by auto
    then have "n div d < c" using that by (simp add: div_less_iff_less_mult)
    then show ?thesis by simp
  qed
  show "n \<le> chunks_for n * 2 ^ 31" unfolding chunks_for_def by (rule 1) simp
  show "chunks_for n \<le> c" if "n \<le> c * 2 ^ 31" unfolding chunks_for_def by (rule 2 [OF _ that]) simp
qed

lemma chunks_for_add: "chunks_for (m + n) \<le> chunks_for m + chunks_for n"
  using chunks_for_bounds [of m] chunks_for_bounds [of n] by (intro chunks_for_least) (simp add: add_mult_distrib)

lemma unat_size_to_chunk_count: "unat (size_to_chunk_count sz) = chunks_for (unat sz)"
proof -
  have m: "sz AND MAX_CHUNK_MASK = take_bit 31 sz"
    by (simp add: take_bit_eq_mask mask_eq_exp_minus_1)
  have z: "(take_bit 31 sz \<noteq> 0) = (unat sz mod 2 ^ 31 \<noteq> 0)"
    by (metis take_bit_eq_mod unat_eq_zero unsigned_take_bit_eq)
  have d: "unat (drop_bit 31 sz) = unat sz div 2 ^ 31" by (rule u64_unat_drop_bit)
  have "unat sz div 2 ^ 31 + 1 < 2 ^ 64" using u64_lt [of sz] by (simp add: div_less_iff_less_mult)
  then have "unat (drop_bit 31 sz + 1) = unat sz div 2 ^ 31 + 1" using d by (subst u64_unat_add) simp_all
  then show ?thesis unfolding size_to_chunk_count_def m z chunks_for_def using d by simp
qed

section \<open>Counting and filling follow the runs\<close>

lemma chunk_count_runs:
  "chunk_count_loop memseg start stop c ns = c + of_nat (count_of_runs (runs memseg start stop ns))"
proof (induction ns arbitrary: start stop c)
  case Nil
  then show ?case by (simp add: count_of_runs_def unat_size_to_chunk_count [symmetric])
next
  case (Cons node ns)
  then show ?case by (simp add: count_of_runs_def unat_size_to_chunk_count [symmetric] add.assoc)
qed

lemma fill_chunks_eq:
  "n \<le> fst s \<Longrightarrow> fill_chunks_loop cfg n start sz filled s = (filled + of_nat n, fst s - n, snd s @ run_chunks cfg n start sz)"
proof (induction n arbitrary: start sz filled s)
  case (Suc n)
  then show ?case by (simp add: Let_def)
qed simp

lemma fill_sg_chunks_eq:
  "chunks_for (unat sz) \<le> fst s \<Longrightarrow> fill_sg_chunks cfg s start sz
    = (of_nat (chunks_for (unat sz)), fst s - chunks_for (unat sz), snd s @ run_chunks cfg (chunks_for (unat sz)) start sz)"
  by (simp add: fill_sg_chunks_def unat_size_to_chunk_count fill_chunks_eq)

lemma segs_fit_simps [simp]: "segs_fit memseg []"
  "segs_fit memseg (node # ns) \<longleftrightarrow> unat (addr node) + unat memseg < 2 ^ 64 \<and> segs_fit memseg ns"
  by (auto simp: segs_fit_def)

lemma seg_end_nonzero:
  assumes "unat a + unat m < 2 ^ 64" and "m \<noteq> (0 :: u64)"
  shows "unat (a + m) = unat a + unat m" and "a + m \<noteq> 0"
proof -
  show u: "unat (a + m) = unat a + unat m" by (rule u64_unat_add [OF assms(1)])
  have "0 < unat m" using assms(2) by (simp add: unat_gt_0)
  then have "0 < unat (a + m)" using u by simp
  then show "a + m \<noteq> 0" by auto
qed

lemma fill_list_runs:
  assumes "segs_fit memseg ns" and "memseg \<noteq> 0" and "stop = 0 \<longrightarrow> start = 0"
    and "count_of_runs (runs memseg start stop ns) \<le> fst s"
  shows "fill_list_loop cfg memseg start stop filled s ns
    = (filled + of_nat (count_of_runs (runs memseg start stop ns)),
       fst s - count_of_runs (runs memseg start stop ns), snd s @ chunks_of_runs cfg (runs memseg start stop ns))"
  using assms
proof (induction ns arbitrary: start stop filled s)
  case Nil
  then show ?case
    by (cases "stop = 0") (simp_all add: count_of_runs_def chunks_of_runs_def fill_sg_chunks_eq)
next
  case (Cons node ns)
  note e = seg_end_nonzero [of "addr node" memseg]
  show ?case
  proof (cases "stop = addr node")
    case True
    then show ?thesis using Cons.IH [of "stop + memseg" start s filled] Cons.prems e by simp
  next
    case False
    let ?n = "chunks_for (unat (stop - start))"
    have n: "?n \<le> fst s" using Cons.prems(4) False by (simp add: count_of_runs_def)
    have f: "(if stop \<noteq> 0 then let (chunk_count, s1) = fill_sg_chunks cfg s start (stop - start) in (filled + chunk_count, s1)
        else (filled, s)) = (filled + of_nat ?n, fst s - ?n, snd s @ run_chunks cfg ?n start (stop - start))"
      using Cons.prems(3) by (cases "stop = 0") (simp_all add: fill_sg_chunks_eq [OF n])
    have ih: "fill_list_loop cfg memseg (addr node) (addr node + memseg) fl s1 ns
      = (fl + of_nat (count_of_runs (runs memseg (addr node) (addr node + memseg) ns)),
         fst s1 - count_of_runs (runs memseg (addr node) (addr node + memseg) ns),
         snd s1 @ chunks_of_runs cfg (runs memseg (addr node) (addr node + memseg) ns))"
      if "count_of_runs (runs memseg (addr node) (addr node + memseg) ns) \<le> fst s1" for fl s1
      using Cons.IH [of "addr node + memseg" "addr node" s1 fl] Cons.prems e that by simp
    have "fill_list_loop cfg memseg start stop filled s (node # ns) = fill_list_loop cfg memseg (addr node) (addr node + memseg)
        (filled + of_nat ?n) (fst s - ?n, snd s @ run_chunks cfg ?n start (stop - start)) ns"
      using False by (simp only: fill_list_loop.simps f) simp
    then show ?thesis using ih Cons.prems(4) False
      by (simp add: count_of_runs_def chunks_of_runs_def add.assoc)
  qed
qed

lemma fill_all_runs:
  assumes "segs_fit memseg (concat desc)" and "memseg \<noteq> 0"
    and "sum_list (map (\<lambda>h. count_of_runs (runs memseg 0 0 h)) desc) \<le> fst s"
  shows "fill_all cfg memseg filled s desc
    = (filled + of_nat (sum_list (map (\<lambda>h. count_of_runs (runs memseg 0 0 h)) desc)),
       fst s - sum_list (map (\<lambda>h. count_of_runs (runs memseg 0 0 h)) desc),
       snd s @ concat (map (\<lambda>h. chunks_of_runs cfg (runs memseg 0 0 h)) desc))"
  using assms
proof (induction desc arbitrary: filled s)
  case (Cons h hs)
  have "segs_fit memseg h" "segs_fit memseg (concat hs)" using Cons.prems(1) by (auto simp: segs_fit_def)
  then show ?case using Cons by (simp add: fill_sg_list_def fill_list_runs add.assoc)
qed simp

lemma total_chunks_runs:
  "sum_list (map (memseg_list_to_chunk_count memseg) desc) = of_nat (sum_list (map (\<lambda>h. count_of_runs (runs memseg 0 0 h)) desc))"
  by (induction desc) (simp_all add: memseg_list_to_chunk_count_def chunk_count_runs)

section \<open>The chunks describe the segments\<close>

lemma addr_run_append: "addr_run x m @ addr_run (x + of_nat m) n = addr_run x (m + n)"
  unfolding addr_run_def by (rule upt_shift_append)

lemma addr_run_0 [simp]: "addr_run x 0 = []"
  by (simp add: addr_run_def)

lemma runs_bytes:
  assumes "segs_fit memseg ns" and "memseg \<noteq> 0" and "start \<le> stop"
  shows "concat (map (\<lambda>(s, z). addr_run s (unat z)) (runs memseg start stop ns))
    = addr_run start (unat (stop - start)) @ concat (map (seg_bytes memseg) ns)"
  using assms
proof (induction ns arbitrary: start stop)
  case (Cons node ns)
  have u: "unat (addr node + memseg) = unat (addr node) + unat memseg"
    using Cons.prems(1) by (simp add: u64_unat_add)
  have le: "addr node \<le> addr node + memseg" using u by (simp add: word_le_nat_alt)
  show ?case
  proof (cases "stop = addr node")
    case True
    have s: "start \<le> stop + memseg" using Cons.prems(3) True le by (auto intro: order_trans)
    have "unat (stop + memseg - start) = unat (stop - start) + unat memseg"
      using s Cons.prems(3) u True by (simp add: unat_sub word_le_nat_alt)
    moreover have "addr node = start + of_nat (unat (stop - start))" using True by simp
    ultimately have "addr_run start (unat (stop + memseg - start)) = addr_run start (unat (stop - start)) @ seg_bytes memseg node"
      unfolding seg_bytes_def by (simp only: addr_run_append)
    then show ?thesis using Cons.IH [of start "stop + memseg"] Cons.prems True s by simp
  next
    case False
    then show ?thesis using Cons.IH [OF _ _ le] Cons.prems by (simp add: seg_bytes_def)
  qed
qed simp

lemma page_aligned_word:
  fixes x :: u64
  assumes "take_bit p x = 0"
  shows "push_bit p (drop_bit p x) = x"
  using assms bits_ident [of p x] by simp

lemma take_bit_chunk:
  assumes "p \<le> 31"
  shows "take_bit p (MAX_CHUNK_SIZE :: u64) = 0"
proof -
  have "take_bit p (push_bit n (1 :: u64)) = 0" if "p \<le> n" for n
    using that by (simp only: take_bit_push_bit) simp
  from this [OF assms] show ?thesis by simp
qed

lemma take_bit_0_dvd: "take_bit k (x :: u64) = 0 \<longleftrightarrow> 2 ^ k dvd unat x"
proof -
  have "take_bit k x = 0 \<longleftrightarrow> unat (take_bit k x) = 0" by (simp add: unat_eq_zero)
  also have "\<dots> \<longleftrightarrow> take_bit k (unat x) = 0" by (simp add: unsigned_take_bit_eq)
  finally show ?thesis by (simp add: take_bit_eq_0_iff)
qed

lemma take_bit_add_0:
  fixes x y :: u64
  assumes "take_bit k x = 0" and "take_bit k y = 0" and "k \<le> 64"
  shows "take_bit k (x + y) = 0"
proof -
  have "2 ^ k dvd (unat x + unat y)" using assms by (simp add: take_bit_0_dvd)
  moreover have "(2 :: nat) ^ k dvd 2 ^ 64" using assms(3) by (rule le_imp_power_dvd)
  ultimately have "2 ^ k dvd (unat x + unat y) mod 2 ^ 64" by (rule dvd_mod)
  then show ?thesis by (simp add: take_bit_0_dvd unat_word_ariths)
qed

lemma unat_ucast_u32:
  assumes "unat (c :: u64) < 2 ^ 32"
  shows "unat (ucast c :: u32) = unat c"
  using assms by (simp add: unsigned_ucast_eq take_bit_word_eq_self unsigned_take_bit_eq take_bit_nat_eq_self)

lemma run_chunks_bytes:
  assumes "take_bit (PAGE_SHIFT cfg) start = 0" and "PAGE_SHIFT cfg \<le> 31"
  shows "region_bytes (run_chunks cfg (chunks_for (unat sz)) start sz) = addr_run start (unat sz)
    \<and> (\<forall>sg \<in> set (run_chunks cfg (chunks_for (unat sz)) start sz). 0 < unat (sg_length sg) \<and> unat (sg_length sg) \<le> 2 ^ 31)"
  using assms(1)
proof (induction "chunks_for (unat sz)" arbitrary: start sz)
  case 0
  then have "unat sz = 0" using chunks_for_bounds [of "unat sz"] by simp
  then show ?case by simp
next
  case (Suc n)
  have big: "(MAX_CHUNK_SIZE < sz) = (2 ^ 31 < unat sz)" by (simp add: word_less_nat_alt)
  have pa: "push_bit (PAGE_SHIFT cfg) (drop_bit (PAGE_SHIFT cfg) start) = start"
    by (rule page_aligned_word [OF Suc.prems])
  show ?case
  proof (cases "2 ^ 31 < unat sz")
    case True
    define sz1 where "sz1 = sz - MAX_CHUNK_SIZE"
    have u: "unat sz1 = unat sz - 2 ^ 31" using True by (simp add: sz1_def unat_sub word_le_nat_alt)
    have "Suc n = Suc (chunks_for (unat sz1))" unfolding u Suc.hyps(2) by (rule chunks_for_big [OF True])
    then have n: "n = chunks_for (unat sz1)" by (rule Suc_inject)
    have al: "take_bit (PAGE_SHIFT cfg) (start + MAX_CHUNK_SIZE) = 0"
      using assms(2) by (intro take_bit_add_0 Suc.prems take_bit_chunk) simp_all
    note ih = Suc.hyps(1) [OF n al, folded n]
    have c: "unat (ucast (MAX_CHUNK_SIZE :: u64) :: u32) = 2 ^ 31" by simp
    have eq: "run_chunks cfg (chunks_for (unat sz)) start sz
        = \<lparr>sg_phys = start, sg_length = ucast (MAX_CHUNK_SIZE :: u64)\<rparr> # run_chunks cfg n (start + MAX_CHUNK_SIZE) sz1"
      unfolding Suc.hyps(2) [symmetric] using True by (simp add: big pa sz1_def)
    have "addr_run start (unat sz) = addr_run start (2 ^ 31) @ addr_run (start + of_nat (2 ^ 31)) (unat sz1)"
      using True u by (simp only: addr_run_append) simp
    moreover have "sg_bytes \<lparr>sg_phys = start, sg_length = ucast (MAX_CHUNK_SIZE :: u64)\<rparr> = addr_run start (2 ^ 31)"
      unfolding sg_bytes_def scatterlist.select_convs c addr_run_def ..
    ultimately show ?thesis unfolding eq using ih by (simp del: upt_Suc)
  next
    case False
    then have le: "unat sz \<le> 2 ^ 31" by simp
    have "0 < unat sz" using Suc.hyps(2) by (cases "unat sz = 0") simp_all
    then have "chunks_for (unat sz) = 1" using le by (rule chunks_for_small)
    then have eq: "run_chunks cfg (chunks_for (unat sz)) start sz = [\<lparr>sg_phys = start, sg_length = ucast sz\<rparr>]"
      using False by (simp add: big pa)
    have c: "unat (ucast sz :: u32) = unat sz" using le by (intro unat_ucast_u32) simp
    show ?thesis unfolding eq using \<open>0 < unat sz\<close> le
      by (simp add: sg_bytes_def addr_run_def c)
  qed
qed

lemma count_bound:
  assumes "segs_fit memseg ns" and "memseg \<noteq> 0" and "start \<le> stop"
  shows "count_of_runs (runs memseg start stop ns) \<le> chunks_for (unat (stop - start)) + length ns * chunks_for (unat memseg)"
  using assms
proof (induction ns arbitrary: start stop)
  case (Cons node ns)
  have u: "unat (addr node + memseg) = unat (addr node) + unat memseg"
    using Cons.prems(1) by (simp add: u64_unat_add)
  have le: "addr node \<le> addr node + memseg" using u by (simp add: word_le_nat_alt)
  show ?case
  proof (cases "stop = addr node")
    case True
    have s: "start \<le> stop + memseg" using Cons.prems(3) True le by (auto intro: order_trans)
    have "unat (stop + memseg - start) = unat (stop - start) + unat memseg"
      using s Cons.prems(3) u True by (simp add: unat_sub word_le_nat_alt)
    then show ?thesis
      using Cons.IH [of start "stop + memseg"] Cons.prems True s chunks_for_add [of "unat (stop - start)" "unat memseg"] by simp
  next
    case False
    then show ?thesis using Cons.IH [OF _ _ le] Cons.prems by (simp add: count_of_runs_def)
  qed
qed (simp add: count_of_runs_def)

lemma runs_aligned:
  assumes "\<forall>node \<in> set ns. take_bit p (addr node) = 0" and "take_bit p start = 0"
  shows "\<forall>(s, z) \<in> set (runs memseg start stop ns). take_bit p s = 0"
  using assms
proof (induction ns arbitrary: start stop)
  case (Cons node ns)
  then show ?case using Cons.IH [of start] Cons.IH [of "addr node"] by simp
qed simp

lemma chunks_of_runs_bytes:
  assumes "\<forall>(s, z) \<in> set rs. take_bit (PAGE_SHIFT cfg) s = 0" and "PAGE_SHIFT cfg \<le> 31"
  shows "region_bytes (chunks_of_runs cfg rs) = concat (map (\<lambda>(s, z). addr_run s (unat z)) rs)
    \<and> (\<forall>sg \<in> set (chunks_of_runs cfg rs). 0 < unat (sg_length sg) \<and> unat (sg_length sg) \<le> 2 ^ 31)"
  using assms(1)
proof (induction rs)
  case (Cons r rs)
  obtain s z where r: "r = (s, z)" by (cases r)
  show ?case using Cons run_chunks_bytes [OF _ assms(2), of s z] r
    by (auto simp: chunks_of_runs_def region_bytes_def)
qed (simp add: chunks_of_runs_def)

lemma memdesc_bytes:
  assumes "\<forall>node \<in> set (concat desc). take_bit (PAGE_SHIFT cfg) (addr node) = 0" and "PAGE_SHIFT cfg \<le> 31"
    and "segs_fit memseg (concat desc)" and "memseg \<noteq> 0"
  shows "region_bytes (concat (map (\<lambda>h. chunks_of_runs cfg (runs memseg 0 0 h)) desc)) = concat (map (seg_bytes memseg) (concat desc))
    \<and> (\<forall>sg \<in> set (concat (map (\<lambda>h. chunks_of_runs cfg (runs memseg 0 0 h)) desc)). 0 < unat (sg_length sg) \<and> unat (sg_length sg) \<le> 2 ^ 31)"
  using assms(1,3)
proof (induction desc)
  case (Cons h hs)
  have f: "segs_fit memseg h" "segs_fit memseg (concat hs)" using Cons.prems(2) by (auto simp: segs_fit_def)
  have "\<forall>(s, z) \<in> set (runs memseg 0 0 h). take_bit (PAGE_SHIFT cfg) s = 0"
    using Cons.prems(1) by (intro runs_aligned) simp_all
  then have "region_bytes (chunks_of_runs cfg (runs memseg 0 0 h)) = concat (map (seg_bytes memseg) h)
      \<and> (\<forall>sg \<in> set (chunks_of_runs cfg (runs memseg 0 0 h)). 0 < unat (sg_length sg) \<and> unat (sg_length sg) \<le> 2 ^ 31)"
    using chunks_of_runs_bytes [OF _ assms(2)] runs_bytes [OF f(1) assms(4), of 0 0] by simp
  then show ?case using Cons f by (auto simp: region_bytes_def)
qed simp

lemma total_chunks_bound:
  assumes "segs_fit memseg (concat desc)" and "memseg \<noteq> 0"
  shows "sum_list (map (\<lambda>h. count_of_runs (runs memseg 0 0 h)) desc) \<le> length (concat desc) * chunks_for (unat memseg)"
  using assms(1)
proof (induction desc)
  case (Cons h hs)
  have f: "segs_fit memseg h" "segs_fit memseg (concat hs)" using Cons.prems by (auto simp: segs_fit_def)
  show ?case using Cons.IH [OF f(2)] count_bound [OF f(1) assms(2), of 0 0] by (simp add: add_mult_distrib)
qed simp

lemma total_chunks_pos:
  assumes "sum_list (map (\<lambda>h. count_of_runs (runs memseg 0 0 h)) desc) = 0"
    and "segs_fit memseg (concat desc)" and "memseg \<noteq> 0"
  shows "concat desc = []"
  using assms(1,2)
proof (induction desc)
  case (Cons h hs)
  have f: "segs_fit memseg h" "segs_fit memseg (concat hs)" using Cons.prems(2) by (auto simp: segs_fit_def)
  have "\<forall>(s, z) \<in> set (runs memseg 0 0 h). unat z = 0"
  proof clarify
    fix s z assume "(s, z) \<in> set (runs memseg 0 0 h)"
    then have "chunks_for (unat z) = 0" using Cons.prems(1) by (auto simp: count_of_runs_def)
    then show "unat z = 0" using chunks_for_bounds [of "unat z"] by simp
  qed
  then have "concat (map (\<lambda>(s, z). addr_run s (unat z)) (runs memseg 0 0 h)) = []" by (auto simp: addr_run_def)
  then have "concat (map (seg_bytes memseg) h) = []" using runs_bytes [OF f(1) assms(3), of 0 0] by simp
  then have "h = []" using assms(3) by (cases h) (auto simp: seg_bytes_def addr_run_def unat_eq_zero)
  then show ?case using Cons f by simp
qed simp

text \<open>The table that is built for the segments \<open>desc\<close>: only the allocation of its elements can fail.\<close>

lemma memdesc_table:
  assumes al: "\<forall>node \<in> set (concat desc). take_bit (PAGE_SHIFT cfg) (addr node) = 0" and p: "PAGE_SHIFT cfg \<le> 31"
    and fit: "segs_fit memseg (concat desc)" and m: "memseg \<noteq> 0" and ne: "concat desc \<noteq> []"
    and few: "length (concat desc) * chunks_for (unat memseg) < 2 ^ 32"
  shows "\<exists>sgs n. sg_alloc_table_from_memdesc cfg env memseg desc k
      = (let (ret, k1) = sg_alloc_table env n k in if ret \<noteq> 0 then (ret, [], k1) else (0, sgs, k1))
    \<and> region_bytes sgs = concat (map (seg_bytes memseg) (concat desc))
    \<and> (\<forall>sg \<in> set sgs. 0 < unat (sg_length sg) \<and> unat (sg_length sg) \<le> 2 ^ 31)"
proof -
  let ?N = "sum_list (map (\<lambda>h. count_of_runs (runs memseg 0 0 h)) desc)"
  let ?sgs = "concat (map (\<lambda>h. chunks_of_runs cfg (runs memseg 0 0 h)) desc)"
  let ?n = "ucast (of_nat ?N :: u64) :: u32"
  have N: "?N < 2 ^ 32" using total_chunks_bound [OF fit m] few by linarith
  have "?N \<noteq> 0" using total_chunks_pos [OF _ fit m] ne by blast
  moreover have "?N < 2 ^ 64" using N by simp
  ultimately have nz: "(of_nat ?N :: u64) \<noteq> 0" by (simp add: u64_of_nat_eq_0)
  have "unat (of_nat ?N :: u64) = ?N" using N by (intro u64_unat_of_nat) simp
  then have cap: "unat ?n = ?N" using N unat_ucast_u32 [of "of_nat ?N"] by simp
  have f: "fill_all cfg memseg 0 (unat ?n, []) desc = (of_nat ?N, 0, ?sgs)"
    unfolding cap using fill_all_runs [OF fit m, of "(?N, [])" cfg 0] by simp
  have "sg_alloc_table_from_memdesc cfg env memseg desc k
      = (let (ret, k1) = sg_alloc_table env ?n k in if ret \<noteq> 0 then (ret, [], k1) else (0, ?sgs, k1))"
    unfolding sg_alloc_table_from_memdesc_def total_chunks_runs Let_def f using nz by (simp split: prod.split)
  then show ?thesis using memdesc_bytes [OF al p fit m] by blast
qed

lemma memdesc_table_bytes:
  assumes "\<forall>node \<in> set (concat desc). take_bit (PAGE_SHIFT cfg) (addr node) = 0" "PAGE_SHIFT cfg \<le> 31"
    "segs_fit memseg (concat desc)" "memseg \<noteq> 0" "concat desc \<noteq> []" "length (concat desc) * chunks_for (unat memseg) < 2 ^ 32"
    and t: "sg_alloc_table_from_memdesc cfg env memseg desc k = (0, sgs, k1)"
  shows "region_bytes sgs = concat (map (seg_bytes memseg) (concat desc))"
proof -
  obtain sgs' n where e: "sg_alloc_table_from_memdesc cfg env memseg desc k
      = (let (ret, k1) = sg_alloc_table env n k in if ret \<noteq> 0 then (ret, [], k1) else (0, sgs', k1))"
    and b: "region_bytes sgs' = concat (map (seg_bytes memseg) (concat desc))"
    using memdesc_table [OF assms(1-6), of env k] by blast
  obtain ret k2 where "sg_alloc_table env n k = (ret, k2)" by fastforce
  then have "sgs = sgs'" using e t by (simp split: if_splits)
  then show ?thesis using b by simp
qed

text \<open>C21: the scatter list that is built from the segments of the pool describes exactly these segments, in
  order, with elements of at most 2G; the number of elements counted beforehand is right, so that only
  the allocation of the elements can fail.\<close>

theorem sg_table_describes_segments:
  assumes "\<forall>node \<in> set (concat desc). take_bit (PAGE_SHIFT cfg) (addr node) = 0" and "PAGE_SHIFT cfg \<le> 31"
    and "segs_fit memseg (concat desc)" and "memseg \<noteq> 0" and "concat desc \<noteq> []"
    and "length (concat desc) * chunks_for (unat memseg) < 2 ^ 32"
  shows "\<exists>sgs n. sg_alloc_table_from_memdesc cfg env memseg desc k
      = (let (ret, k1) = sg_alloc_table env n k in if ret \<noteq> 0 then (ret, [], k1) else (0, sgs, k1))
    \<and> region_bytes sgs = concat (map (seg_bytes memseg) (concat desc))
    \<and> (\<forall>sg \<in> set sgs. 0 < unat (sg_length sg) \<and> unat (sg_length sg) \<le> 2 ^ 31)"
  by (rule memdesc_table [OF assms])

lemma free_memory_contiguous_desc: "fst (free_memory_contiguous cfg env desc st) = replicate OBMM_MAX_LOCAL_NUMA_NODES []"
  by (simp add: free_memory_contiguous_def Let_def split: prod.split)

lemma mempool_inv_set_kmem [simp]: "mempool_inv hs (set_kmem k st) desc = mempool_inv hs st desc"
  by (simp add: mempool_inv_def set_kmem_def)

lemma allocate_keeps_memseg:
  assumes "allocate_memory_contiguous cfg env sizes zero slow st = Some (ret, desc, st')"
  shows "memseg_size st' = memseg_size st"
  using assms by (auto simp: allocate_memory_contiguous_def free_memory_contiguous_def Let_def split: option.splits if_splits prod.splits)

lemma memdesc_table_nonempty:
  assumes "sg_alloc_table_from_memdesc cfg env memseg desc k = (0, sgs, k1)"
  shows "concat desc \<noteq> []"
proof
  assume "concat desc = []"
  then have "sum_list (map (memseg_list_to_chunk_count memseg) desc) = 0"
    by (induction desc) (simp_all add: memseg_list_to_chunk_count_def size_to_chunk_count_def)
  then show False using assms by (simp add: sg_alloc_table_from_memdesc_def)
qed

lemma free_export_pool_inv:
  assumes "mempool_inv hs st (mem_desc e_reg)"
  shows "mempool_inv hs (snd (free_export_memory_pool cfg env e_reg st)) (replicate OBMM_MAX_LOCAL_NUMA_NODES [])"
  using free_memory_contiguous_inv [OF assms, of cfg "exp_kenv env"]
  by (auto simp: free_export_memory_pool_def split: prod.splits)

text \<open>The books of the pool after an allocation for an export.\<close>

lemma export_pool_books:
  assumes "mempool_inv hs st (replicate OBMM_MAX_LOCAL_NUMA_NODES [])" and "length (node_mem_size e_reg) \<le> OBMM_MAX_LOCAL_NUMA_NODES"
  shows "\<exists>ret e_reg' st'. alloc_export_memory_pool cfg env e_reg st = Some (ret, e_reg', st') \<and> e_region e_reg' = e_region e_reg
    \<and> (if ret = 0
       then mempool_inv hs st' (mem_desc e_reg')
         \<and> (\<forall>i < length (take (unat (node_count e_reg)) (node_mem_size e_reg)).
              of_nat (length (mem_desc e_reg' ! i)) * granu (allocators st ! i) = node_mem_size e_reg ! i)
         \<and> (\<exists>k k1. sg_alloc_table_from_memdesc cfg env (memseg_size st) (mem_desc e_reg') k = (0, sgt e_reg', k1))
       else mempool_inv hs st' (replicate OBMM_MAX_LOCAL_NUMA_NODES []) \<and> sgt e_reg' = sgt e_reg)"
proof (cases "\<exists>sz \<in> set (take (unat (node_count e_reg)) (node_mem_size e_reg)). sz \<noteq> 0 \<and> sz mod memseg_size st \<noteq> 0")
  case True
  then show ?thesis using assms(1) by (simp add: alloc_export_memory_pool_def Let_def)
next
  case aligned: False
  let ?sizes = "take (unat (node_count e_reg)) (node_mem_size e_reg)" and ?kenv = "exp_kenv env"
  have "length ?sizes \<le> OBMM_MAX_LOCAL_NUMA_NODES" using assms(2) by simp
  from allocate_spec [OF assms(1) this, of cfg ?kenv True "\<not> region_fast_alloc (e_region e_reg)"] obtain ret desc st1 where
    al: "allocate_memory_contiguous cfg ?kenv ?sizes True (\<not> region_fast_alloc (e_region e_reg)) st = Some (ret, desc, st1)"
    and inv: "mempool_inv hs st1 desc"
    and res: "if ret = 0 then \<forall>k < length ?sizes. of_nat (length (desc ! k)) * granu (allocators st ! k) = ?sizes ! k
              else desc = replicate OBMM_MAX_LOCAL_NUMA_NODES []"
    by blast
  obtain ret1 sgs k1 where t: "sg_alloc_table_from_memdesc cfg env (memseg_size st) desc (kmem_of st1) = (ret1, sgs, k1)"
    by (metis prod_cases3)
  have inv2: "mempool_inv hs (set_kmem k1 st1) desc" using inv by simp
  obtain desc3 st3 where f: "free_memory_contiguous cfg ?kenv desc (set_kmem k1 st1) = (desc3, st3)" by fastforce
  have "mempool_inv hs st3 (replicate OBMM_MAX_LOCAL_NUMA_NODES [])"
    using free_memory_contiguous_inv [OF inv2, of cfg ?kenv] f by simp
  then show ?thesis
    using aligned al inv inv2 res t f allocate_keeps_memseg [OF al]
    by (cases "ret = 0"; cases "ret1 = 0") (auto simp: alloc_export_memory_pool_def Let_def)
qed

text \<open>C19: allocating the memory of an export from the pool always returns and is all or nothing: on
  success every node contributes exactly what was asked of it and the scatter list describes these
  segments, on failure nothing is left allocated; releasing the memory restores the books of the pool.\<close>

theorem export_pool_all_or_nothing:
  assumes "mempool_inv hs st (replicate OBMM_MAX_LOCAL_NUMA_NODES [])" and "length (node_mem_size e_reg) \<le> OBMM_MAX_LOCAL_NUMA_NODES"
    and "PAGE_SHIFT cfg \<le> 31" and "memseg_size st \<noteq> 0"
  shows "\<exists>ret e_reg' st'. alloc_export_memory_pool cfg env e_reg st = Some (ret, e_reg', st')
    \<and> (if ret = 0
       then mempool_inv hs st' (mem_desc e_reg')
         \<and> (\<forall>i < length (take (unat (node_count e_reg)) (node_mem_size e_reg)).
              of_nat (length (mem_desc e_reg' ! i)) * granu (allocators st ! i) = node_mem_size e_reg ! i)
         \<and> (let segs = concat (mem_desc e_reg') in
              (\<forall>node \<in> set segs. take_bit (PAGE_SHIFT cfg) (addr node) = 0) \<and> segs_fit (memseg_size st) segs
              \<and> length segs * chunks_for (unat (memseg_size st)) < 2 ^ 32
              \<longrightarrow> region_bytes (sgt e_reg') = concat (map (seg_bytes (memseg_size st)) segs))
         \<and> mempool_inv hs (snd (free_export_memory_pool cfg env e_reg' st')) (replicate OBMM_MAX_LOCAL_NUMA_NODES [])
       else mempool_inv hs st' (replicate OBMM_MAX_LOCAL_NUMA_NODES []) \<and> sgt e_reg' = sgt e_reg)"
proof -
  from export_pool_books [OF assms(1,2), of cfg env] obtain ret e st' where
    al: "alloc_export_memory_pool cfg env e_reg st = Some (ret, e, st')"
    and books: "if ret = 0
       then mempool_inv hs st' (mem_desc e)
         \<and> (\<forall>i < length (take (unat (node_count e_reg)) (node_mem_size e_reg)).
              of_nat (length (mem_desc e ! i)) * granu (allocators st ! i) = node_mem_size e_reg ! i)
         \<and> (\<exists>k k1. sg_alloc_table_from_memdesc cfg env (memseg_size st) (mem_desc e) k = (0, sgt e, k1))
       else mempool_inv hs st' (replicate OBMM_MAX_LOCAL_NUMA_NODES []) \<and> sgt e = sgt e_reg"
    by blast
  have "region_bytes (sgt e) = concat (map (seg_bytes (memseg_size st)) (concat (mem_desc e)))"
    if "ret = 0" "\<forall>node \<in> set (concat (mem_desc e)). take_bit (PAGE_SHIFT cfg) (addr node) = 0"
      "segs_fit (memseg_size st) (concat (mem_desc e))" "length (concat (mem_desc e)) * chunks_for (unat (memseg_size st)) < 2 ^ 32"
  proof -
    from books that(1) obtain k k1 where t: "sg_alloc_table_from_memdesc cfg env (memseg_size st) (mem_desc e) k = (0, sgt e, k1)" by auto
    from memdesc_table_bytes [OF that(2) assms(3) that(3) assms(4) memdesc_table_nonempty [OF t] that(4) t] show ?thesis .
  qed
  then show ?thesis using al books by (cases "ret = 0") (simp_all add: Let_def free_export_pool_inv)
qed

theorem sg_table_describes_segments_witness:
  "\<exists>sgs n. sg_alloc_table_from_memdesc demo_cfg demo_exp_env 0x1000 demo_desc ([], [])
      = (let (ret, k1) = sg_alloc_table demo_exp_env n ([], []) in if ret \<noteq> 0 then (ret, [], k1) else (0, sgs, k1))
    \<and> region_bytes sgs = concat (map (seg_bytes 0x1000) (concat demo_desc))
    \<and> (\<forall>sg \<in> set sgs. 0 < unat (sg_length sg) \<and> unat (sg_length sg) \<le> 2 ^ 31)"
  by (rule sg_table_describes_segments)
    (simp_all add: demo_desc_def demo_cfg_def take_bit_eq_mod chunks_for_def)

theorem export_pool_all_or_nothing_witness:
  "\<exists>ret e_reg' st'. alloc_export_memory_pool demo_cfg demo_exp_env demo_pool_e_reg demo_mempool = Some (ret, e_reg', st')"
  using export_pool_all_or_nothing [OF demo_mempool_inv, of demo_pool_e_reg demo_cfg demo_exp_env]
  by (simp add: demo_pool_e_reg_def demo_mempool_def demo_cfg_def) blast

end
