(* ===== verification/Obmm_Addr_Check.thy ===== *)
theory Obmm_Addr_Check
  imports Obmm_Prelude
begin

text \<open>
  The register of physical address ranges (\<^verbatim>\<open>drivers/ub/obmm/obmm_addr_check.c\<close>): every range that is
  imported or reserved for a later import is recorded together with its user, and a new range is
  refused when it touches a recorded one.  The file keeps the ranges in a maple tree of the kernel
  library, a map from disjoint ranges of indices to entries; the three calls it uses are modelled
  on a list of ranges, with the outcome of the tree's own allocations as an argument.
\<close>

section \<open>The range map of the kernel library\<close>

type_synonym 'e maple_tree = "(u64 \<times> u64 \<times> 'e) list"

definition in_range :: "u64 \<Rightarrow> u64 \<times> u64 \<times> 'e \<Rightarrow> bool" where
  "in_range i r \<longleftrightarrow> fst r \<le> i \<and> i \<le> fst (snd r)"

definition touches :: "u64 \<Rightarrow> u64 \<Rightarrow> u64 \<times> u64 \<times> 'e \<Rightarrow> bool" where
  "touches a b r \<longleftrightarrow> fst r \<le> b \<and> a \<le> fst (snd r)"

definition mtree_insert_range :: "bool \<Rightarrow> u64 \<Rightarrow> u64 \<Rightarrow> 'e \<Rightarrow> 'e maple_tree \<Rightarrow> int \<times> 'e maple_tree" where
  "mtree_insert_range node_ok a b e t =
     (if b < a then (- EINVAL, t)
      else if \<exists>r \<in> set t. touches a b r then (- EEXIST, t)
      else if \<not> node_ok then (- ENOMEM, t)
      else (0, (a, b, e) # t))"

definition mt_find :: "u64 \<Rightarrow> 'e maple_tree \<Rightarrow> 'e option" where
  "mt_find i t = map_option (snd \<circ> snd) (find (in_range i) t)"

definition mtree_erase :: "u64 \<Rightarrow> 'e maple_tree \<Rightarrow> 'e option \<times> 'e maple_tree" where
  "mtree_erase i t = (mt_find i t, filter (\<lambda>r. \<not> in_range i r) t)"

text \<open>The entry found at an index is changed in place.\<close>

definition mt_modify :: "u64 \<Rightarrow> ('e \<Rightarrow> 'e) \<Rightarrow> 'e maple_tree \<Rightarrow> 'e maple_tree" where
  "mt_modify i f t = map (\<lambda>r. if in_range i r then (fst r, fst (snd r), f (snd (snd r))) else r) t"

section \<open>The register\<close>

datatype obmm_addr_user = OBMM_ADDR_USER_DIRECT_IMPORT | OBMM_ADDR_USER_PREIMPORT

record 'd obmm_addr_info =
  user :: obmm_addr_user
  info_data :: 'd

record 'd obmm_pa_range =
  pa_start :: u64
  pa_end :: u64
  info :: "'d obmm_addr_info"

record 'd pa_checker =
  pa_ranges :: "'d obmm_pa_range maple_tree"

text \<open>The outcomes of the copy of the range and of the tree's allocation.\<close>

record pa_alloc =
  kmemdup_ok :: bool
  mt_node_ok :: bool

definition is_same_pa_range :: "'d obmm_pa_range \<Rightarrow> 'd obmm_pa_range \<Rightarrow> bool" where
  "is_same_pa_range l r \<longleftrightarrow> pa_start l = pa_start r \<and> pa_end l = pa_end r"

definition occupy_pa_range :: "pa_alloc \<Rightarrow> 'd obmm_pa_range \<Rightarrow> 'd pa_checker \<Rightarrow> int \<times> 'd pa_checker" where
  "occupy_pa_range al r c =
     (if \<not> kmemdup_ok al then (- ENOMEM, c)
      else let (ret, t) = mtree_insert_range (mt_node_ok al) (pa_start r) (pa_end r) r (pa_ranges c)
           in if ret \<noteq> 0 then (ret, c) else (0, c\<lparr>pa_ranges := t\<rparr>))"

definition free_pa_range :: "'d obmm_pa_range \<Rightarrow> 'd pa_checker \<Rightarrow> int \<times> 'd pa_checker" where
  "free_pa_range r c =
     (let (entry, t) = mtree_erase (pa_start r) (pa_ranges c)
      in case entry of
           None \<Rightarrow> (- EFAULT, c\<lparr>pa_ranges := t\<rparr>)
         | Some e \<Rightarrow> (if is_same_pa_range e r then 0 else - ENOTRECOVERABLE, c\<lparr>pa_ranges := t\<rparr>))"

text \<open>\<open>None\<close> stands for a null pointer to the caller's information.\<close>

definition query_pa_range :: "u64 \<Rightarrow> 'd obmm_addr_info option \<Rightarrow> 'd pa_checker \<Rightarrow> int \<times> 'd obmm_addr_info option" where
  "query_pa_range x out c =
     (case out of
        None \<Rightarrow> (- EINVAL, None)
      | Some buf \<Rightarrow>
          (case mt_find x (pa_ranges c) of
             None \<Rightarrow> (- EFAULT, Some buf)
           | Some e \<Rightarrow> (0, Some (buf\<lparr>user := user (info e), info_data := info_data (info e)\<rparr>))))"

definition update_pa_range :: "u64 \<Rightarrow> 'd obmm_addr_info option \<Rightarrow> 'd pa_checker \<Rightarrow> int \<times> 'd pa_checker" where
  "update_pa_range x inp c =
     (case inp of
        None \<Rightarrow> (- EINVAL, c)
      | Some i \<Rightarrow>
          (case mt_find x (pa_ranges c) of
             None \<Rightarrow> (- EFAULT, c)
           | Some e \<Rightarrow>
               (0, c\<lparr>pa_ranges := mt_modify x
                  (\<lambda>e. e\<lparr>info := (info e)\<lparr>user := user i, info_data := info_data i\<rparr>\<rparr>) (pa_ranges c)\<rparr>)))"

definition module_addr_check_init :: "'d pa_checker" where
  "module_addr_check_init = \<lparr>pa_ranges = []\<rparr>"

definition module_addr_check_exit :: "'d pa_checker \<Rightarrow> 'd pa_checker" where
  "module_addr_check_exit c = c\<lparr>pa_ranges := []\<rparr>"

section \<open>Abstract register\<close>

text \<open>Which recorded range, if any, covers an address.\<close>

definition covering :: "'d pa_checker \<Rightarrow> u64 \<Rightarrow> 'd obmm_pa_range option" where
  "covering c x = mt_find x (pa_ranges c)"

text \<open>Recorded ranges are not empty, do not touch each other, and each is filed under its own bounds.\<close>

fun disjoint_ranges :: "(u64 \<times> u64 \<times> 'e) list \<Rightarrow> bool" where
  "disjoint_ranges [] \<longleftrightarrow> True"
| "disjoint_ranges (r # rs) \<longleftrightarrow> (\<forall>q \<in> set rs. \<not> touches (fst r) (fst (snd r)) q) \<and> disjoint_ranges rs"

definition checker_inv :: "'d pa_checker \<Rightarrow> bool" where
  "checker_inv c \<longleftrightarrow> disjoint_ranges (pa_ranges c)
     \<and> (\<forall>(a, b, e) \<in> set (pa_ranges c). a \<le> b \<and> pa_start e = a \<and> pa_end e = b)"

datatype 'd addr_op =
    Occupy pa_alloc "'d obmm_pa_range"
  | Release "'d obmm_pa_range"
  | Update u64 "'d obmm_addr_info option"

fun run_addr_op :: "'d addr_op \<Rightarrow> 'd pa_checker \<Rightarrow> 'd pa_checker" where
  "run_addr_op (Occupy al r) c = snd (occupy_pa_range al r c)"
| "run_addr_op (Release r) c = snd (free_pa_range r c)"
| "run_addr_op (Update x i) c = snd (update_pa_range x i c)"

definition checker_after :: "'d addr_op list \<Rightarrow> 'd pa_checker" where
  "checker_after opers = fold run_addr_op opers module_addr_check_init"

definition demo_pa_range :: "u64 \<Rightarrow> u64 \<Rightarrow> nat obmm_pa_range" where
  "demo_pa_range a b = \<lparr>pa_start = a, pa_end = b, info = \<lparr>user = OBMM_ADDR_USER_DIRECT_IMPORT, info_data = 7\<rparr>\<rparr>"

text \<open>A reservation, one that touches it and is refused, a second one, and a third that is released.\<close>

definition demo_addr_ops :: "nat addr_op list" where
  "demo_addr_ops = (let al = \<lparr>kmemdup_ok = True, mt_node_ok = True\<rparr> in
     [Occupy al (demo_pa_range 0x40000000 0x401fffff), Occupy al (demo_pa_range 0x40100000 0x40ffffff),
      Occupy al (demo_pa_range 0x50000000 0x501fffff), Occupy al (demo_pa_range 0x60000000 0x601fffff),
      Release (demo_pa_range 0x60000000 0x601fffff)])"

section \<open>Facts on the range map\<close>

lemma disjoint_ranges_filter: "disjoint_ranges t \<Longrightarrow> disjoint_ranges (filter P t)"
  by (induction t) auto

lemma disjoint_ranges_modify: "disjoint_ranges t \<Longrightarrow> disjoint_ranges (mt_modify i f t)"
proof (induction t)
  case (Cons r t)
  then show ?case by (auto simp: mt_modify_def touches_def)
qed (simp add: mt_modify_def)

lemma find_unique:
  assumes "disjoint_ranges t" "r \<in> set t" "in_range i r"
  shows "find (in_range i) t = Some r"
  using assms
proof (induction t)
  case (Cons q t)
  show ?case
  proof (cases "q = r")
    case True
    then show ?thesis using Cons.prems(3) by simp
  next
    case False
    then have r: "r \<in> set t" using Cons.prems(2) by simp
    have "\<not> in_range i q"
      using Cons.prems(1,3) r by (auto simp: in_range_def touches_def dest: order_trans)
    then show ?thesis using Cons r by simp
  qed
qed simp

lemma mt_find_Some:
  assumes "disjoint_ranges t"
  shows "mt_find i t = Some e \<longleftrightarrow> (\<exists>a b. (a, b, e) \<in> set t \<and> a \<le> i \<and> i \<le> b)"
proof
  assume "mt_find i t = Some e"
  then obtain r where r: "find (in_range i) t = Some r" "snd (snd r) = e" by (auto simp: mt_find_def)
  then have "r \<in> set t" "in_range i r" by (auto simp: find_Some_iff)
  then show "\<exists>a b. (a, b, e) \<in> set t \<and> a \<le> i \<and> i \<le> b"
    using r(2) by (metis in_range_def prod.collapse)
next
  assume "\<exists>a b. (a, b, e) \<in> set t \<and> a \<le> i \<and> i \<le> b"
  then obtain a b where "(a, b, e) \<in> set t" "in_range i (a, b, e)" by (auto simp: in_range_def)
  from find_unique [OF assms this] show "mt_find i t = Some e" by (simp add: mt_find_def)
qed

lemma mt_find_None: "mt_find i t = None \<longleftrightarrow> (\<forall>r \<in> set t. \<not> in_range i r)"
  by (auto simp: mt_find_def find_None_iff)

section \<open>Behaviour of the register\<close>

lemma covering_Some:
  assumes "checker_inv c" "covering c x = Some e"
  shows "pa_start e \<le> x" "x \<le> pa_end e" "(pa_start e, pa_end e, e) \<in> set (pa_ranges c)"
  using assms by (auto simp: covering_def checker_inv_def mt_find_Some)

lemma covering_whole:
  assumes "checker_inv c" "covering c x = Some e" "pa_start e \<le> y" "y \<le> pa_end e"
  shows "covering c y = Some e"
  using covering_Some [OF assms(1,2)] assms(1,3,4) by (auto simp: covering_def checker_inv_def mt_find_Some)

lemma occupy_pa_range_ok:
  assumes inv: "checker_inv c" and ok: "occupy_pa_range al r c = (0, c')"
  shows "checker_inv c' \<and> pa_start r \<le> pa_end r \<and> (\<forall>x. pa_start r \<le> x \<longrightarrow> x \<le> pa_end r \<longrightarrow> covering c x = None)
    \<and> covering c' = (\<lambda>x. if pa_start r \<le> x \<and> x \<le> pa_end r then Some r else covering c x)"
proof -
  have free: "\<not> touches (pa_start r) (pa_end r) q" if "q \<in> set (pa_ranges c)" for q
    using ok that by (auto simp: occupy_pa_range_def mtree_insert_range_def split: if_splits)
  have le: "pa_start r \<le> pa_end r"
    and c': "c' = c\<lparr>pa_ranges := (pa_start r, pa_end r, r) # pa_ranges c\<rparr>"
    using ok by (auto simp: occupy_pa_range_def mtree_insert_range_def split: if_splits)
  have inv': "checker_inv c'" using inv free le by (auto simp: checker_inv_def c')
  have "covering c x = None" if x: "pa_start r \<le> x" "x \<le> pa_end r" for x
  proof (rule ccontr)
    assume "covering c x \<noteq> None"
    then obtain e where "covering c x = Some e" by blast
    from covering_Some [OF inv this] free x show False by (fastforce simp: touches_def)
  qed
  moreover have "covering c' x = (if pa_start r \<le> x \<and> x \<le> pa_end r then Some r else covering c x)" for x
    by (simp add: c' covering_def mt_find_def in_range_def)
  ultimately show ?thesis using inv' le by blast
qed

lemma occupy_pa_range_err: "occupy_pa_range al r c = (ret, c') \<Longrightarrow> ret \<noteq> 0 \<Longrightarrow> c' = c"
  by (auto simp: occupy_pa_range_def split: if_splits prod.splits)

lemma free_pa_range_inv:
  assumes "checker_inv c"
  shows "checker_inv (snd (free_pa_range r c))"
proof -
  have "snd (free_pa_range r c) = c\<lparr>pa_ranges := filter (\<lambda>q. \<not> in_range (pa_start r) q) (pa_ranges c)\<rparr>"
    by (simp add: free_pa_range_def mtree_erase_def split: option.splits)
  then show ?thesis using assms by (auto simp: checker_inv_def disjoint_ranges_filter)
qed

lemma free_pa_range_ok:
  assumes inv: "checker_inv c" and cov: "covering c (pa_start r) = Some e"
  shows "fst (free_pa_range r c) = (if is_same_pa_range e r then 0 else - ENOTRECOVERABLE)
    \<and> covering (snd (free_pa_range r c)) = (\<lambda>x. if pa_start e \<le> x \<and> x \<le> pa_end e then None else covering c x)"
proof -
  note s = cov [unfolded covering_def]
  let ?t = "filter (\<lambda>q. \<not> in_range (pa_start r) q) (pa_ranges c)"
  have d: "disjoint_ranges (pa_ranges c)" using inv by (simp add: checker_inv_def)
  have f: "free_pa_range r c = (if is_same_pa_range e r then 0 else - ENOTRECOVERABLE, c\<lparr>pa_ranges := ?t\<rparr>)"
    by (simp add: free_pa_range_def mtree_erase_def s)
  note e = covering_Some [OF inv cov]
  have gone: "in_range (pa_start r) q \<longleftrightarrow> q = (pa_start e, pa_end e, e)" if "q \<in> set (pa_ranges c)" for q
  proof
    assume "in_range (pa_start r) q"
    then show "q = (pa_start e, pa_end e, e)"
      using find_unique [OF d that] find_unique [OF d e(3), of "pa_start r"] e(1,2) by (simp add: in_range_def)
  qed (use e(1,2) in \<open>simp add: in_range_def\<close>)
  have "mt_find x ?t = (if pa_start e \<le> x \<and> x \<le> pa_end e then None else mt_find x (pa_ranges c))" for x
  proof (cases "mt_find x ?t")
    case None
    then have "\<forall>q \<in> set (pa_ranges c). in_range x q \<longrightarrow> q = (pa_start e, pa_end e, e)"
      using gone unfolding mt_find_None set_filter by blast
    then have "\<not> (pa_start e \<le> x \<and> x \<le> pa_end e) \<Longrightarrow> mt_find x (pa_ranges c) = None"
      unfolding mt_find_None by (metis in_range_def fst_conv snd_conv)
    then show ?thesis using None by simp
  next
    case (Some e')
    then obtain a b where ab: "(a, b, e') \<in> set ?t" "a \<le> x" "x \<le> b"
      using mt_find_Some [OF disjoint_ranges_filter [OF d]] by blast
    then have "mt_find x (pa_ranges c) = Some e'" unfolding mt_find_Some [OF d] set_filter by blast
    moreover have "\<not> (pa_start e \<le> x \<and> x \<le> pa_end e)"
    proof
      assume "pa_start e \<le> x \<and> x \<le> pa_end e"
      then have "find (in_range x) (pa_ranges c) = Some (pa_start e, pa_end e, e)"
        using find_unique [OF d e(3)] by (simp add: in_range_def)
      moreover have "find (in_range x) (pa_ranges c) = Some (a, b, e')"
        using find_unique [OF d, of "(a, b, e')"] ab by (simp add: in_range_def)
      ultimately have "(a, b, e') = (pa_start e, pa_end e, e)" by simp
      then show False using ab(1) gone [of "(a, b, e')"] unfolding set_filter by blast
    qed
    ultimately show ?thesis using Some by simp
  qed
  then show ?thesis by (simp add: f covering_def fun_eq_iff)
qed

lemma free_pa_range_missing:
  assumes "covering c (pa_start r) = None"
  shows "fst (free_pa_range r c) = - EFAULT \<and> covering (snd (free_pa_range r c)) = covering c"
proof -
  have "filter (\<lambda>q. \<not> in_range (pa_start r) q) (pa_ranges c) = pa_ranges c"
    using assms by (simp add: covering_def mt_find_None)
  then show ?thesis using assms by (simp add: free_pa_range_def mtree_erase_def covering_def)
qed

lemma update_pa_range_inv:
  assumes "checker_inv c"
  shows "checker_inv (snd (update_pa_range x i c))"
  using assms
  by (auto simp: update_pa_range_def checker_inv_def disjoint_ranges_modify split: option.splits)
    (auto simp: mt_modify_def split: if_splits)

lemma find_map_same:
  assumes "\<And>r. P (g r) = P r"
  shows "find P (map g t) = map_option g (find P t)"
  using assms by (induction t) auto

lemma update_pa_range_covering:
  assumes inv: "checker_inv c" and "update_pa_range x (Some i) c = (0, c')"
  shows "\<exists>e. covering c x = Some e \<and> covering c' =
    (\<lambda>y. if pa_start e \<le> y \<and> y \<le> pa_end e
         then Some (e\<lparr>info := (info e)\<lparr>user := user i, info_data := info_data i\<rparr>\<rparr>) else covering c y)"
proof -
  let ?f = "\<lambda>e :: 'a obmm_pa_range. e\<lparr>info := (info e)\<lparr>user := user i, info_data := info_data i\<rparr>\<rparr>"
  obtain e where s: "mt_find x (pa_ranges c) = Some e" and c': "c' = c\<lparr>pa_ranges := mt_modify x ?f (pa_ranges c)\<rparr>"
    using assms(2) by (auto simp: update_pa_range_def split: option.splits)
  have cov: "covering c x = Some e" using s by (simp add: covering_def)
  have d: "disjoint_ranges (pa_ranges c)" using inv by (simp add: checker_inv_def)
  note e = covering_Some [OF inv cov]
  let ?g = "\<lambda>r. if in_range x r then (fst r, fst (snd r), ?f (snd (snd r))) else r"
  have "mt_find y (mt_modify x ?f (pa_ranges c)) = map_option (snd \<circ> snd \<circ> ?g) (find (in_range y) (pa_ranges c))" for y
    unfolding mt_find_def mt_modify_def
    by (subst find_map_same) (auto simp: in_range_def option.map_comp comp_assoc)
  moreover have "map_option (snd \<circ> snd \<circ> ?g) (find (in_range y) (pa_ranges c))
      = (if pa_start e \<le> y \<and> y \<le> pa_end e then Some (?f e) else mt_find y (pa_ranges c))" for y
  proof (cases "find (in_range y) (pa_ranges c)")
    case None
    then have "\<not> in_range y (pa_start e, pa_end e, e)" using e(3) by (auto simp: find_None_iff)
    then show ?thesis using None by (auto simp: mt_find_def in_range_def)
  next
    case (Some q)
    then have q: "q \<in> set (pa_ranges c)" "in_range y q" by (auto simp: find_Some_iff)
    show ?thesis
    proof (cases "in_range x q")
      case True
      then have "q = (pa_start e, pa_end e, e)"
        using find_unique [OF d q(1) True] find_unique [OF d e(3), of x] e(1,2) by (simp add: in_range_def)
      then show ?thesis using Some True q(2) by (simp add: in_range_def)
    next
      case False
      then have "q \<noteq> (pa_start e, pa_end e, e)" using e(1,2) by (auto simp: in_range_def)
      then have "\<not> (pa_start e \<le> y \<and> y \<le> pa_end e)"
        using find_unique [OF d e(3), of y] Some by (auto simp: in_range_def)
      then show ?thesis using Some False by (auto simp: mt_find_def)
    qed
  qed
  ultimately show ?thesis using cov by (intro exI [of _ e]) (simp add: c' covering_def fun_eq_iff)
qed

lemma query_pa_range_covering:
  "query_pa_range x (Some buf) c = (case covering c x of None \<Rightarrow> (- EFAULT, Some buf)
     | Some e \<Rightarrow> (0, Some (buf\<lparr>user := user (info e), info_data := info_data (info e)\<rparr>)))"
  by (simp add: query_pa_range_def covering_def split: option.splits)

section \<open>The contract that the importing components rely on\<close>

locale range_registry =
  fixes occ :: "'a \<Rightarrow> 'r \<Rightarrow> 'c \<Rightarrow> int \<times> 'c" and rel :: "'r \<Rightarrow> 'c \<Rightarrow> int \<times> 'c"
    and cov :: "'c \<Rightarrow> u64 \<Rightarrow> 'r option" and ok :: "'c \<Rightarrow> bool" and lo hi :: "'r \<Rightarrow> u64"
  assumes occ_ok: "ok c \<Longrightarrow> occ al r c = (0, c') \<Longrightarrow> ok c' \<and> lo r \<le> hi r
      \<and> (\<forall>x. lo r \<le> x \<longrightarrow> x \<le> hi r \<longrightarrow> cov c x = None)
      \<and> cov c' = (\<lambda>x. if lo r \<le> x \<and> x \<le> hi r then Some r else cov c x)"
    and occ_err: "occ al r c = (ret, c') \<Longrightarrow> ret \<noteq> 0 \<Longrightarrow> c' = c"
    and rel_keeps: "ok c \<Longrightarrow> ok (snd (rel r c))"
    and rel_ok: "ok c \<Longrightarrow> cov c (lo r) = Some e \<Longrightarrow> lo e = lo r \<Longrightarrow> hi e = hi r \<Longrightarrow>
      fst (rel r c) = 0 \<and> cov (snd (rel r c)) = (\<lambda>x. if lo e \<le> x \<and> x \<le> hi e then None else cov c x)"
begin

lemma occ_rel:
  assumes "ok c" "occ al r c = (0, c')"
  shows "fst (rel r c') = 0 \<and> ok (snd (rel r c')) \<and> cov (snd (rel r c')) = cov c"
proof -
  note o = occ_ok [OF assms]
  have "cov c' (lo r) = Some r" using o by simp
  with o rel_ok [of c' r r] show ?thesis by (auto simp: fun_eq_iff rel_keeps)
qed

lemma occ_twice_disjoint:
  assumes "ok c" "occ al r c = (0, c1)" "occ al' q c1 = (0, c2)"
  shows "\<not> (lo r \<le> x \<and> x \<le> hi r \<and> lo q \<le> x \<and> x \<le> hi q)"
  using occ_ok [OF assms(1,2)] occ_ok [of c1 al' q c2] assms(3) by fastforce

lemma rel_other:
  assumes "ok c" "occ al r c = (0, c1)" "occ al' q c1 = (0, c2)" "lo r \<le> x" "x \<le> hi r"
  shows "cov (snd (rel q c2)) x = Some r"
proof -
  note o = occ_ok [OF assms(1,2)]
  have "cov (snd (rel q c2)) = cov c1" using occ_rel [of c1 al' q c2] o assms(3) by blast
  then show ?thesis using o assms(4,5) by simp
qed

end

interpretation pa: range_registry occupy_pa_range free_pa_range covering checker_inv pa_start pa_end
proof unfold_locales
  fix c r e and al :: pa_alloc and c' :: "'a pa_checker" and ret
  show "checker_inv c \<Longrightarrow> occupy_pa_range al r c = (0, c') \<Longrightarrow> checker_inv c' \<and> pa_start r \<le> pa_end r
      \<and> (\<forall>x. pa_start r \<le> x \<longrightarrow> x \<le> pa_end r \<longrightarrow> covering c x = None)
      \<and> covering c' = (\<lambda>x. if pa_start r \<le> x \<and> x \<le> pa_end r then Some r else covering c x)"
    for c :: "'a pa_checker" by (rule occupy_pa_range_ok)
  show "occupy_pa_range al r c = (ret, c') \<Longrightarrow> ret \<noteq> 0 \<Longrightarrow> c' = c" for c :: "'a pa_checker"
    by (rule occupy_pa_range_err)
  show "checker_inv c \<Longrightarrow> checker_inv (snd (free_pa_range r c))" for c :: "'a pa_checker"
    by (rule free_pa_range_inv)
  show "checker_inv c \<Longrightarrow> covering c (pa_start r) = Some e \<Longrightarrow> pa_start e = pa_start r \<Longrightarrow> pa_end e = pa_end r \<Longrightarrow>
      fst (free_pa_range r c) = 0 \<and> covering (snd (free_pa_range r c))
        = (\<lambda>x. if pa_start e \<le> x \<and> x \<le> pa_end e then None else covering c x)" for c :: "'a pa_checker"
    using free_pa_range_ok [of c r e] by (simp add: is_same_pa_range_def)
qed

lemma run_addr_op_inv: "checker_inv c \<Longrightarrow> checker_inv (run_addr_op oper c)"
proof (cases oper)
  case (Occupy al r)
  moreover obtain ret c' where o: "occupy_pa_range al r c = (ret, c')" by fastforce
  moreover assume "checker_inv c"
  ultimately show ?thesis
    using occupy_pa_range_ok [of c al r c'] occupy_pa_range_err [OF o] by (cases "ret = 0") auto
qed (simp_all add: free_pa_range_inv update_pa_range_inv)

lemma disjoint_ranges_nth:
  "disjoint_ranges t \<Longrightarrow> i < length t \<Longrightarrow> j < length t \<Longrightarrow> in_range x (t ! i) \<Longrightarrow> in_range x (t ! j) \<Longrightarrow> i = j"
proof (induction t arbitrary: i j)
  case (Cons r t)
  have no: "\<not> in_range x r \<or> \<not> in_range x (t ! k)" if "k < length t" for k
    using Cons.prems(1) nth_mem [OF that] by (auto simp: touches_def in_range_def dest: order_trans)
  show ?case
  proof (cases i; cases j)
    fix i' j' assume "i = Suc i'" "j = Suc j'"
    then show ?thesis using Cons by auto
  qed (use Cons.prems no in auto)
qed simp

lemma checker_after_inv: "checker_inv (checker_after opers)"
proof -
  have "checker_inv (fold run_addr_op opers c0)" if "checker_inv c0" for c0 :: "'a pa_checker"
    using that by (induction opers arbitrary: c0) (auto simp: run_addr_op_inv)
  moreover have "checker_inv module_addr_check_init" by (simp add: checker_inv_def module_addr_check_init_def)
  ultimately show ?thesis unfolding checker_after_def by blast
qed


lemma demo_addr_after:
  "pa_ranges (checker_after demo_addr_ops)
     = [(0x50000000, 0x501fffff, demo_pa_range 0x50000000 0x501fffff), (0x40000000, 0x401fffff, demo_pa_range 0x40000000 0x401fffff)]"
  by (simp add: checker_after_def demo_addr_ops_def module_addr_check_init_def Let_def demo_pa_range_def
      occupy_pa_range_def mtree_insert_range_def free_pa_range_def mtree_erase_def mt_find_def is_same_pa_range_def
      in_range_def touches_def)


text \<open>A reservation followed by its release leaves the register answering every query as before, the
  release succeeds, and in between the range and only the range is taken.\<close>

lemma occupy_free_round_trip:
  assumes "checker_inv c" "occupy_pa_range al r c = (0, c')"
  shows "fst (free_pa_range r c') = 0 \<and> covering (snd (free_pa_range r c')) = covering c
    \<and> (\<forall>x. covering c' x \<noteq> covering c x \<longleftrightarrow> pa_start r \<le> x \<and> x \<le> pa_end r)"
  using pa.occ_rel [OF assms] pa.occ_ok [OF assms] by auto

end
