(* ===== verification/Obmm_Resource.thy ===== *)
theory Obmm_Resource
  imports Obmm_Prelude
begin

text \<open>
  The part of the I/O memory resource tree that OBMM owns (\<^verbatim>\<open>drivers/ub/obmm/obmm_resource.c\<close>).  Each
  UB memory range has a node under the root; below it hangs, for memory that is used as a NUMA node,
  one node made by memory hot-plug, and below that one leaf for each OBMM memory device.  The nodes
  of the kernel's tree carry child and sibling pointers, here a list of children.  Hot-plug of a part
  of a pre-imported range deletes and re-creates the NUMA node, so the leaves are taken out of the
  tree into a shelter before and put back after.
\<close>

section \<open>The resource tree of the kernel\<close>

datatype resource = Resource (res_start: u64) (res_end: u64) (res_name: string) (res_children: "resource list")

fun set_children :: "resource list \<Rightarrow> resource \<Rightarrow> resource" where
  "set_children cs (Resource a b n _) = Resource a b n cs"

definition res_touch :: "resource \<Rightarrow> resource \<Rightarrow> bool" where
  "res_touch x y \<longleftrightarrow> res_start x \<le> res_end y \<and> res_start y \<le> res_end x"

fun insert_child :: "resource \<Rightarrow> resource list \<Rightarrow> resource list" where
  "insert_child x [] = [x]"
| "insert_child x (y # ys) = (if res_start x \<le> res_start y then x # y # ys else y # insert_child x ys)"

text \<open>A request is refused when the new range is empty, leaves the parent's range or touches one of its
  children; otherwise the new node is linked in the order of addresses.\<close>

definition request_resource :: "resource \<Rightarrow> resource \<Rightarrow> int \<times> resource" where
  "request_resource root new =
     (if res_end new < res_start new \<or> res_start new < res_start root \<or> res_end root < res_end new
         \<or> (\<exists>c \<in> set (res_children root). res_touch new c)
      then (- EBUSY, root)
      else (0, set_children (insert_child new (res_children root)) root))"

definition release_resource :: "resource \<Rightarrow> resource \<Rightarrow> int \<times> resource" where
  "release_resource parent old =
     (if old \<in> set (res_children parent) then (0, set_children (remove1 old (res_children parent)) parent)
      else (- EINVAL, parent))"

section \<open>UB memory resources\<close>

record ubmem_resource =
  res :: resource
  res_preimport :: bool
  res_mutex :: bool
  memdev_res_shelter :: "resource list"

text \<open>The answers of the allocator and of the insertion below the root are arguments.\<close>

definition setup_ubmem_resource :: "bool \<Rightarrow> int \<Rightarrow> u64 \<Rightarrow> u64 \<Rightarrow> bool \<Rightarrow> int + ubmem_resource" where
  "setup_ubmem_resource kzalloc_ok insert_ret pa sz preimport =
     (if \<not> kzalloc_ok then Inl (- ENOMEM)
      else
        let name = (if preimport then ''PREIMPORT_UBMEM'' else ''DIRECT_IMPORT_UBMEM'');
            u = \<lparr>res = Resource pa (pa + sz - 1) name [], res_preimport = preimport, res_mutex = False,
                 memdev_res_shelter = []\<rparr>
        in if insert_ret \<noteq> 0 then Inl insert_ret else Inr u)"

text \<open>Whether the resource is freed, which it is unless the removal from the root fails.\<close>

definition release_ubmem_resource :: "int \<Rightarrow> int \<times> bool" where
  "release_ubmem_resource remove_ret = (if remove_ret \<noteq> 0 then (remove_ret, False) else (0, True))"

definition set_numa :: "resource \<Rightarrow> ubmem_resource \<Rightarrow> ubmem_resource" where
  "set_numa n u = u\<lparr>res := set_children (n # tl (res_children (res u))) (res u)\<rparr>"

text \<open>The loop that puts sheltered leaves back under the first child of the node.  A request that fails
  only warns: the leaf is dropped.  \<open>None\<close> is the request below a null parent, which faults.\<close>

fun restore_loop :: "resource list \<Rightarrow> ubmem_resource \<Rightarrow> ubmem_resource option" where
  "restore_loop [] u = Some (u\<lparr>memdev_res_shelter := []\<rparr>)"
| "restore_loop (m # ms) u =
     (case res_children (res u) of
        [] \<Rightarrow> None
      | numa_res # _ \<Rightarrow>
          restore_loop ms (set_numa (snd (request_resource numa_res m)) (u\<lparr>memdev_res_shelter := ms\<rparr>)))"

definition restore_sheltered_memdev_locked :: "ubmem_resource \<Rightarrow> ubmem_resource option" where
  "restore_sheltered_memdev_locked u = restore_loop (memdev_res_shelter u) u"

text \<open>The loop that takes the leaves out: the first one starts the shelter list, the others are chained
  behind it.  The flag tells whether it is the first.\<close>

fun shelter_loop :: "bool \<Rightarrow> resource list \<Rightarrow> ubmem_resource \<Rightarrow> (int \<times> ubmem_resource) option" where
  "shelter_loop first [] u = Some (0, u)"
| "shelter_loop first (m # ms) u =
     (case res_children (res u) of
        [] \<Rightarrow> None
      | numa_res # _ \<Rightarrow>
          let (ret, numa_res1) = release_resource numa_res m
          in if ret \<noteq> 0
             then map_option (\<lambda>u. (ret, u\<lparr>res_mutex := False\<rparr>)) (restore_sheltered_memdev_locked u)
             else
               let saved = set_children [] m;
                   u1 = set_numa numa_res1 u
               in shelter_loop False ms (u1\<lparr>memdev_res_shelter := (if first then [saved] else memdev_res_shelter u1 @ [saved])\<rparr>))"

definition lock_save_memdev_descendents :: "ubmem_resource \<Rightarrow> (int \<times> ubmem_resource) option" where
  "lock_save_memdev_descendents u =
     (if \<not> res_preimport u then Some (0, u)
      else
        let u1 = u\<lparr>res_mutex := True\<rparr>
        in case res_children (res u1) of
             [] \<Rightarrow> Some (0, u1)
           | numa_res # _ \<Rightarrow> shelter_loop True (res_children numa_res) u1)"

definition restore_unlock_memdev_descendents :: "ubmem_resource \<Rightarrow> ubmem_resource option" where
  "restore_unlock_memdev_descendents u =
     (if \<not> res_preimport u then Some u
      else map_option (\<lambda>u. u\<lparr>res_mutex := False\<rparr>) (restore_sheltered_memdev_locked u))"

section \<open>Memory device resources\<close>

fun dec_digits :: "nat \<Rightarrow> string" where
  "dec_digits n = (if n < 10 then [char_of (48 + n)] else dec_digits (n div 10) @ [char_of (48 + n mod 10)])"

definition memdev_name :: "int \<Rightarrow> string" where
  "memdev_name mem_id = ''MEMID_'' @ (if mem_id < 0 then ''-'' @ dec_digits (nat (- mem_id)) else dec_digits (nat mem_id))"

definition setup_memdev_resource :: "bool \<Rightarrow> bool \<Rightarrow> u64 \<Rightarrow> u64 \<Rightarrow> int \<Rightarrow> ubmem_resource
    \<Rightarrow> (int + resource) \<times> ubmem_resource" where
  "setup_memdev_resource kzalloc_ok kasprintf_ok pa sz mem_id u =
     (if \<not> kzalloc_ok then (Inl (- ENOMEM), u)
      else if \<not> kasprintf_ok then (Inl (- ENOMEM), u)
      else
        let m = Resource pa (pa + sz - 1) (memdev_name mem_id) []
        in case res_children (res u) of
             [] \<Rightarrow> (let (ret, r) = request_resource (res u) m
                    in if ret \<noteq> 0 then (Inl ret, u) else (Inr m, u\<lparr>res := r\<rparr>))
           | numa_res # _ \<Rightarrow>
               (let (ret, n) = request_resource numa_res m
                in if ret \<noteq> 0 then (Inl ret, u) else (Inr m, set_numa n u)))"

text \<open>A leaf is unlinked from its parent, which is the node itself or the node's first child.\<close>

definition release_memdev_resource :: "resource \<Rightarrow> ubmem_resource \<Rightarrow> int \<times> ubmem_resource" where
  "release_memdev_resource m u =
     (if m \<in> set (res_children (res u))
      then (let (ret, r) = release_resource (res u) m in (ret, u\<lparr>res := r\<rparr>))
      else case res_children (res u) of
             [] \<Rightarrow> (- EINVAL, u)
           | numa_res # _ \<Rightarrow> (let (ret, n) = release_resource numa_res m in (ret, set_numa n u)))"

fun ordered_children :: "resource list \<Rightarrow> bool" where
  "ordered_children [] \<longleftrightarrow> True"
| "ordered_children (x # xs) \<longleftrightarrow> (\<forall>y \<in> set xs. res_end x < res_start y) \<and> ordered_children xs"

text \<open>The leaves under a NUMA node: not empty, inside the node, in order, and without children.\<close>

definition leaves_ok :: "resource \<Rightarrow> bool" where
  "leaves_ok n \<longleftrightarrow> ordered_children (res_children n)
     \<and> (\<forall>m \<in> set (res_children n). res_start n \<le> res_start m \<and> res_start m \<le> res_end m \<and> res_end m \<le> res_end n
          \<and> res_children m = [])"

definition demo_numa :: resource where
  "demo_numa = Resource 0x40000000 0x7fffffff ''System RAM (Remote)''
     [Resource 0x40000000 0x4fffffff ''MEMID_1'' [], Resource 0x50000000 0x5fffffff ''MEMID_2'' []]"

definition demo_ubmem :: ubmem_resource where
  "demo_ubmem = \<lparr>res = Resource 0x40000000 0x7fffffff ''PREIMPORT_UBMEM'' [demo_numa], res_preimport = True,
     res_mutex = False, memdev_res_shelter = []\<rparr>"

declare dec_digits.simps [simp del]

section \<open>Well-formed children\<close>

section \<open>Taking leaves out and putting them back\<close>

lemma set_children_sel [simp]:
  "res_start (set_children cs r) = res_start r" "res_end (set_children cs r) = res_end r"
  "res_name (set_children cs r) = res_name r" "res_children (set_children cs r) = cs"
  "set_children ds (set_children cs r) = set_children ds r"
  by (cases r; simp)+

lemma set_children_same [simp]: "set_children (res_children r) r = r"
  by (cases r) simp

lemma set_numa_sel [simp]:
  "res_children (res (set_numa n u)) = n # tl (res_children (res u))" "res_preimport (set_numa n u) = res_preimport u"
  "res_mutex (set_numa n u) = res_mutex u" "memdev_res_shelter (set_numa n u) = memdev_res_shelter u"
  "set_numa n (u\<lparr>memdev_res_shelter := s\<rparr>) = (set_numa n u)\<lparr>memdev_res_shelter := s\<rparr>"
  "set_numa n (u\<lparr>res_mutex := b\<rparr>) = (set_numa n u)\<lparr>res_mutex := b\<rparr>"
  "set_numa n (set_numa m u) = set_numa n u"
  by (simp_all add: set_numa_def)

lemma set_numa_same: "res_children (res u) = n # rs \<Longrightarrow> set_numa n u = u"
  by (cases u) (auto simp: set_numa_def, metis set_children_same)

lemma ordered_distinct:
  "ordered_children xs \<Longrightarrow> \<forall>x \<in> set xs. res_start x \<le> res_end x \<Longrightarrow> distinct xs"
  by (induction xs) (auto dest: leD)

lemma insert_child_last: "\<forall>c \<in> set cs. res_start c < res_start m \<Longrightarrow> insert_child m cs = cs @ [m]"
  by (induction cs) (auto simp: not_le)

lemma ordered_children_append:
  "ordered_children (xs @ ys) \<longleftrightarrow> ordered_children xs \<and> ordered_children ys
     \<and> (\<forall>x \<in> set xs. \<forall>y \<in> set ys. res_end x < res_start y)"
  by (induction xs) auto

lemma shelter_loop_all:
  assumes "res_children (res u) = n # rs" "res_children n = ms" "\<forall>m \<in> set ms. res_children m = []"
  shows "shelter_loop first ms u = Some (0, (set_numa (set_children [] n) u)\<lparr>memdev_res_shelter :=
     (if ms = [] then memdev_res_shelter u else if first then ms else memdev_res_shelter u @ ms)\<rparr>)"
  using assms
proof (induction ms arbitrary: u n first)
  case Nil
  then show ?case using set_numa_same [of u n rs] set_children_same [of n] by simp
next
  case (Cons m ms)
  let ?n = "set_children ms n"
  let ?u = "(set_numa ?n u)\<lparr>memdev_res_shelter := (if first then [m] else memdev_res_shelter u @ [m])\<rparr>"
  have m: "set_children [] m = m" using Cons.prems(3) set_children_same [of m] by simp
  have "shelter_loop first (m # ms) u = shelter_loop False ms ?u"
    using Cons.prems m by (simp add: release_resource_def)
  also have "\<dots> = Some (0, (set_numa (set_children [] ?n) ?u)\<lparr>memdev_res_shelter :=
      (if ms = [] then memdev_res_shelter ?u else memdev_res_shelter ?u @ ms)\<rparr>)"
    using Cons.IH [of ?u ?n False] Cons.prems by simp
  finally show ?case by simp
qed

lemma restore_loop_all:
  assumes "res_children (res u) = n # rs" "leaves_ok (set_children (res_children n @ ms) n)"
  shows "restore_loop ms u = Some ((set_numa (set_children (res_children n @ ms) n) u)\<lparr>memdev_res_shelter := []\<rparr>)"
  using assms
proof (induction ms arbitrary: u n)
  case Nil
  then show ?case by (simp add: set_numa_same)
next
  case (Cons m ms)
  let ?cs = "res_children n"
  let ?n = "set_children (?cs @ [m]) n"
  have o: "ordered_children (?cs @ m # ms)"
    and b: "\<And>c. c \<in> set (?cs @ m # ms) \<Longrightarrow> res_start n \<le> res_start c \<and> res_start c \<le> res_end c \<and> res_end c \<le> res_end n"
    using Cons.prems(2) unfolding leaves_ok_def set_children_sel by blast+
  have before: "res_start c \<le> res_end c \<and> res_end c < res_start m" if "c \<in> set ?cs" for c
    using o b [of c] that unfolding ordered_children_append by simp
  have "\<not> res_touch m c" if "c \<in> set ?cs" for c
    using before [OF that] by (auto simp: res_touch_def dest: order_trans)
  then have "request_resource n m = (0, ?n)"
    using b [of m] before insert_child_last [of ?cs m] order_le_less_trans
    by (fastforce simp: request_resource_def)
  then have "restore_loop (m # ms) u = restore_loop ms ((set_numa ?n u)\<lparr>memdev_res_shelter := ms\<rparr>)"
    using Cons.prems(1) by simp
  then show ?case using Cons.IH [of "(set_numa ?n u)\<lparr>memdev_res_shelter := ms\<rparr>" ?n] Cons.prems by simp
qed

text \<open>C33: the leaves of a pre-imported range survive hot-plug: they are all taken out of the tree under
  the lock, and once the NUMA node exists again with the same bounds they are put back in the same
  order, the shelter is empty and the lock is free.\<close>

theorem shelter_round_trip:
  assumes "res_preimport u" "res_children (res u) = n # rs" "leaves_ok n" "memdev_res_shelter u = []"
    and "res_start n' = res_start n" "res_end n' = res_end n" "res_children n' = []"
  shows "\<exists>u'. lock_save_memdev_descendents u = Some (0, u') \<and> res_mutex u'
    \<and> res_children (res u') = set_children [] n # rs \<and> memdev_res_shelter u' = res_children n
    \<and> restore_unlock_memdev_descendents (set_numa n' u')
        = Some ((set_numa (set_children (res_children n) n') u)\<lparr>res_mutex := False\<rparr>)"
proof -
  let ?u = "(set_numa (set_children [] n) (u\<lparr>res_mutex := True\<rparr>))\<lparr>memdev_res_shelter := res_children n\<rparr>"
  let ?v = "set_numa n' ?u"
  have c: "\<forall>m \<in> set (res_children n). res_children m = []" using assms(3) by (simp add: leaves_ok_def)
  have "lock_save_memdev_descendents u = Some (0, ?u)"
    using assms(1,2,4) shelter_loop_all [OF _ refl c, of "u\<lparr>res_mutex := True\<rparr>" rs True]
    by (cases "res_children n = []") (auto simp: lock_save_memdev_descendents_def Let_def)
  moreover have "restore_loop (res_children n) ?v
      = Some ((set_numa (set_children (res_children n) n') ?v)\<lparr>memdev_res_shelter := []\<rparr>)"
    using restore_loop_all [of ?v n' rs "res_children n"] assms(2,3,5,6,7) by (simp add: leaves_ok_def)
  then have "restore_unlock_memdev_descendents ?v
      = Some ((set_numa (set_children (res_children n) n') u)\<lparr>res_mutex := False\<rparr>)"
    using assms(1,4) by (simp add: restore_unlock_memdev_descendents_def restore_sheltered_memdev_locked_def)
  ultimately show ?thesis using assms(2) by (intro exI [of _ ?u]) simp
qed

text \<open>A memory device resource that was set up is released without error and leaves the tree as it
  was; the device's node lies inside its parent and touches no other device.\<close>

lemma memdev_round_trip:
  assumes "setup_memdev_resource True True pa sz mem_id u = (Inr m, u')"
    and "\<forall>c \<in> set (res_children (res u)). res_name c \<noteq> memdev_name mem_id"
  shows "release_memdev_resource m u' = (0, u)
    \<and> (case res_children (res u) of [] \<Rightarrow> True | n # _ \<Rightarrow> res_start n \<le> pa \<and> (\<forall>c \<in> set (res_children n). \<not> res_touch m c))"
proof -
  have m: "m = Resource pa (pa + sz - 1) (memdev_name mem_id) []"
    using assms(1) by (auto simp: setup_memdev_resource_def Let_def split: list.splits if_splits prod.splits)
  have req: "p' = set_children (insert_child m (res_children p)) p \<and> m \<notin> set (res_children p)
      \<and> res_start p \<le> pa \<and> (\<forall>c \<in> set (res_children p). \<not> res_touch m c)"
    if "request_resource p m = (0, p')" for p p'
    using that by (auto simp: request_resource_def m res_touch_def not_less split: if_splits)
  have rem: "m \<notin> set cs \<Longrightarrow> m \<in> set (insert_child m cs) \<and> remove1 m (insert_child m cs) = cs" for cs
    by (induction cs) auto
  show ?thesis
  proof (cases "res_children (res u)")
    case Nil
    then obtain p where "request_resource (res u) m = (0, p)" "u' = u\<lparr>res := p\<rparr>"
      using assms(1) by (auto simp: setup_memdev_resource_def m Let_def split: if_splits prod.splits)
    then show ?thesis using req [of "res u" p] Nil set_children_same [of "res u"]
      by (auto simp: release_memdev_resource_def release_resource_def)
  next
    case (Cons n rs)
    then obtain p where r: "request_resource n m = (0, p)" and u': "u' = set_numa p u"
      using assms(1) by (auto simp: setup_memdev_resource_def m Let_def split: if_splits prod.splits)
    note q = req [OF r]
    have nm: "res_name p = res_name n" using q by simp
    have "m \<notin> set (p # rs)" using assms(2) Cons nm by (auto simp: m)
    then have "release_memdev_resource m u' = (0, set_numa (set_children (remove1 m (res_children p)) p) u')"
      using q rem [of "res_children n"] Cons by (simp add: u' release_memdev_resource_def release_resource_def)
    also have "\<dots> = (0, u)" using q rem [of "res_children n"] Cons by (simp add: u' set_numa_same)
    finally show ?thesis using q Cons by simp
  qed
qed


theorem shelter_round_trip_witness:
  "\<exists>u'. lock_save_memdev_descendents demo_ubmem = Some (0, u')
     \<and> restore_unlock_memdev_descendents (set_numa (set_children [] demo_numa) u') = Some demo_ubmem"
proof -
  have "leaves_ok demo_numa" by (simp add: leaves_ok_def demo_numa_def)
  from shelter_round_trip [of demo_ubmem demo_numa "[]" "set_children [] demo_numa", OF _ _ this]
  show ?thesis by (auto simp: demo_ubmem_def set_numa_def)
qed


end
