(* ===== verification/Obmm_Preimport.thy ===== *)
theory Obmm_Preimport
  imports Obmm_Types Obmm_Addr_Check Obmm_Resource Numa_Nodes
begin

text \<open>
  Pre-imported ranges (\<^verbatim>\<open>drivers/ub/obmm/obmm_preimport.c\<close>, \<^verbatim>\<open>obmm_preimport_prefilled.c\<close>).  A range of
  physical addresses is set aside and its page structures are prepared before anything is imported
  into it; each later import takes some of its memory blocks, which a bitmap records, and holds a
  reference that keeps the range from being released.

  Objects that several pointers share (the ranges and their resources) live in stores indexed by
  natural numbers, the model of their addresses.  Memory hot-plug, the UB memory decoder and the
  allocator are functions of an environment over an abstract world.
\<close>

section \<open>Data\<close>

record obmm_cmd_preimport =
  pi_pa :: u64
  pi_length :: u64
  pi_flags :: u64
  pi_scna :: u32
  pi_dcna :: u32
  pi_numa_id :: int
  pi_base_dist :: u8
  pi_deid :: "u8 list"
  pi_seid :: "u8 list"

record obmm_datapath =
  dp_scna :: u32
  dp_dcna :: u32
  dp_seid :: "u8 list"
  dp_deid :: "u8 list"

record preimport_range =
  pr_numa_id :: int
  pr_start :: u64
  pr_end :: u64
  pr_scna :: u32
  pr_dcna :: u32
  pr_seid :: "u8 list"
  pr_deid :: "u8 list"
  use_count :: u32

record prefilled_preimport_range =
  pr :: preimport_range
  nbits :: u64
  bitmap :: "bool list"
  ppr_res :: nat

text \<open>What the register of address ranges stores for a range: the marker of an unfinished pre-import, a
  pre-imported range, or an imported region.\<close>

datatype addr_data = Not_Ready | Ppr nat | Import_Region nat

text \<open>The flags of a hot-plug request; their values belong to the kernel.\<close>

datatype hotplug_flags = MEMORY_NO_FLAGS | MEMORY_DIRECT_ONLINE | MEMORY_KEEP_ISOLATED

text \<open>The services outside the driver.  Hot-plug also changes the resource tree, so it is given the node
  of the range and returns it.\<close>

record 'w pre_env =
  memory_block_size_bytes :: u64
  ub_mem_get_numa_id :: "u32 \<Rightarrow> int"
  ub_memory_validate_pa :: "u32 \<Rightarrow> u64 \<Rightarrow> u64 \<Rightarrow> bool \<Rightarrow> bool"
  node_distance :: "int \<Rightarrow> int \<Rightarrow> int"
  alloc_ok :: "'w \<Rightarrow> bool \<times> 'w"
  insert_iomem :: "u64 \<Rightarrow> u64 \<Rightarrow> 'w \<Rightarrow> int \<times> 'w"
  remove_iomem :: "resource \<Rightarrow> 'w \<Rightarrow> int \<times> 'w"
  hotplug_add :: "int \<Rightarrow> u64 \<Rightarrow> u64 \<Rightarrow> hotplug_flags \<Rightarrow> resource \<Rightarrow> 'w \<Rightarrow> int \<times> resource \<times> 'w"
  hotplug_remove :: "int \<Rightarrow> u64 \<Rightarrow> u64 \<Rightarrow> resource \<Rightarrow> 'w \<Rightarrow> int \<times> resource \<times> 'w"
  numa_remote_set_distance :: "int \<Rightarrow> int list \<Rightarrow> int list \<Rightarrow> 'w \<Rightarrow> int \<times> 'w"
  try_module_get :: "'w \<Rightarrow> bool"
  pre_numa :: numa_env

record 'w pre_state =
  checker :: "addr_data pa_checker"
  pprs :: "nat \<Rightarrow> prefilled_preimport_range option"
  ubmems :: "nat \<Rightarrow> ubmem_resource option"
  pr_list :: "nat list"
  module_refs :: int
  next_ptr :: nat
  kworld :: 'w

abbreviation (input) LOCAL_DISTANCE :: int where "LOCAL_DISTANCE \<equiv> 10"

abbreviation ppr_at :: "'w pre_state \<Rightarrow> nat \<Rightarrow> prefilled_preimport_range" where
  "ppr_at st h \<equiv> the (pprs st h)"

definition set_ppr :: "nat \<Rightarrow> prefilled_preimport_range \<Rightarrow> 'w pre_state \<Rightarrow> 'w pre_state" where
  "set_ppr h p st = st\<lparr>pprs := (pprs st)(h \<mapsto> p)\<rparr>"

text \<open>Hot-plug of memory below the resource at address \<open>u\<close>.\<close>

definition add_memory_remote :: "'w pre_env \<Rightarrow> int \<Rightarrow> u64 \<Rightarrow> u64 \<Rightarrow> hotplug_flags \<Rightarrow> nat \<Rightarrow> 'w pre_state \<Rightarrow> int \<times> 'w pre_state" where
  "add_memory_remote env nd start sz flags u st =
     (let ub = the (ubmems st u);
          (ret, r, w) = hotplug_add env nd start sz flags (res ub) (kworld st)
      in (ret, st\<lparr>ubmems := (ubmems st)(u \<mapsto> ub\<lparr>res := r\<rparr>), kworld := w\<rparr>))"

definition remove_memory_remote :: "'w pre_env \<Rightarrow> int \<Rightarrow> u64 \<Rightarrow> u64 \<Rightarrow> nat \<Rightarrow> 'w pre_state \<Rightarrow> int \<times> 'w pre_state" where
  "remove_memory_remote env nd start sz u st =
     (let ub = the (ubmems st u);
          (ret, r, w) = hotplug_remove env nd start sz (res ub) (kworld st)
      in (ret, st\<lparr>ubmems := (ubmems st)(u \<mapsto> ub\<lparr>res := r\<rparr>), kworld := w\<rparr>))"

section \<open>Operations common to all kinds of pre-import\<close>

definition validate_scna :: "'w pre_env \<Rightarrow> u32 \<Rightarrow> bool" where
  "validate_scna env scna \<longleftrightarrow> \<not> ub_mem_get_numa_id env scna < 0"

definition is_numa_base_dist_valid :: "u8 \<Rightarrow> bool" where
  "is_numa_base_dist_valid base_dist \<longleftrightarrow>
     (if uint base_dist > MAX_NUMA_DIST then False
      else if base_dist \<noteq> 0 \<and> uint base_dist \<le> LOCAL_DISTANCE then False
      else True)"

definition obmm_set_numa_distance :: "'w pre_env \<Rightarrow> u32 \<Rightarrow> int \<Rightarrow> u8 \<Rightarrow> 'w \<Rightarrow> int \<times> 'w" where
  "obmm_set_numa_distance env cna nid_remote base_dist w =
     (if \<not> is_numa_base_dist_valid base_dist then (- EINVAL, w)
      else
        let nid_local = ub_mem_get_numa_id env cna
        in if nid_local < 0 then (- ENODEV, w)
           else if base_dist = 0 then (0, w)
           else
             let min_dist = node_distance env nid_local nid_local;
                 nids = map int (online_local_nodes (pre_numa env));
                 node_distances = map (\<lambda>nd. min MAX_NUMA_DIST (uint base_dist + node_distance env nid_local nd - min_dist)) nids
             in numa_remote_set_distance env nid_remote nids node_distances w)"

definition check_preimport_cmd_common :: "'w pre_env \<Rightarrow> obmm_cmd_preimport \<Rightarrow> int" where
  "check_preimport_cmd_common env cmd =
     (if pi_length cmd mod memory_block_size_bytes env \<noteq> 0 then - EINVAL
      else if pi_pa cmd mod memory_block_size_bytes env \<noteq> 0 then - EINVAL
      else if pi_length cmd > - 1 - pi_pa cmd then - EINVAL
      else if pi_length cmd = 0 then - EINVAL
      else if pi_flags cmd AND NOT OBMM_PREIMPORT_FLAG_MASK \<noteq> 0 then - EINVAL
      else if \<not> validate_scna env (pi_scna cmd) then - ENODEV
      else if \<not> is_numa_base_dist_valid (pi_base_dist cmd) then - EINVAL
      else 0)"

definition preimport_prepare_common :: "'w pre_env \<Rightarrow> nat \<Rightarrow> u8 \<Rightarrow> 'w pre_state \<Rightarrow> int \<times> 'w pre_state" where
  "preimport_prepare_common env h base_dist st =
     (let p = pr (ppr_at st h); u = ppr_res (ppr_at st h); sz = pr_end p - pr_start p + 1
      in if \<not> ub_memory_validate_pa env (pr_scna p) (pr_start p) (pr_end p) True then (- EINVAL, st)
         else
           let (ret, st1) = add_memory_remote env (pr_numa_id p) (pr_start p) sz MEMORY_KEEP_ISOLATED u st
           in if ret < 0 then (- EPERM, st1)
              else
                let st2 = set_ppr h ((ppr_at st1 h)\<lparr>pr := p\<lparr>pr_numa_id := ret\<rparr>\<rparr>) st1;
                    (ret2, w) = obmm_set_numa_distance env (pr_scna p) ret base_dist (kworld st2);
                    st3 = st2\<lparr>kworld := w\<rparr>
                in if ret2 < 0
                   then (ret2, snd (remove_memory_remote env ret (pr_start p) sz u st3))
                   else (0, st3\<lparr>pr_list := h # pr_list st3\<rparr>))"

definition preimport_release_common :: "'w pre_env \<Rightarrow> nat \<Rightarrow> bool \<Rightarrow> 'w pre_state \<Rightarrow> int \<times> 'w pre_state" where
  "preimport_release_common env h force st =
     (let p = pr (ppr_at st h); u = ppr_res (ppr_at st h);
          (ret, st1) = remove_memory_remote env (pr_numa_id p) (pr_start p) (pr_end p - pr_start p + 1) u st
      in if ret \<noteq> 0 \<and> \<not> force then (ret, st1)
         else (ret, st1\<lparr>pr_list := removeAll h (pr_list st1)\<rparr>))"

definition check_preimport_datapath_common :: "preimport_range \<Rightarrow> obmm_datapath \<Rightarrow> int" where
  "check_preimport_datapath_common p dp =
     (if pr_scna p \<noteq> dp_scna dp \<or> pr_dcna p \<noteq> dp_dcna dp then - EINVAL
      else if pr_seid p \<noteq> dp_seid dp then - EINVAL
      else if pr_deid p \<noteq> dp_deid dp then - EINVAL
      else 0)"

section \<open>Prefilled ranges\<close>

text \<open>The return code after a failed resource is read from the range that was just freed; the value that
  it had is taken.\<close>

definition create_prefilled_preimport_range :: "'w pre_env \<Rightarrow> obmm_cmd_preimport \<Rightarrow> 'w pre_state
    \<Rightarrow> int \<times> nat option \<times> 'w pre_state" where
  "create_prefilled_preimport_range env cmd st =
     (let (ok1, w1) = alloc_ok env (kworld st)
      in if \<not> ok1 then (- ENOMEM, None, st\<lparr>kworld := w1\<rparr>)
         else
           let nb = pi_length cmd div memory_block_size_bytes env;
               (ok2, w2) = alloc_ok env w1
           in if \<not> ok2 then (- ENOMEM, None, st\<lparr>kworld := w2\<rparr>)
              else
                let (ok3, w3) = alloc_ok env w2;
                    (iret, w4) = (if ok3 then insert_iomem env (pi_pa cmd) (pi_pa cmd + pi_length cmd - 1) w3 else (0, w3))
                in case setup_ubmem_resource ok3 iret (pi_pa cmd) (pi_length cmd) True of
                     Inl err \<Rightarrow> (err, None, st\<lparr>kworld := w4\<rparr>)
                   | Inr ub \<Rightarrow>
                       let h = next_ptr st; u = Suc h;
                           p = \<lparr>pr = \<lparr>pr_numa_id = pi_numa_id cmd, pr_start = pi_pa cmd,
                                      pr_end = pi_pa cmd + pi_length cmd - 1, pr_scna = pi_scna cmd,
                                      pr_dcna = pi_dcna cmd, pr_seid = pi_seid cmd, pr_deid = pi_deid cmd,
                                      use_count = 0\<rparr>,
                                nbits = nb, bitmap = replicate (unat nb) False, ppr_res = u\<rparr>
                       in (0, Some h, st\<lparr>pprs := (pprs st)(h \<mapsto> p), ubmems := (ubmems st)(u \<mapsto> ub),
                                          next_ptr := Suc u, kworld := w4\<rparr>))"

definition destroy_prefilled_preimport_range :: "'w pre_env \<Rightarrow> nat \<Rightarrow> 'w pre_state \<Rightarrow> 'w pre_state" where
  "destroy_prefilled_preimport_range env h st =
     (let u = ppr_res (ppr_at st h);
          (rret, w) = remove_iomem env (res (the (ubmems st u))) (kworld st);
          (_, freed) = release_ubmem_resource rret
      in st\<lparr>ubmems := (if freed then (ubmems st)(u := None) else ubmems st),
            pprs := (pprs st)(h := None), kworld := w\<rparr>)"

text \<open>The result is the return code and, on success, the handle.\<close>

definition get_pa_mapping :: "u64 \<Rightarrow> 'w pre_state \<Rightarrow> int \<times> nat option" where
  "get_pa_mapping x st =
     (let (ret, i) = query_pa_range x (Some \<lparr>user = OBMM_ADDR_USER_PREIMPORT, info_data = Not_Ready\<rparr>) (checker st)
      in if ret \<noteq> 0 then (ret, None)
         else if user (the i) \<noteq> OBMM_ADDR_USER_PREIMPORT then (- EINVAL, None)
         else case info_data (the i) of
                Not_Ready \<Rightarrow> (- EAGAIN, None)
              | Ppr h \<Rightarrow> (0, Some h)
              | Import_Region r \<Rightarrow> (0, Some r))"

definition check_preimport_cmd :: "'w pre_env \<Rightarrow> obmm_cmd_preimport \<Rightarrow> int" where
  "check_preimport_cmd env cmd =
     (let ret = check_preimport_cmd_common env cmd
      in if ret \<noteq> 0 then ret else if pi_pa cmd = 0 then - EINVAL else 0)"

text \<open>A reservation in the register draws the outcomes of its two allocations from the world.\<close>

definition occupy_range :: "'w pre_env \<Rightarrow> addr_data obmm_pa_range \<Rightarrow> 'w pre_state \<Rightarrow> int \<times> 'w pre_state" where
  "occupy_range env r st =
     (let (ok1, w1) = alloc_ok env (kworld st);
          (ok2, w2) = (if ok1 then alloc_ok env w1 else (False, w1));
          (ret, c) = occupy_pa_range \<lparr>kmemdup_ok = ok1, mt_node_ok = ok2\<rparr> r (checker st)
      in (ret, st\<lparr>checker := c, kworld := w2\<rparr>))"

definition free_range :: "addr_data obmm_pa_range \<Rightarrow> 'w pre_state \<Rightarrow> int \<times> 'w pre_state" where
  "free_range r st = (let (ret, c) = free_pa_range r (checker st) in (ret, st\<lparr>checker := c\<rparr>))"

definition preimport_prepare_prefilled :: "'w pre_env \<Rightarrow> obmm_cmd_preimport \<Rightarrow> 'w pre_state
    \<Rightarrow> int \<times> obmm_cmd_preimport \<times> 'w pre_state" where
  "preimport_prepare_prefilled env cmd st =
     (let ret = check_preimport_cmd env cmd
      in if ret \<noteq> 0 then (ret, cmd, st)
         else
           let r = \<lparr>pa_start = pi_pa cmd, pa_end = pi_pa cmd + pi_length cmd - 1,
                    info = \<lparr>user = OBMM_ADDR_USER_PREIMPORT, info_data = Not_Ready\<rparr>\<rparr>;
               (ret1, st1) = occupy_range env r st
           in if ret1 \<noteq> 0 then (ret1, cmd, st1)
              else
                let (ret2, hopt, st2) = create_prefilled_preimport_range env cmd st1
                in if ret2 \<noteq> 0 then (ret2, cmd, snd (free_range r st2))
                   else
                     let h = the hopt; (ret3, st3) = preimport_prepare_common env h (pi_base_dist cmd) st2
                     in if ret3 \<noteq> 0
                        then (ret3, cmd, snd (free_range r (destroy_prefilled_preimport_range env h st3)))
                        else
                          let cmd1 = cmd\<lparr>pi_numa_id := pr_numa_id (pr (ppr_at st3 h))\<rparr>;
                              r1 = r\<lparr>info := \<lparr>user = OBMM_ADDR_USER_PREIMPORT, info_data = Ppr h\<rparr>\<rparr>;
                              (ret4, c4) = update_pa_range (pa_start r1) (Some (info r1)) (checker st3)
                          in if ret4 \<noteq> 0
                             then (ret4, cmd1\<lparr>pi_numa_id := NUMA_NO_NODE\<rparr>,
                                   snd (free_range r1 (destroy_prefilled_preimport_range env h
                                     (snd (preimport_release_common env h True st3)))))
                             else (0, cmd1, st3\<lparr>checker := c4\<rparr>))"

definition preimport_release_prefilled :: "'w pre_env \<Rightarrow> u64 \<Rightarrow> u64 \<Rightarrow> 'w pre_state \<Rightarrow> int \<times> 'w pre_state" where
  "preimport_release_prefilled env start stop st =
     (let (ret, hopt) = get_pa_mapping start st
      in if ret \<noteq> 0 then (ret, st)
         else
           let h = the hopt; p = pr (ppr_at st h)
           in if pr_start p \<noteq> start \<or> pr_end p \<noteq> stop then (- EINVAL, st)
              else if use_count p \<noteq> 0 then (- EBUSY, st)
              else
                let (ret1, st1) = preimport_release_common env h False st
                in if ret1 \<noteq> 0 then (ret1, st1)
                   else
                     let r = \<lparr>pa_start = pr_start p, pa_end = pr_end p,
                              info = \<lparr>user = OBMM_ADDR_USER_PREIMPORT, info_data = Ppr h\<rparr>\<rparr>;
                         (_, st2) = free_range r st1
                     in (ret1, destroy_prefilled_preimport_range env h st2))"

definition get_ppr :: "u64 \<Rightarrow> 'w pre_state \<Rightarrow> int \<times> nat option \<times> 'w pre_state" where
  "get_ppr x st =
     (let (ret, hopt) = get_pa_mapping x st
      in if ret \<noteq> 0 then (ret, None, st)
         else
           let h = the hopt; p = ppr_at st h
           in (0, Some h, set_ppr h (p\<lparr>pr := (pr p)\<lparr>use_count := use_count (pr p) + 1\<rparr>\<rparr>) st))"

definition put_ppr :: "nat \<Rightarrow> 'w pre_state \<Rightarrow> 'w pre_state" where
  "put_ppr h st = (let p = ppr_at st h in set_ppr h (p\<lparr>pr := (pr p)\<lparr>use_count := use_count (pr p) - 1\<rparr>\<rparr>) st)"

definition block_bits :: "u64 \<Rightarrow> prefilled_preimport_range \<Rightarrow> u64 \<Rightarrow> u64 \<Rightarrow> nat list" where
  "block_bits blk p start stop = [unat ((start - pr_start (pr p)) div blk)..<Suc (unat ((stop - pr_start (pr p)) div blk))]"

definition set_bits :: "bool \<Rightarrow> nat list \<Rightarrow> bool list \<Rightarrow> bool list" where
  "set_bits b bits m = fold (\<lambda>i m. m[i := b]) bits m"

definition occupy_ppr_blocks :: "u64 \<Rightarrow> prefilled_preimport_range \<Rightarrow> u64 \<Rightarrow> u64 \<Rightarrow> int \<times> prefilled_preimport_range" where
  "occupy_ppr_blocks blk p start stop =
     (if start < pr_start (pr p) \<or> stop > pr_end (pr p) then (- EINVAL, p)
      else if \<exists>i \<in> set (block_bits blk p start stop). bitmap p ! i then (- EEXIST, p)
      else (0, p\<lparr>bitmap := set_bits True (block_bits blk p start stop) (bitmap p)\<rparr>))"

definition free_ppr_blocks :: "u64 \<Rightarrow> prefilled_preimport_range \<Rightarrow> u64 \<Rightarrow> u64 \<Rightarrow> int \<times> prefilled_preimport_range" where
  "free_ppr_blocks blk p start stop =
     (if start < pr_start (pr p) \<or> stop > pr_end (pr p) then (- EINVAL, p)
      else if \<exists>i \<in> set (block_bits blk p start stop). \<not> bitmap p ! i then (- EINVAL, p)
      else (0, p\<lparr>bitmap := set_bits False (block_bits blk p start stop) (bitmap p)\<rparr>))"

text \<open>The result carries, on success, the NUMA node and the handle.\<close>

definition preimport_commit_prefilled :: "'w pre_env \<Rightarrow> u64 \<Rightarrow> u64 \<Rightarrow> obmm_datapath \<Rightarrow> 'w pre_state
    \<Rightarrow> int \<times> (int \<times> nat) option \<times> 'w pre_state" where
  "preimport_commit_prefilled env start stop dp st =
     (let (ret, hopt, st1) = get_ppr start st
      in if ret \<noteq> 0 then (ret, None, st1)
         else
           let h = the hopt; ret1 = check_preimport_datapath_common (pr (ppr_at st1 h)) dp
           in if ret1 \<noteq> 0 then (ret1, None, put_ppr h st1)
              else
                let (ret2, p) = occupy_ppr_blocks (memory_block_size_bytes env) (ppr_at st1 h) start stop
                in if ret2 \<noteq> 0 then (ret2, None, put_ppr h st1)
                   else (0, Some (pr_numa_id (pr p), h), set_ppr h p st1))"

definition preimport_uncommit_prefilled :: "'w pre_env \<Rightarrow> nat \<Rightarrow> u64 \<Rightarrow> u64 \<Rightarrow> 'w pre_state \<Rightarrow> int \<times> 'w pre_state" where
  "preimport_uncommit_prefilled env h start stop st =
     (let (ret, p) = free_ppr_blocks (memory_block_size_bytes env) (ppr_at st h) start stop
      in if ret \<noteq> 0 then (ret, st)
         else (ret, put_ppr h (set_ppr h p st)))"

definition preimport_get_resource_prefilled :: "nat \<Rightarrow> 'w pre_state \<Rightarrow> nat" where
  "preimport_get_resource_prefilled h st = ppr_res (ppr_at st h)"

section \<open>Requests of the user\<close>

definition obmm_preimport :: "'w pre_env \<Rightarrow> obmm_cmd_preimport \<Rightarrow> 'w pre_state \<Rightarrow> int \<times> obmm_cmd_preimport \<times> 'w pre_state" where
  "obmm_preimport env cmd st =
     (if \<not> try_module_get env (kworld st) then (- EPERM, cmd, st)
      else
        let st0 = st\<lparr>module_refs := module_refs st + 1\<rparr>;
            (ret, cmd1, st1) = preimport_prepare_prefilled env cmd st0
        in if ret \<noteq> 0 then (ret, cmd1, st1\<lparr>module_refs := module_refs st1 - 1\<rparr>) else (ret, cmd1, st1))"

definition check_unpreimport_cmd_common :: "obmm_cmd_preimport \<Rightarrow> int" where
  "check_unpreimport_cmd_common cmd = (if pi_flags cmd AND NOT OBMM_UNPREIMPORT_FLAG_MASK \<noteq> 0 then - EINVAL else 0)"

definition obmm_unpreimport :: "'w pre_env \<Rightarrow> obmm_cmd_preimport \<Rightarrow> 'w pre_state \<Rightarrow> int \<times> 'w pre_state" where
  "obmm_unpreimport env cmd st =
     (let ret = check_unpreimport_cmd_common cmd
      in if ret \<noteq> 0 then (ret, st)
         else
           let (ret1, st1) = preimport_release_prefilled env (pi_pa cmd) (pi_pa cmd + pi_length cmd - 1) st
           in (ret1, if ret1 = 0 then st1\<lparr>module_refs := module_refs st1 - 1\<rparr> else st1))"

text \<open>The directory and the file below \<^verbatim>\<open>/proc\<close>: the return code and whether they exist afterwards.\<close>

definition init_preimport_info_seqfile :: "bool \<Rightarrow> bool \<Rightarrow> int \<times> bool" where
  "init_preimport_info_seqfile mkdir_ok create_ok =
     (if \<not> mkdir_ok then (- ENOMEM, False) else if \<not> create_ok then (- ENOMEM, False) else (0, True))"

definition module_preimport_init :: "bool \<Rightarrow> bool \<Rightarrow> int \<times> bool" where
  "module_preimport_init mkdir_ok create_ok =
     (let (ret, f) = init_preimport_info_seqfile mkdir_ok create_ok in if ret \<noteq> 0 then (ret, f) else (0, f))"

section \<open>Interleaved use of pre-imported ranges\<close>

text \<open>The steps of all users of pre-imported ranges, one for each section of code that runs under one
  lock.  Beside the state, \<open>refs\<close> lists the references that commits in progress hold and \<open>committed\<close>
  the address ranges that imports have taken, each with its handle.  Ranges are not empty and there
  are fewer than \<open>2 ^ 32\<close> references at any time.\<close>

record 'w pre_sys =
  sys_st :: "'w pre_state"
  refs :: "nat list"
  committed :: "(nat \<times> u64 \<times> u64) list"

inductive pre_step :: "'w pre_env \<Rightarrow> 'w pre_sys \<Rightarrow> 'w pre_sys \<Rightarrow> bool" for env where
  prepare: "preimport_prepare_prefilled env cmd (sys_st s) = (ret, cmd', st') \<Longrightarrow> pre_step env s (s\<lparr>sys_st := st'\<rparr>)"
| release: "preimport_release_prefilled env a b (sys_st s) = (ret, st') \<Longrightarrow> pre_step env s (s\<lparr>sys_st := st'\<rparr>)"
| get: "get_ppr x (sys_st s) = (0, Some h, st') \<Longrightarrow> length (refs s) + length (committed s) < 2 ^ 32 - 1
    \<Longrightarrow> pre_step env s (s\<lparr>sys_st := st', refs := h # refs s\<rparr>)"
| take: "h \<in> set (refs s) \<Longrightarrow> a \<le> b
    \<Longrightarrow> occupy_ppr_blocks (memory_block_size_bytes env) (ppr_at (sys_st s) h) a b = (0, p)
    \<Longrightarrow> pre_step env s (s\<lparr>sys_st := set_ppr h p (sys_st s), refs := remove1 h (refs s), committed := (h, a, b) # committed s\<rparr>)"
| drop: "h \<in> set (refs s)
    \<Longrightarrow> pre_step env s (s\<lparr>sys_st := put_ppr h (sys_st s), refs := remove1 h (refs s)\<rparr>)"
| untake: "(h, a, b) \<in> set (committed s)
    \<Longrightarrow> free_ppr_blocks (memory_block_size_bytes env) (ppr_at (sys_st s) h) a b = (0, p)
    \<Longrightarrow> pre_step env s (s\<lparr>sys_st := set_ppr h p (sys_st s), refs := h # refs s, committed := remove1 (h, a, b) (committed s)\<rparr>)"
| direct_occupy: "user (info r) = OBMM_ADDR_USER_DIRECT_IMPORT \<Longrightarrow> occupy_range env r (sys_st s) = (ret, st')
    \<Longrightarrow> pre_step env s (s\<lparr>sys_st := st'\<rparr>)"
| direct_free: "covering (checker (sys_st s)) (pa_start r) = Some e \<Longrightarrow> user (info e) = OBMM_ADDR_USER_DIRECT_IMPORT
    \<Longrightarrow> pa_start e = pa_start r \<Longrightarrow> free_range r (sys_st s) = (ret, st')
    \<Longrightarrow> pre_step env s (s\<lparr>sys_st := st'\<rparr>)"

text \<open>The state after loading the module, with nothing registered.\<close>

definition pre_start :: "'w \<Rightarrow> 'w pre_sys" where
  "pre_start w = \<lparr>sys_st = \<lparr>checker = module_addr_check_init, pprs = (\<lambda>_. None), ubmems = (\<lambda>_. None), pr_list = [],
     module_refs = 0, next_ptr = 0, kworld = w\<rparr>, refs = [], committed = []\<rparr>"

inductive pre_reachable :: "'w pre_env \<Rightarrow> 'w pre_sys \<Rightarrow> bool" for env where
  start: "pre_reachable env (pre_start w)"
| step: "pre_reachable env s \<Longrightarrow> pre_step env s s' \<Longrightarrow> pre_reachable env s'"

section \<open>Invariant\<close>

definition ppr_ok :: "u64 \<Rightarrow> prefilled_preimport_range \<Rightarrow> bool" where
  "ppr_ok blk p \<longleftrightarrow> pr_start (pr p) \<le> pr_end (pr p)
     \<and> unat (pr_end (pr p)) - unat (pr_start (pr p)) + 1 = length (bitmap p) * unat blk"

definition ppr_entry :: "nat \<Rightarrow> prefilled_preimport_range \<Rightarrow> addr_data obmm_pa_range" where
  "ppr_entry h p = \<lparr>pa_start = pr_start (pr p), pa_end = pr_end (pr p),
     info = \<lparr>user = OBMM_ADDR_USER_PREIMPORT, info_data = Ppr h\<rparr>\<rparr>"

text \<open>The register and the store of ranges agree.\<close>

definition reg_inv :: "u64 \<Rightarrow> 'w pre_state \<Rightarrow> bool" where
  "reg_inv blk st \<longleftrightarrow> checker_inv (checker st)
     \<and> (\<forall>x e. covering (checker st) x = Some e \<longrightarrow> user (info e) = OBMM_ADDR_USER_PREIMPORT \<longrightarrow>
          (\<exists>h p. pprs st h = Some p \<and> e = ppr_entry h p))
     \<and> (\<forall>h p. pprs st h = Some p \<longrightarrow> h < next_ptr st \<and> ppr_ok blk p
          \<and> covering (checker st) (pr_start (pr p)) = Some (ppr_entry h p))"

definition commit_bits :: "u64 \<Rightarrow> prefilled_preimport_range \<Rightarrow> nat \<times> u64 \<times> u64 \<Rightarrow> nat set" where
  "commit_bits blk p c = set (block_bits blk p (fst (snd c)) (snd (snd c)))"

text \<open>Reference counts and bitmaps agree with the references and the commits.\<close>

definition ppr_users :: "u64 \<Rightarrow> 'w pre_sys \<Rightarrow> nat \<Rightarrow> prefilled_preimport_range \<Rightarrow> bool" where
  "ppr_users blk s h p \<longleftrightarrow>
     unat (use_count (pr p)) = count_list (refs s) h + count_list (map fst (committed s)) h
   \<and> (\<forall>i < length (bitmap p). bitmap p ! i \<longleftrightarrow> (\<exists>c \<in> set (committed s). fst c = h \<and> i \<in> commit_bits blk p c))
   \<and> (\<forall>c \<in> set (committed s). fst c = h \<longrightarrow> pr_start (pr p) \<le> fst (snd c) \<and> fst (snd c) \<le> snd (snd c)
        \<and> snd (snd c) \<le> pr_end (pr p))
   \<and> (\<forall>c \<in> set (committed s). \<forall>d \<in> set (committed s). fst c = h \<longrightarrow> fst d = h \<longrightarrow> c \<noteq> d \<longrightarrow>
        commit_bits blk p c \<inter> commit_bits blk p d = {})"

definition ref_inv :: "u64 \<Rightarrow> 'w pre_sys \<Rightarrow> bool" where
  "ref_inv blk s \<longleftrightarrow>
     (\<forall>h \<in> set (refs s) \<union> fst ` set (committed s). pprs (sys_st s) h \<noteq> None)
   \<and> (\<forall>h p. pprs (sys_st s) h = Some p \<longrightarrow> ppr_users blk s h p)
   \<and> distinct (committed s)
   \<and> length (refs s) + length (committed s) < 2 ^ 32"

definition pre_inv :: "'w pre_env \<Rightarrow> 'w pre_sys \<Rightarrow> bool" where
  "pre_inv env s \<longleftrightarrow> reg_inv (memory_block_size_bytes env) (sys_st s) \<and> ref_inv (memory_block_size_bytes env) s"

definition new_ppr :: "'w pre_env \<Rightarrow> obmm_cmd_preimport \<Rightarrow> nat \<Rightarrow> prefilled_preimport_range" where
  "new_ppr env cmd u =
     \<lparr>pr = \<lparr>pr_numa_id = pi_numa_id cmd, pr_start = pi_pa cmd, pr_end = pi_pa cmd + pi_length cmd - 1,
            pr_scna = pi_scna cmd, pr_dcna = pi_dcna cmd, pr_seid = pi_seid cmd, pr_deid = pi_deid cmd, use_count = 0\<rparr>,
      nbits = pi_length cmd div memory_block_size_bytes env,
      bitmap = replicate (unat (pi_length cmd div memory_block_size_bytes env)) False, ppr_res = u\<rparr>"

definition demo_pre_env :: "unit pre_env" where
  "demo_pre_env =
     \<lparr>memory_block_size_bytes = 0x8000000, ub_mem_get_numa_id = (\<lambda>_. 0), ub_memory_validate_pa = (\<lambda>_ _ _ _. True),
      node_distance = (\<lambda>_ _. 10), alloc_ok = (\<lambda>w. (True, w)), insert_iomem = (\<lambda>_ _ w. (0, w)),
      remove_iomem = (\<lambda>_ w. (0, w)), hotplug_add = (\<lambda>nd _ _ _ r w. (if nd < 0 then 1 else nd, r, w)),
      hotplug_remove = (\<lambda>_ _ _ r w. (0, r, w)), numa_remote_set_distance = (\<lambda>_ _ _ w. (0, w)),
      try_module_get = (\<lambda>_. True),
      pre_numa = \<lparr>max_numnodes = 4, node_online = (\<lambda>n. n < 2), numa_is_remote_node = (\<lambda>n. n = 1)\<rparr>\<rparr>"

definition demo_pre_cmd :: obmm_cmd_preimport where
  "demo_pre_cmd = \<lparr>pi_pa = 0x40000000, pi_length = 0x40000000, pi_flags = 0, pi_scna = 1, pi_dcna = 2, pi_numa_id = - 1,
     pi_base_dist = 0, pi_deid = [], pi_seid = []\<rparr>"

text \<open>The range of eight blocks with a use count and a bitmap, and the state that holds it.\<close>

definition demo_ppr :: "int \<Rightarrow> u32 \<Rightarrow> bool list \<Rightarrow> prefilled_preimport_range" where
  "demo_ppr nd n m = \<lparr>pr = \<lparr>pr_numa_id = nd, pr_start = 0x40000000, pr_end = 0x7fffffff, pr_scna = 1, pr_dcna = 2,
       pr_seid = [], pr_deid = [], use_count = n\<rparr>, nbits = 8, bitmap = m, ppr_res = 1\<rparr>"

definition demo_pst :: "u32 \<Rightarrow> bool list \<Rightarrow> unit pre_state" where
  "demo_pst n m = \<lparr>checker = \<lparr>pa_ranges = [(0x40000000, 0x7fffffff, ppr_entry 0 (demo_ppr 1 0 []))]\<rparr>,
     pprs = [0 \<mapsto> demo_ppr 1 n m],
     ubmems = [1 \<mapsto> \<lparr>res = Resource 0x40000000 0x7fffffff ''PREIMPORT_UBMEM'' [], res_preimport = True, res_mutex = False,
                        memdev_res_shelter = []\<rparr>],
     pr_list = [0], module_refs = 0, next_ptr = 2, kworld = ()\<rparr>"

definition demo_taken :: "unit pre_sys" where
  "demo_taken = \<lparr>sys_st = demo_pst 1 [False, True, True, False, False, False, False, False], refs = [],
     committed = [(0, 0x48000000, 0x57ffffff)]\<rparr>"

definition demo_free_bits :: "bool list" where
  "demo_free_bits = [False, False, False, False, False, False, False, False]"

section \<open>Frames\<close>

lemma remote_frame [simp]:
  "checker (snd (add_memory_remote env nd a sz f u st)) = checker st"
  "pprs (snd (add_memory_remote env nd a sz f u st)) = pprs st"
  "pr_list (snd (add_memory_remote env nd a sz f u st)) = pr_list st"
  "next_ptr (snd (add_memory_remote env nd a sz f u st)) = next_ptr st"
  "checker (snd (remove_memory_remote env nd a sz u st)) = checker st"
  "pprs (snd (remove_memory_remote env nd a sz u st)) = pprs st"
  "pr_list (snd (remove_memory_remote env nd a sz u st)) = pr_list st"
  "next_ptr (snd (remove_memory_remote env nd a sz u st)) = next_ptr st"
  by (simp_all add: add_memory_remote_def remove_memory_remote_def Let_def split: prod.splits)

lemma add_memory_remoteD:
  assumes "add_memory_remote env nd a sz f u st = (ret, st')"
  shows "checker st' = checker st" "pprs st' = pprs st" "pr_list st' = pr_list st" "next_ptr st' = next_ptr st"
  using remote_frame(1-4) [of env nd a sz f u st] by (simp_all add: assms)

lemma remove_memory_remoteD:
  assumes "remove_memory_remote env nd a sz u st = (ret, st')"
  shows "checker st' = checker st" "pprs st' = pprs st" "pr_list st' = pr_list st" "next_ptr st' = next_ptr st"
  using remote_frame(5-8) [of env nd a sz u st] by (simp_all add: assms)

lemma set_ppr_sel [simp]:
  "checker (set_ppr h p st) = checker st" "pprs (set_ppr h p st) = (pprs st)(h \<mapsto> p)"
  "next_ptr (set_ppr h p st) = next_ptr st" "pr_list (set_ppr h p st) = pr_list st"
  by (simp_all add: set_ppr_def)

lemma destroy_frame [simp]:
  "checker (destroy_prefilled_preimport_range env h st) = checker st"
  "pprs (destroy_prefilled_preimport_range env h st) = (pprs st)(h := None)"
  "pr_list (destroy_prefilled_preimport_range env h st) = pr_list st"
  "next_ptr (destroy_prefilled_preimport_range env h st) = next_ptr st"
  by (simp_all add: destroy_prefilled_preimport_range_def Let_def split: prod.splits)

lemma free_range_frame [simp]:
  "checker (snd (free_range r st)) = snd (free_pa_range r (checker st))"
  "pprs (snd (free_range r st)) = pprs st" "pr_list (snd (free_range r st)) = pr_list st"
  "next_ptr (snd (free_range r st)) = next_ptr st"
  by (simp_all add: free_range_def Let_def split: prod.splits)

lemma occupy_rangeD:
  assumes "occupy_range env r st = (ret, st')"
  obtains al where "occupy_pa_range al r (checker st) = (ret, checker st')" "pprs st' = pprs st"
    "pr_list st' = pr_list st" "next_ptr st' = next_ptr st"
  using assms that by (auto simp: occupy_range_def Let_def split: prod.splits if_splits)

lemma prepare_commonD:
  assumes "preimport_prepare_common env h bd st = (ret, st')" "pprs st h = Some p"
  shows "checker st' = checker st \<and> next_ptr st' = next_ptr st \<and> pr_list st' = (if ret = 0 then h # pr_list st else pr_list st)
    \<and> (\<exists>nd. pprs st' = (pprs st)(h \<mapsto> p\<lparr>pr := (pr p)\<lparr>pr_numa_id := nd\<rparr>\<rparr>))
    \<and> (ret = 0 \<longrightarrow> ub_memory_validate_pa env (pr_scna (pr p)) (pr_start (pr p)) (pr_end (pr p)) True)"
proof -
  let ?p = "pr p" and ?u = "ppr_res p" and ?sz = "pr_end (pr p) - pr_start (pr p) + 1"
  have same: "\<exists>nd. pprs st = (pprs st)(h \<mapsto> p\<lparr>pr := ?p\<lparr>pr_numa_id := nd\<rparr>\<rparr>)"
    using assms(2) by (intro exI [of _ "pr_numa_id ?p"]) (simp add: fun_upd_idem)
  obtain r1 st1 where a: "add_memory_remote env (pr_numa_id ?p) (pr_start ?p) ?sz MEMORY_KEEP_ISOLATED ?u st = (r1, st1)"
    by fastforce
  note f = add_memory_remoteD [OF a]
  let ?st2 = "set_ppr h (p\<lparr>pr := ?p\<lparr>pr_numa_id := r1\<rparr>\<rparr>) st1"
  obtain r2 w where d: "obmm_set_numa_distance env (pr_scna ?p) r1 bd (kworld ?st2) = (r2, w)" by fastforce
  let ?st3 = "?st2\<lparr>kworld := w\<rparr>"
  have p1: "pprs st1 h = Some p" using assms(2) f(2) by simp
  have e: "preimport_prepare_common env h bd st =
      (if \<not> ub_memory_validate_pa env (pr_scna ?p) (pr_start ?p) (pr_end ?p) True then (- EINVAL, st)
       else if r1 < 0 then (- EPERM, st1)
       else if r2 < 0 then (r2, snd (remove_memory_remote env r1 (pr_start ?p) ?sz ?u ?st3))
       else (0, ?st3\<lparr>pr_list := h # pr_list ?st3\<rparr>))"
    by (simp add: preimport_prepare_common_def assms(2) a d p1 Let_def)
  show ?thesis using assms(1) same f unfolding e by (auto split: if_splits)
qed

lemma release_commonD:
  assumes "preimport_release_common env h force st = (ret, st')"
  shows "checker st' = checker st" "pprs st' = pprs st" "next_ptr st' = next_ptr st"
    "pr_list st' = (if ret = 0 \<or> force then removeAll h (pr_list st) else pr_list st)"
proof -
  obtain r1 st1 where a: "remove_memory_remote env (pr_numa_id (pr (ppr_at st h))) (pr_start (pr (ppr_at st h)))
      (pr_end (pr (ppr_at st h)) - pr_start (pr (ppr_at st h)) + 1) (ppr_res (ppr_at st h)) st = (r1, st1)" by fastforce
  note f = remove_memory_remoteD [OF a]
  show "checker st' = checker st" "pprs st' = pprs st" "next_ptr st' = next_ptr st"
    "pr_list st' = (if ret = 0 \<or> force then removeAll h (pr_list st) else pr_list st)"
    using assms f by (auto simp: preimport_release_common_def a Let_def split: if_splits)
qed

lemma createD:
  assumes "create_prefilled_preimport_range env cmd st = (ret, ho, st')"
  shows "checker st' = checker st \<and> pr_list st' = pr_list st
    \<and> (if ret = 0 then ho = Some (next_ptr st) \<and> next_ptr st' = Suc (Suc (next_ptr st))
         \<and> pprs st' = (pprs st)(next_ptr st \<mapsto> new_ppr env cmd (Suc (next_ptr st)))
       else pprs st' = pprs st \<and> next_ptr st' = next_ptr st)"
  using assms
  by (auto simp: create_prefilled_preimport_range_def new_ppr_def setup_ubmem_resource_def Let_def
      split: prod.splits if_splits)

lemma check_cmd_ok:
  assumes "check_preimport_cmd env cmd = 0"
  shows "unat (pi_pa cmd) + unat (pi_length cmd) < 2 ^ 64" "pi_length cmd \<noteq> 0"
    "pi_length cmd mod memory_block_size_bytes env = 0"
proof -
  have c: "pi_length cmd mod memory_block_size_bytes env = 0" "\<not> pi_length cmd > - 1 - pi_pa cmd" "pi_length cmd \<noteq> 0"
    using assms by (auto simp: check_preimport_cmd_def check_preimport_cmd_common_def Let_def split: if_splits)
  have m: "unat (- 1 :: u64) = 2 ^ 64 - 1" by (simp add: unsigned_minus_1_eq_mask mask_eq_exp_minus_1)
  have "unat (- 1 - pi_pa cmd) = 2 ^ 64 - 1 - unat (pi_pa cmd)"
    unfolding unat_sub_wrap m using u64_lt [of "pi_pa cmd"] by auto
  moreover have "unat (pi_length cmd) \<le> unat (- 1 - pi_pa cmd)" using c(2) by (simp add: word_le_nat_alt not_less)
  ultimately show "unat (pi_pa cmd) + unat (pi_length cmd) < 2 ^ 64" using u64_lt [of "pi_pa cmd"] by linarith
  show "pi_length cmd \<noteq> 0" "pi_length cmd mod memory_block_size_bytes env = 0" using c by auto
qed

lemma new_ppr_ok:
  assumes "check_preimport_cmd env cmd = 0"
  shows "ppr_ok (memory_block_size_bytes env) (new_ppr env cmd u)"
proof -
  note c = check_cmd_ok [OF assms]
  have s: "unat (pi_pa cmd + pi_length cmd) = unat (pi_pa cmd) + unat (pi_length cmd)" using c(1) by (rule u64_unat_add)
  have l: "0 < unat (pi_length cmd)" using c(2) by (simp add: unat_gt_0)
  then have "pi_pa cmd + pi_length cmd \<noteq> 0" using s by (metis add_is_0 less_numeral_extra(3) unat_0)
  then have e: "unat (pi_pa cmd + pi_length cmd - 1) = unat (pi_pa cmd) + unat (pi_length cmd) - 1"
    using s unat_minus_one by metis
  have "unat (pi_length cmd div memory_block_size_bytes env) * unat (memory_block_size_bytes env) = unat (pi_length cmd)"
    using word_dvd_count(2) [OF c(3)] .
  then show ?thesis using e l by (simp add: ppr_ok_def new_ppr_def word_le_nat_alt)
qed

lemma prepare_prefilled_spec:
  assumes inv: "checker_inv (checker st)" and fresh: "pprs st (next_ptr st) = None"
    and run: "preimport_prepare_prefilled env cmd st = (ret, cmd', st')"
  shows "(ret \<noteq> 0 \<longrightarrow> covering (checker st') = covering (checker st) \<and> checker_inv (checker st') \<and> pprs st' = pprs st
        \<and> next_ptr st \<le> next_ptr st' \<and> pr_list st' = pr_list st)
    \<and> (ret = 0 \<longrightarrow> (\<exists>p. pprs st' = (pprs st)(next_ptr st \<mapsto> p) \<and> next_ptr st < next_ptr st'
        \<and> pr_list st' = next_ptr st # pr_list st \<and> ppr_ok (memory_block_size_bytes env) p \<and> use_count (pr p) = 0
        \<and> (\<forall>i < length (bitmap p). \<not> bitmap p ! i)
        \<and> pr_start (pr p) = pi_pa cmd \<and> pr_end (pr p) = pi_pa cmd + pi_length cmd - 1
        \<and> checker_inv (checker st')
        \<and> (\<forall>x. pi_pa cmd \<le> x \<longrightarrow> x \<le> pi_pa cmd + pi_length cmd - 1 \<longrightarrow> covering (checker st) x = None)
        \<and> covering (checker st') = (\<lambda>x. if pi_pa cmd \<le> x \<and> x \<le> pi_pa cmd + pi_length cmd - 1
              then Some (ppr_entry (next_ptr st) p) else covering (checker st) x)))"
proof (cases "check_preimport_cmd env cmd = 0")
  case False
  then show ?thesis using run inv by (auto simp: preimport_prepare_prefilled_def)
next
  case chk: True
  define r where "r = \<lparr>pa_start = pi_pa cmd, pa_end = pi_pa cmd + pi_length cmd - 1,
                    info = \<lparr>user = OBMM_ADDR_USER_PREIMPORT, info_data = Not_Ready\<rparr>\<rparr>"
  have rs: "pa_start r = pi_pa cmd" "pa_end r = pi_pa cmd + pi_length cmd - 1" by (simp_all add: r_def)
  obtain r1 st1 where o: "occupy_range env r st = (r1, st1)" by fastforce
  obtain al where oc: "occupy_pa_range al r (checker st) = (r1, checker st1)" and
    f1: "pprs st1 = pprs st" "pr_list st1 = pr_list st" "next_ptr st1 = next_ptr st"
    using occupy_rangeD [OF o] by blast
  show ?thesis
  proof (cases "r1 = 0")
    case False
    then have "st' = st1" "ret = r1" using run chk o
      by (auto simp: preimport_prepare_prefilled_def r_def [symmetric] Let_def)
    then show ?thesis using False f1 inv occupy_pa_range_err [OF oc False] by simp
  next
    case ok1: True
    note po = pa.occ_ok [OF inv oc [unfolded ok1], unfolded rs]
    have undo: "fst (free_pa_range r (checker st1)) = 0 \<and> checker_inv (snd (free_pa_range r (checker st1)))
        \<and> covering (snd (free_pa_range r (checker st1))) = covering (checker st)"
      using pa.occ_rel [OF inv oc [unfolded ok1]] .
    obtain r2 ho st2 where cr: "create_prefilled_preimport_range env cmd st1 = (r2, ho, st2)" by (metis prod_cases3)
    note f2 = createD [OF cr]
    show ?thesis
    proof (cases "r2 = 0")
      case False
      then have "st' = snd (free_range r st2)" "ret = r2" using run chk o ok1 cr
        by (auto simp: preimport_prepare_prefilled_def r_def [symmetric] Let_def)
      then show ?thesis using False f1 f2 undo by simp
    next
      case ok2: True
      let ?h = "next_ptr st"
      have h: "ho = Some ?h" and n2: "next_ptr st2 = Suc (Suc ?h)" and c2: "checker st2 = checker st1"
        and l2: "pr_list st2 = pr_list st" and p2: "pprs st2 = (pprs st)(?h \<mapsto> new_ppr env cmd (Suc ?h))"
        using f2 ok2 f1 by auto
      obtain r3 st3 where pc: "preimport_prepare_common env ?h (pi_base_dist cmd) st2 = (r3, st3)" by fastforce
      obtain nd where p3: "pprs st3 = (pprs st2)(?h \<mapsto> (new_ppr env cmd (Suc ?h))\<lparr>pr := (pr (new_ppr env cmd (Suc ?h)))\<lparr>pr_numa_id := nd\<rparr>\<rparr>)"
        and f3: "checker st3 = checker st2" "next_ptr st3 = next_ptr st2"
          "pr_list st3 = (if r3 = 0 then ?h # pr_list st2 else pr_list st2)"
        using prepare_commonD [OF pc] p2 by force
      show ?thesis
      proof (cases "r3 = 0")
        case False
        then have "st' = snd (free_range r (destroy_prefilled_preimport_range env ?h st3))" "ret = r3"
          using run chk o ok1 cr ok2 h pc
          by (auto simp: preimport_prepare_prefilled_def r_def [symmetric] Let_def)
        then show ?thesis using False f3 p3 p2 n2 c2 l2 undo fresh by (simp add: fun_upd_idem)
      next
        case ok3: True
        let ?i = "\<lparr>user = OBMM_ADDR_USER_PREIMPORT, info_data = Ppr ?h\<rparr>"
        let ?p = "(new_ppr env cmd (Suc ?h))\<lparr>pr := (pr (new_ppr env cmd (Suc ?h)))\<lparr>pr_numa_id := nd\<rparr>\<rparr>"
        have cov1: "covering (checker st3) (pi_pa cmd) = Some r" using po f3 c2 by simp
        then obtain c4 where u: "update_pa_range (pi_pa cmd) (Some ?i) (checker st3) = (0, c4)"
          by (simp add: update_pa_range_def covering_def)
        have inv3: "checker_inv (checker st3)" using po f3 c2 by simp
        have inv4: "checker_inv c4" using update_pa_range_inv [OF inv3, of "pi_pa cmd" "Some ?i"] u by simp
        have ent: "r\<lparr>info := (info r)\<lparr>user := user ?i, info_data := info_data ?i\<rparr>\<rparr> = ppr_entry ?h ?p"
          by (simp add: r_def ppr_entry_def new_ppr_def)
        have cov4: "covering c4 = (\<lambda>x. if pi_pa cmd \<le> x \<and> x \<le> pi_pa cmd + pi_length cmd - 1
            then Some (ppr_entry ?h ?p) else covering (checker st) x)"
          using update_pa_range_covering [OF inv3 u] cov1 po f3 c2 ent rs by auto
        have "st' = st3\<lparr>checker := c4\<rparr>" "ret = 0"
          using run chk o ok1 cr ok2 h pc ok3 u
          by (auto simp: preimport_prepare_prefilled_def r_def [symmetric] Let_def rs)
        moreover have "ppr_ok (memory_block_size_bytes env) ?p"
          using new_ppr_ok [OF chk, of "Suc ?h"] by (simp add: ppr_ok_def)
        ultimately show ?thesis using cov4 inv4 p3 p2 f3 n2 l2 ok3 po
          by (intro conjI impI exI [of _ ?p]) (auto simp: new_ppr_def)
      qed
    qed
  qed
qed

section \<open>The invariant is kept\<close>

lemma reg_invD:
  assumes "reg_inv blk st"
  shows "checker_inv (checker st)"
    "\<And>x e. covering (checker st) x = Some e \<Longrightarrow> user (info e) = OBMM_ADDR_USER_PREIMPORT \<Longrightarrow>
       \<exists>h p. pprs st h = Some p \<and> e = ppr_entry h p"
    "\<And>h p. pprs st h = Some p \<Longrightarrow> h < next_ptr st"
    "\<And>h p. pprs st h = Some p \<Longrightarrow> ppr_ok blk p"
    "\<And>h p. pprs st h = Some p \<Longrightarrow> covering (checker st) (pr_start (pr p)) = Some (ppr_entry h p)"
  using assms unfolding reg_inv_def by blast+

lemma reg_inv_fresh: "reg_inv blk st \<Longrightarrow> pprs st (next_ptr st) = None"
  using reg_invD(3) [of blk st "next_ptr st"] by (cases "pprs st (next_ptr st)") auto

lemma ppr_entry_sel [simp]:
  "pa_start (ppr_entry h p) = pr_start (pr p)" "pa_end (ppr_entry h p) = pr_end (pr p)"
  "user (info (ppr_entry h p)) = OBMM_ADDR_USER_PREIMPORT" "info_data (info (ppr_entry h p)) = Ppr h"
  by (simp_all add: ppr_entry_def)

lemma reg_inv_set_ppr:
  assumes "reg_inv blk st" "pprs st h = Some p" "pr_start (pr q) = pr_start (pr p)" "pr_end (pr q) = pr_end (pr p)"
    "length (bitmap q) = length (bitmap p)"
  shows "reg_inv blk (set_ppr h q st)"
proof -
  have e: "ppr_entry h q = ppr_entry h p" using assms(3,4) by (simp add: ppr_entry_def)
  have o: "ppr_ok blk q" using reg_invD(4) [OF assms(1,2)] assms(3-5) by (simp add: ppr_ok_def)
  show ?thesis unfolding reg_inv_def set_ppr_sel
  proof (intro conjI allI impI)
    show "checker_inv (checker st)" using reg_invD(1) [OF assms(1)] .
    fix x e' assume "covering (checker st) x = Some e'" "user (info e') = OBMM_ADDR_USER_PREIMPORT"
    then obtain k r where "pprs st k = Some r" "e' = ppr_entry k r" using reg_invD(2) [OF assms(1)] by blast
    then show "\<exists>ha p. ((pprs st)(h \<mapsto> q)) ha = Some p \<and> e' = ppr_entry ha p"
      using assms(2) e by (cases "k = h") (auto intro!: exI [of _ k])
  next
    fix k r assume k: "((pprs st)(h \<mapsto> q)) k = Some r"
    show "k < next_ptr st" using k reg_invD(3) [OF assms(1)] assms(2) by (auto split: if_splits)
    show "ppr_ok blk r" using k reg_invD(4) [OF assms(1)] o by (auto split: if_splits)
    show "covering (checker st) (pr_start (pr r)) = Some (ppr_entry k r)"
      using k reg_invD(5) [OF assms(1)] assms(2,3) e by (auto split: if_splits)
  qed
qed

lemma get_pa_mappingD:
  assumes "reg_inv blk st" "get_pa_mapping x st = (0, ho)"
  shows "\<exists>h p. ho = Some h \<and> pprs st h = Some p \<and> covering (checker st) x = Some (ppr_entry h p)"
proof (cases "covering (checker st) x")
  case None
  then show ?thesis using assms(2) by (simp add: get_pa_mapping_def query_pa_range_covering)
next
  case (Some e)
  then have u: "user (info e) = OBMM_ADDR_USER_PREIMPORT"
    using assms(2) by (auto simp: get_pa_mapping_def query_pa_range_covering split: if_splits)
  then obtain h p where hp: "pprs st h = Some p" "e = ppr_entry h p" using reg_invD(2) [OF assms(1) Some] by blast
  then have "ho = Some h" using assms(2) Some by (simp add: get_pa_mapping_def query_pa_range_covering)
  then show ?thesis using hp Some by blast
qed

lemma release_prefilled_spec:
  assumes inv: "reg_inv blk st" and run: "preimport_release_prefilled env a b st = (ret, st')"
  shows "(pprs st' = pprs st \<and> checker st' = checker st \<and> next_ptr st' = next_ptr st \<and> ret \<noteq> 0)
    \<or> (\<exists>h p. ret = 0 \<and> pprs st h = Some p \<and> use_count (pr p) = 0 \<and> pr_start (pr p) = a \<and> pr_end (pr p) = b
        \<and> pprs st' = (pprs st)(h := None) \<and> next_ptr st' = next_ptr st \<and> checker_inv (checker st')
        \<and> covering (checker st') = (\<lambda>x. if a \<le> x \<and> x \<le> b then None else covering (checker st) x))"
proof -
  obtain r1 ho where g: "get_pa_mapping a st = (r1, ho)" by fastforce
  show ?thesis
  proof (cases "r1 = 0")
    case False
    then show ?thesis using run g by (auto simp: preimport_release_prefilled_def)
  next
    case ok: True
    then obtain h p where hp: "ho = Some h" "pprs st h = Some p" "covering (checker st) a = Some (ppr_entry h p)"
      using get_pa_mappingD [OF inv] g by blast
    obtain r2 st1 where rc: "preimport_release_common env h False st = (r2, st1)" by fastforce
    note f = release_commonD [OF rc]
    let ?r = "\<lparr>pa_start = pr_start (pr p), pa_end = pr_end (pr p),
                info = \<lparr>user = OBMM_ADDR_USER_PREIMPORT, info_data = Ppr h\<rparr>\<rparr>"
    have e: "preimport_release_prefilled env a b st =
        (if pr_start (pr p) \<noteq> a \<or> pr_end (pr p) \<noteq> b then (- EINVAL, st)
         else if use_count (pr p) \<noteq> 0 then (- EBUSY, st)
         else if r2 \<noteq> 0 then (r2, st1)
         else (r2, destroy_prefilled_preimport_range env h (snd (free_range ?r st1))))"
      using g ok hp rc by (simp add: preimport_release_prefilled_def Let_def split: prod.splits)
    have fr: "covering (snd (free_pa_range ?r (checker st))) = (\<lambda>x. if a \<le> x \<and> x \<le> b then None else covering (checker st) x)"
      if "pr_start (pr p) = a" "pr_end (pr p) = b"
      using free_pa_range_ok [OF reg_invD(1) [OF inv], of ?r "ppr_entry h p"] hp(3) that by simp
    have iv: "checker_inv (snd (free_pa_range ?r (checker st)))"
      by (rule free_pa_range_inv [OF reg_invD(1) [OF inv]])
    show ?thesis using run f fr iv hp(2) unfolding e by (auto split: if_splits intro!: exI [of _ h] exI [of _ p])
  qed
qed

lemma set_bits_length [simp]: "length (set_bits b bits m) = length m"
  by (induction bits arbitrary: m) (auto simp: set_bits_def)

lemma set_bits_nth:
  "i < length m \<Longrightarrow> set_bits b bits m ! i = (if i \<in> set bits then b else m ! i)"
proof (induction bits arbitrary: m)
  case (Cons k bits)
  have "set_bits b (k # bits) m = set_bits b bits (m[k := b])" by (simp add: set_bits_def)
  then show ?case using Cons by (simp add: nth_list_update)
qed (simp add: set_bits_def)

lemma sub_div_lt:
  fixes x s :: u64
  assumes "s \<le> x"
  shows "unat ((x - s) div blk) = (unat x - unat s) div unat blk"
  using assms by (simp add: unat_div unat_sub_wrap word_le_nat_alt)

lemma block_bits_set:
  assumes "pr_start (pr p) \<le> a" "pr_start (pr p) \<le> b"
  shows "set (block_bits blk p a b)
    = {(unat a - unat (pr_start (pr p))) div unat blk .. (unat b - unat (pr_start (pr p))) div unat blk}"
  unfolding block_bits_def sub_div_lt [OF assms(1)] sub_div_lt [OF assms(2)] set_upt
  by (rule atLeastLessThanSuc_atLeastAtMost)

lemma block_bits_bounds:
  assumes "ppr_ok blk p" "pr_start (pr p) \<le> a" "a \<le> b" "b \<le> pr_end (pr p)" "i \<in> set (block_bits blk p a b)"
  shows "i < length (bitmap p)"
proof -
  have sb: "pr_start (pr p) \<le> b" using assms(2,3) by (rule order_trans)
  have "i \<le> (unat b - unat (pr_start (pr p))) div unat blk"
    using assms(5) block_bits_set [OF assms(2) sb] by simp
  moreover have "unat b - unat (pr_start (pr p)) < length (bitmap p) * unat blk"
    using assms(1,4) unfolding ppr_ok_def word_le_nat_alt by linarith
  then have "(unat b - unat (pr_start (pr p))) div unat blk < length (bitmap p)"
    by (rule less_mult_imp_div_less)
  ultimately show ?thesis by simp
qed

lemma block_of_mem:
  assumes "pr_start (pr p) \<le> a" "a \<le> x" "x \<le> b"
  shows "(unat x - unat (pr_start (pr p))) div unat blk \<in> set (block_bits blk p a b)"
proof -
  have o: "pr_start (pr p) \<le> b" using assms by (auto dest: order_trans)
  show ?thesis using assms(2,3)
    by (simp add: block_bits_set [OF assms(1) o] word_le_nat_alt div_le_mono diff_le_mono)
qed

lemma ref_invD:
  assumes "ref_inv blk s"
  shows "\<And>h. h \<in> set (refs s) \<Longrightarrow> \<exists>p. pprs (sys_st s) h = Some p"
    "\<And>c. c \<in> set (committed s) \<Longrightarrow> \<exists>p. pprs (sys_st s) (fst c) = Some p"
    "\<And>h p. pprs (sys_st s) h = Some p \<Longrightarrow> ppr_users blk s h p"
    "distinct (committed s)" "length (refs s) + length (committed s) < 2 ^ 32"
  using assms by (auto simp: ref_inv_def)

lemma commit_bits_cong: "pr_start (pr q) = pr_start (pr p) \<Longrightarrow> commit_bits blk q c = commit_bits blk p c"
  by (simp add: commit_bits_def block_bits_def)

lemma count_list_remove1:
  "h \<in> set xs \<Longrightarrow> count_list xs k = (if k = h then 1 else 0) + count_list (remove1 h xs) k"
proof (induction xs)
  case (Cons x xs)
  then show ?case by (cases "x = h") auto
qed simp

lemma count_list_map_remove1:
  "c \<in> set cs \<Longrightarrow> count_list (map fst cs) k = (if k = fst c then 1 else 0) + count_list (map fst (remove1 c cs)) k"
proof (induction cs)
  case (Cons d cs)
  then show ?case by (cases "d = c") auto
qed simp

lemma u32_unat_Suc: "unat (x :: u32) + 1 < 2 ^ 32 \<Longrightarrow> unat (x + 1) = unat x + 1"
  using unat_add_lem [of x 1] by simp

lemma u32_unat_minus_1: "0 < unat (x :: u32) \<Longrightarrow> unat (x - 1) = unat x - 1"
  using unat_minus_one [of x] by (auto simp: unat_gt_0)

text \<open>A step that changes at most the range at one handle: what is to be shown for that handle.\<close>

lemma ref_inv_update:
  assumes inv: "ref_inv blk s" and h: "pprs (sys_st s) h = Some p"
    and st: "pprs st' = (pprs (sys_st s))(h \<mapsto> q)"
    and live: "set rs \<subseteq> insert h (set (refs s))" "set cs \<subseteq> insert c (set (committed s))" "fst c = h"
    and other: "\<And>k. k \<noteq> h \<Longrightarrow> count_list rs k = count_list (refs s) k"
      "\<And>k. k \<noteq> h \<Longrightarrow> count_list (map fst cs) k = count_list (map fst (committed s)) k"
      "\<And>d. fst d \<noteq> h \<Longrightarrow> d \<in> set cs \<longleftrightarrow> d \<in> set (committed s)"
    and here: "ppr_users blk (s\<lparr>sys_st := st', refs := rs, committed := cs\<rparr>) h q"
    and dist: "distinct cs" "length rs + length cs < 2 ^ 32"
  shows "ref_inv blk (s\<lparr>sys_st := st', refs := rs, committed := cs\<rparr>)"
proof -
  let ?s = "s\<lparr>sys_st := st', refs := rs, committed := cs\<rparr>"
  have "pprs st' k \<noteq> None" if "k \<in> set rs \<union> fst ` set cs" for k
  proof (cases "k = h")
    case True
    then show ?thesis using st by simp
  next
    case False
    then have "k \<in> set (refs s) \<or> k \<in> fst ` set (committed s)" using that live by blast
    then have "pprs (sys_st s) k \<noteq> None" using ref_invD(1,2) [OF inv] by blast
    then show ?thesis using st False by simp
  qed
  moreover have "ppr_users blk ?s k r" if k: "pprs st' k = Some r" for k r
  proof (cases "k = h")
    case True
    then show ?thesis using k st here by simp
  next
    case False
    then have "ppr_users blk s k r" using k st ref_invD(3) [OF inv] by simp
    moreover have m: "d \<in> set cs \<longleftrightarrow> d \<in> set (committed s)" if "fst d = k" for d
      using other(3) [of d] that False by blast
    have "(\<exists>c \<in> set cs. fst c = k \<and> Q c) \<longleftrightarrow> (\<exists>c \<in> set (committed s). fst c = k \<and> Q c)" for Q
      using m by blast
    moreover have "(\<forall>c \<in> set cs. fst c = k \<longrightarrow> Q c) \<longleftrightarrow> (\<forall>c \<in> set (committed s). fst c = k \<longrightarrow> Q c)" for Q
      using m by blast
    moreover have "(\<forall>c \<in> set cs. \<forall>d \<in> set cs. fst c = k \<longrightarrow> fst d = k \<longrightarrow> R c d)
        \<longleftrightarrow> (\<forall>c \<in> set (committed s). \<forall>d \<in> set (committed s). fst c = k \<longrightarrow> fst d = k \<longrightarrow> R c d)" for R
      using m by blast
    ultimately show ?thesis unfolding ppr_users_def by (simp add: other(1,2) [OF False])
  qed
  ultimately show ?thesis using dist unfolding ref_inv_def by simp
qed

lemma reg_inv_same:
  assumes "reg_inv blk st" "checker_inv (checker st')" "covering (checker st') = covering (checker st)"
    "pprs st' = pprs st" "next_ptr st \<le> next_ptr st'"
  shows "reg_inv blk st'"
  using assms(2-5) reg_invD [OF assms(1)] unfolding reg_inv_def by (simp, blast intro: less_le_trans)

lemma reg_inv_new:
  assumes inv: "reg_inv blk st" and c: "checker_inv (checker st')" "ppr_ok blk p"
    and free: "\<And>x. pr_start (pr p) \<le> x \<Longrightarrow> x \<le> pr_end (pr p) \<Longrightarrow> covering (checker st) x = None"
    and cov: "covering (checker st') = (\<lambda>x. if pr_start (pr p) \<le> x \<and> x \<le> pr_end (pr p) then Some (ppr_entry h p) else covering (checker st) x)"
    and st: "pprs st' = (pprs st)(h \<mapsto> p)" "pprs st h = None" "h < next_ptr st'" "next_ptr st \<le> next_ptr st'"
  shows "reg_inv blk st'"
  unfolding reg_inv_def
proof (intro conjI allI impI)
  fix x e assume x: "covering (checker st') x = Some e" "user (info e) = OBMM_ADDR_USER_PREIMPORT"
  show "\<exists>h p. pprs st' h = Some p \<and> e = ppr_entry h p"
  proof (cases "pr_start (pr p) \<le> x \<and> x \<le> pr_end (pr p)")
    case True
    then have "e = ppr_entry h p" using x(1) unfolding cov by simp
    then show ?thesis using st(1) by auto
  next
    case False
    then have "covering (checker st) x = Some e" using x(1) unfolding cov by (simp split: if_splits)
    from reg_invD(2) [OF inv this x(2)] obtain k r where "pprs st k = Some r" "e = ppr_entry k r" by blast
    moreover from this have "k \<noteq> h" using st(2) by auto
    ultimately show ?thesis using st(1) by (intro exI [of _ k] exI [of _ r]) simp
  qed
next
  fix k r assume k: "pprs st' k = Some r"
  show "k < next_ptr st'" using k st reg_invD(3) [OF inv] by (auto split: if_splits dest: less_le_trans)
  show "ppr_ok blk r" using k st c(2) reg_invD(4) [OF inv] by (auto split: if_splits)
  show "covering (checker st') (pr_start (pr r)) = Some (ppr_entry k r)"
  proof (cases "k = h")
    case True
    then show ?thesis using k st c(2) cov by (simp add: ppr_ok_def)
  next
    case False
    then have r: "pprs st k = Some r" using k st by simp
    from reg_invD(5) [OF inv r] free show ?thesis unfolding cov by auto
  qed
qed (rule c(1))

lemma reg_inv_del:
  assumes inv: "reg_inv blk st" and h: "pprs st h = Some p" and c: "checker_inv (checker st')"
    and cov: "covering (checker st') = (\<lambda>x. if pr_start (pr p) \<le> x \<and> x \<le> pr_end (pr p) then None else covering (checker st) x)"
    and st: "pprs st' = (pprs st)(h := None)" "next_ptr st' = next_ptr st"
  shows "reg_inv blk st'"
  unfolding reg_inv_def
proof (intro conjI allI impI)
  note e5 = reg_invD(5) [OF inv h]
  have own: "k = h" if "pprs st k = Some r" "covering (checker st) x = Some (ppr_entry k r)"
      "pr_start (pr p) \<le> x" "x \<le> pr_end (pr p)" for k r x
    using covering_whole [OF reg_invD(1) [OF inv] e5, of x] that by (simp add: ppr_entry_def)
  fix x e assume x: "covering (checker st') x = Some e" "user (info e) = OBMM_ADDR_USER_PREIMPORT"
  then have cx: "covering (checker st) x = Some e" and out: "\<not> (pr_start (pr p) \<le> x \<and> x \<le> pr_end (pr p))"
    unfolding cov by (auto split: if_splits)
  from reg_invD(2) [OF inv cx x(2)] obtain k r where kr: "pprs st k = Some r" "e = ppr_entry k r" by blast
  have "k \<noteq> h" using covering_Some(1,2) [OF reg_invD(1) [OF inv] cx] kr h out by auto
  then show "\<exists>h p. pprs st' h = Some p \<and> e = ppr_entry h p" using kr st by auto
next
  fix k r assume k: "pprs st' k = Some r"
  then have kr: "pprs st k = Some r" "k \<noteq> h" using st by (auto split: if_splits)
  show "k < next_ptr st'" using reg_invD(3) [OF inv kr(1)] st by simp
  show "ppr_ok blk r" using reg_invD(4) [OF inv kr(1)] .
  note e5 = reg_invD(5) [OF inv h]
  have "\<not> (pr_start (pr p) \<le> pr_start (pr r) \<and> pr_start (pr r) \<le> pr_end (pr p))"
    using covering_whole [OF reg_invD(1) [OF inv] e5, of "pr_start (pr r)"] reg_invD(5) [OF inv kr(1)] kr(2)
    by (auto simp: ppr_entry_def)
  then show "covering (checker st') (pr_start (pr r)) = Some (ppr_entry k r)"
    using reg_invD(5) [OF inv kr(1)] unfolding cov by auto
qed (rule c)

lemma ref_inv_sys:
  assumes "ref_inv blk s" "pprs st' = pprs (sys_st s)"
  shows "ref_inv blk (s\<lparr>sys_st := st'\<rparr>)"
  using assms by (simp add: ref_inv_def ppr_users_def)

lemma count_list_absent: "h \<notin> set xs \<Longrightarrow> count_list xs h = 0"
  by (simp add: count_list_0_iff)

lemma ref_inv_new:
  assumes inv: "ref_inv blk s" and h: "pprs (sys_st s) h = None" "pprs st' = (pprs (sys_st s))(h \<mapsto> p)"
    and p: "use_count (pr p) = 0" "\<forall>i < length (bitmap p). \<not> bitmap p ! i"
  shows "ref_inv blk (s\<lparr>sys_st := st'\<rparr>)"
proof -
  have r: "h \<notin> set (refs s)" using ref_invD(1) [OF inv] h(1) by force
  have c: "fst d \<noteq> h" if "d \<in> set (committed s)" for d using ref_invD(2) [OF inv that] h(1) by auto
  then have "h \<notin> set (map fst (committed s))" by auto
  then have new: "ppr_users blk (s\<lparr>sys_st := st'\<rparr>) h p"
    using r c p by (auto simp: ppr_users_def count_list_absent)
  have old: "ppr_users blk (s\<lparr>sys_st := st'\<rparr>) k q" if "pprs (sys_st s) k = Some q" for k q
    using ref_invD(3) [OF inv that] by (simp add: ppr_users_def)
  show ?thesis using new old ref_invD [OF inv] h(2) by (auto simp: ref_inv_def)
qed

lemma ref_inv_del:
  assumes inv: "ref_inv blk s" and h: "pprs (sys_st s) h = Some p" "pprs st' = (pprs (sys_st s))(h := None)"
    and z: "use_count (pr p) = 0"
  shows "ref_inv blk (s\<lparr>sys_st := st'\<rparr>)"
proof -
  have "count_list (refs s) h + count_list (map fst (committed s)) h = 0"
    using ref_invD(3) [OF inv h(1)] z by (simp add: ppr_users_def)
  then have r: "h \<notin> set (refs s)" "h \<notin> set (map fst (committed s))" by (auto simp: count_list_0_iff)
  have old: "ppr_users blk (s\<lparr>sys_st := st'\<rparr>) k q" if "pprs (sys_st s) k = Some q" for k q
    using ref_invD(3) [OF inv that] by (simp add: ppr_users_def)
  show ?thesis using old r ref_invD [OF inv] h(2) by (auto simp: ref_inv_def split: if_splits)
qed

lemma remove1_sub: "set (remove1 x xs) \<subseteq> insert y (set xs)"
  using set_remove1_subset [of x xs] by blast

lemma count_remove1_self:
  "h \<in> set xs \<Longrightarrow> count_list (remove1 h xs) h = count_list xs h - 1 \<and> 0 < count_list xs h"
  unfolding count_list_remove1 [of h xs h] by simp

lemma count_remove1_other: "h \<in> set xs \<Longrightarrow> k \<noteq> h \<Longrightarrow> count_list (remove1 h xs) k = count_list xs k"
  using count_list_remove1 [of h xs k] by simp

lemma count_map_remove1_other:
  "c \<in> set cs \<Longrightarrow> k \<noteq> fst c \<Longrightarrow> count_list (map fst (remove1 c cs)) k = count_list (map fst cs) k"
  using count_list_map_remove1 [of c cs k] by simp

lemma count_map_remove1_self:
  "c \<in> set cs \<Longrightarrow> count_list (map fst (remove1 c cs)) (fst c) = count_list (map fst cs) (fst c) - 1
     \<and> 0 < count_list (map fst cs) (fst c)"
  unfolding count_list_map_remove1 [of c cs "fst c"] by simp

lemma bex_diff: "\<not> P x \<Longrightarrow> (\<exists>c \<in> S - {x}. P c) \<longleftrightarrow> (\<exists>c \<in> S. P c)"
  by blast

lemma length_remove1_Suc: "x \<in> set xs \<Longrightarrow> Suc (length (remove1 x xs)) = length xs"
  by (induction xs) auto

lemma pre_inv_get:
  assumes inv: "pre_inv env s" and g: "get_ppr x (sys_st s) = (0, Some h, st')"
    and len: "length (refs s) + length (committed s) < 2 ^ 32 - 1"
  shows "pre_inv env (s\<lparr>sys_st := st', refs := h # refs s\<rparr>)"
proof -
  let ?blk = "memory_block_size_bytes env"
  have reg: "reg_inv ?blk (sys_st s)" and ref: "ref_inv ?blk s" using inv by (auto simp: pre_inv_def)
  obtain ho where m: "get_pa_mapping x (sys_st s) = (0, ho)" and ho: "ho = Some h"
    using g by (auto simp: get_ppr_def Let_def split: prod.splits if_splits) (metis get_pa_mappingD [OF reg] option.sel)
  obtain p where p: "pprs (sys_st s) h = Some p" using get_pa_mappingD [OF reg m] ho by blast
  let ?q = "p\<lparr>pr := (pr p)\<lparr>use_count := use_count (pr p) + 1\<rparr>\<rparr>"
  have st': "st' = set_ppr h ?q (sys_st s)" using g m ho p by (simp add: get_ppr_def Let_def)
  have u: "ppr_users ?blk s h p" by (rule ref_invD(3) [OF ref p])
  have "count_list (refs s) h + count_list (map fst (committed s)) h \<le> length (refs s) + length (committed s)"
    using count_le_length [of "refs s" h] count_le_length [of "map fst (committed s)" h] by simp
  then have "unat (use_count (pr p) + 1) = unat (use_count (pr p)) + 1"
    using u len by (intro u32_unat_Suc) (simp add: ppr_users_def)
  then have "ppr_users ?blk (s\<lparr>sys_st := st', refs := h # refs s\<rparr>) h ?q"
    using u by (simp add: ppr_users_def commit_bits_def block_bits_def)
  then have "ref_inv ?blk (s\<lparr>sys_st := st', refs := h # refs s, committed := committed s\<rparr>)"
    using ref_invD(4,5) [OF ref] len
    by (intro ref_inv_update [OF ref p, where c = "(h, 0, 0)" and q = ?q]) (auto simp: st')
  moreover have "reg_inv ?blk st'" unfolding st' by (rule reg_inv_set_ppr [OF reg p]) simp_all
  ultimately show ?thesis by (simp add: pre_inv_def)
qed

lemma pre_inv_drop:
  assumes inv: "pre_inv env s" and h: "h \<in> set (refs s)"
  shows "pre_inv env (s\<lparr>sys_st := put_ppr h (sys_st s), refs := remove1 h (refs s)\<rparr>)"
proof -
  let ?blk = "memory_block_size_bytes env"
  have reg: "reg_inv ?blk (sys_st s)" and ref: "ref_inv ?blk s" using inv by (auto simp: pre_inv_def)
  obtain p where p: "pprs (sys_st s) h = Some p" using ref_invD(1) [OF ref h] by blast
  let ?q = "p\<lparr>pr := (pr p)\<lparr>use_count := use_count (pr p) - 1\<rparr>\<rparr>"
  have st': "put_ppr h (sys_st s) = set_ppr h ?q (sys_st s)" by (simp add: put_ppr_def p)
  have u: "ppr_users ?blk s h p" by (rule ref_invD(3) [OF ref p])
  have c: "count_list (remove1 h (refs s)) h = count_list (refs s) h - 1" "0 < count_list (refs s) h"
    using count_remove1_self [OF h] by auto
  then have "unat (use_count (pr p) - 1) = unat (use_count (pr p)) - 1"
    using u by (intro u32_unat_minus_1) (simp add: ppr_users_def)
  then have here: "ppr_users ?blk (s\<lparr>sys_st := put_ppr h (sys_st s), refs := remove1 h (refs s), committed := committed s\<rparr>) h ?q"
    using u c by (simp add: ppr_users_def commit_bits_def block_bits_def)
  have "ref_inv ?blk (s\<lparr>sys_st := put_ppr h (sys_st s), refs := remove1 h (refs s), committed := committed s\<rparr>)"
    using ref_invD(4,5) [OF ref] length_remove1_Suc [OF h]
    by (intro ref_inv_update [OF ref p _ remove1_sub _ _ count_remove1_other [OF h] _ _ here, where c = "(h, 0, 0)"])
      (auto simp: st')
  moreover have "reg_inv ?blk (put_ppr h (sys_st s))" unfolding st' by (rule reg_inv_set_ppr [OF reg p]) simp_all
  ultimately show ?thesis by (simp add: pre_inv_def)
qed

lemma occupy_blocksD:
  assumes "occupy_ppr_blocks blk p a b = (0, q)"
  shows "pr_start (pr p) \<le> a" "b \<le> pr_end (pr p)" "pr q = pr p" "length (bitmap q) = length (bitmap p)"
    "\<And>i. i \<in> set (block_bits blk p a b) \<Longrightarrow> \<not> bitmap p ! i"
    "\<And>i. i < length (bitmap p) \<Longrightarrow> bitmap q ! i = (i \<in> set (block_bits blk p a b) \<or> bitmap p ! i)"
  using assms by (auto simp: occupy_ppr_blocks_def set_bits_nth not_less split: if_splits)

lemma free_blocksD:
  assumes "free_ppr_blocks blk p a b = (0, q)"
  shows "pr_start (pr p) \<le> a" "b \<le> pr_end (pr p)" "pr q = pr p" "length (bitmap q) = length (bitmap p)"
    "\<And>i. i < length (bitmap p) \<Longrightarrow> bitmap q ! i = (i \<notin> set (block_bits blk p a b) \<and> bitmap p ! i)"
  using assms by (auto simp: free_ppr_blocks_def set_bits_nth not_less split: if_splits)

lemma pre_inv_take:
  assumes inv: "pre_inv env s" and h: "h \<in> set (refs s)" and ab: "a \<le> b"
    and o: "occupy_ppr_blocks (memory_block_size_bytes env) (ppr_at (sys_st s) h) a b = (0, q)"
  shows "pre_inv env (s\<lparr>sys_st := set_ppr h q (sys_st s), refs := remove1 h (refs s), committed := (h, a, b) # committed s\<rparr>)"
proof -
  let ?blk = "memory_block_size_bytes env"
  have reg: "reg_inv ?blk (sys_st s)" and ref: "ref_inv ?blk s" using inv by (auto simp: pre_inv_def)
  obtain p where p: "pprs (sys_st s) h = Some p" using ref_invD(1) [OF ref h] by blast
  note o = occupy_blocksD [OF o [unfolded p option.sel]]
  have u: "ppr_users ?blk s h p" by (rule ref_invD(3) [OF ref p])
  have bits: "i < length (bitmap p)" if "i \<in> set (block_bits ?blk p a b)" for i
    using block_bits_bounds [OF reg_invD(4) [OF reg p] o(1) ab o(2) that] .
  have cb: "commit_bits ?blk q c = commit_bits ?blk p c" for c using o(3) by (simp add: commit_bits_def block_bits_def)
  have new: "commit_bits ?blk p c \<inter> set (block_bits ?blk p a b) = {}" if "c \<in> set (committed s)" "fst c = h" for c
  proof (rule ccontr)
    assume "commit_bits ?blk p c \<inter> set (block_bits ?blk p a b) \<noteq> {}"
    then obtain i where i: "i \<in> commit_bits ?blk p c" "i \<in> set (block_bits ?blk p a b)" by blast
    then have "bitmap p ! i" using u bits that by (auto simp: ppr_users_def)
    then show False using o(5) i(2) by blast
  qed
  have "(unat a - unat (pr_start (pr p))) div unat ?blk \<in> set (block_bits ?blk p a b)"
    using block_of_mem [OF o(1) _ ab] by simp
  then have fresh: "(h, a, b) \<notin> set (committed s)" using new [of "(h, a, b)"] by (auto simp: commit_bits_def)
  have c: "count_list (remove1 h (refs s)) h = count_list (refs s) h - 1" "0 < count_list (refs s) h"
    using count_remove1_self [OF h] by auto
  let ?s = "s\<lparr>sys_st := set_ppr h q (sys_st s), refs := remove1 h (refs s), committed := (h, a, b) # committed s\<rparr>"
  have nb: "commit_bits ?blk p (h, a, b) = set (block_bits ?blk p a b)" by (simp add: commit_bits_def)
  have "ppr_users ?blk ?s h q"
    unfolding ppr_users_def cb
  proof (intro conjI)
    show "unat (use_count (pr q)) = count_list (refs ?s) h + count_list (map fst (committed ?s)) h"
      using u c o(3) by (simp add: ppr_users_def)
    show "\<forall>i < length (bitmap q). bitmap q ! i \<longleftrightarrow> (\<exists>c \<in> set (committed ?s). fst c = h \<and> i \<in> commit_bits ?blk p c)"
      using u o(4,6) nb by (auto simp: ppr_users_def)
    show "\<forall>c \<in> set (committed ?s). fst c = h \<longrightarrow> pr_start (pr q) \<le> fst (snd c) \<and> fst (snd c) \<le> snd (snd c)
        \<and> snd (snd c) \<le> pr_end (pr q)"
      using u o(1,2,3) ab by (simp add: ppr_users_def)
    show "\<forall>c \<in> set (committed ?s). \<forall>d \<in> set (committed ?s). fst c = h \<longrightarrow> fst d = h \<longrightarrow> c \<noteq> d \<longrightarrow>
        commit_bits ?blk p c \<inter> commit_bits ?blk p d = {}"
      using u new nb unfolding ppr_users_def by (simp, blast)
  qed
  note here = this
  have "ref_inv ?blk ?s"
    using ref_invD(4,5) [OF ref] fresh length_remove1_Suc [OF h]
    by (intro ref_inv_update [OF ref p _ remove1_sub _ _ count_remove1_other [OF h] _ _ here, where c = "(h, a, b)"]) auto
  moreover have "reg_inv ?blk (set_ppr h q (sys_st s))" by (rule reg_inv_set_ppr [OF reg p]) (simp_all add: o(3,4))
  ultimately show ?thesis by (simp add: pre_inv_def)
qed

lemma pre_inv_untake:
  assumes inv: "pre_inv env s" and h: "(h, a, b) \<in> set (committed s)"
    and o: "free_ppr_blocks (memory_block_size_bytes env) (ppr_at (sys_st s) h) a b = (0, q)"
  shows "pre_inv env (s\<lparr>sys_st := set_ppr h q (sys_st s), refs := h # refs s, committed := remove1 (h, a, b) (committed s)\<rparr>)"
proof -
  let ?blk = "memory_block_size_bytes env"
  have reg: "reg_inv ?blk (sys_st s)" and ref: "ref_inv ?blk s" using inv by (auto simp: pre_inv_def)
  obtain p where p: "pprs (sys_st s) h = Some p" using ref_invD(2) [OF ref h] by auto
  note o = free_blocksD [OF o [unfolded p option.sel]]
  have u: "ppr_users ?blk s h p" by (rule ref_invD(3) [OF ref p])
  have cb: "commit_bits ?blk q c = commit_bits ?blk p c" for c using o(3) by (simp add: commit_bits_def block_bits_def)
  have nb: "commit_bits ?blk p (h, a, b) = set (block_bits ?blk p a b)" by (simp add: commit_bits_def)
  have cs: "set (remove1 (h, a, b) (committed s)) = set (committed s) - {(h, a, b)}"
    using ref_invD(4) [OF ref] by (rule set_remove1_eq)
  have disj: "commit_bits ?blk p c \<inter> set (block_bits ?blk p a b) = {}"
    if "c \<in> set (committed s)" "fst c = h" "c \<noteq> (h, a, b)" for c
    using u that h unfolding ppr_users_def nb [symmetric] by simp
  let ?s = "s\<lparr>sys_st := set_ppr h q (sys_st s), refs := h # refs s, committed := remove1 (h, a, b) (committed s)\<rparr>"
  have "ppr_users ?blk ?s h q"
    unfolding ppr_users_def cb
  proof (intro conjI)
    show "unat (use_count (pr q)) = count_list (refs ?s) h + count_list (map fst (committed ?s)) h"
      using u count_map_remove1_self [OF h] o(3) by (simp add: ppr_users_def)
    show "\<forall>i < length (bitmap q). bitmap q ! i \<longleftrightarrow> (\<exists>c \<in> set (committed ?s). fst c = h \<and> i \<in> commit_bits ?blk p c)"
    proof (intro allI impI)
      fix i assume i: "i < length (bitmap q)"
      have old: "bitmap p ! i \<longleftrightarrow> (\<exists>c \<in> set (committed s). fst c = h \<and> i \<in> commit_bits ?blk p c)"
        using u i o(4) by (simp add: ppr_users_def)
      have q: "bitmap q ! i \<longleftrightarrow> i \<notin> set (block_bits ?blk p a b) \<and> bitmap p ! i" using o(5) i o(4) by simp
      have new: "set (committed ?s) = set (committed s) - {(h, a, b)}" using cs by simp
      show "bitmap q ! i \<longleftrightarrow> (\<exists>c \<in> set (committed ?s). fst c = h \<and> i \<in> commit_bits ?blk p c)"
      proof (cases "i \<in> set (block_bits ?blk p a b)")
        case True
        then have "\<not> (\<exists>c \<in> set (committed ?s). fst c = h \<and> i \<in> commit_bits ?blk p c)"
          using disj unfolding new by blast
        then show ?thesis using q True by blast
      next
        case False
        then have "i \<notin> commit_bits ?blk p (h, a, b)" using nb by simp
        then have "(\<exists>c \<in> set (committed s) - {(h, a, b)}. fst c = h \<and> i \<in> commit_bits ?blk p c)
            \<longleftrightarrow> (\<exists>c \<in> set (committed s). fst c = h \<and> i \<in> commit_bits ?blk p c)"
          by (intro bex_diff) simp
        then show ?thesis unfolding new q old using False by argo
      qed
    qed
    show "\<forall>c \<in> set (committed ?s). fst c = h \<longrightarrow> pr_start (pr q) \<le> fst (snd c) \<and> fst (snd c) \<le> snd (snd c)
        \<and> snd (snd c) \<le> pr_end (pr q)"
      using u o(3) by (simp add: ppr_users_def cs)
    show "\<forall>c \<in> set (committed ?s). \<forall>d \<in> set (committed ?s). fst c = h \<longrightarrow> fst d = h \<longrightarrow> c \<noteq> d \<longrightarrow>
        commit_bits ?blk p c \<inter> commit_bits ?blk p d = {}"
      using u by (simp add: ppr_users_def cs)
  qed
  note here = this
  have "ref_inv ?blk ?s"
    using ref_invD(4,5) [OF ref] length_remove1_Suc [OF h]
    by (intro ref_inv_update [OF ref p _ _ remove1_sub _ _ _ _ here, where c = "(h, a, b)"])
      (auto simp: cs count_map_remove1_other [OF h])
  moreover have "reg_inv ?blk (set_ppr h q (sys_st s))" by (rule reg_inv_set_ppr [OF reg p]) (simp_all add: o(3,4))
  ultimately show ?thesis by (simp add: pre_inv_def)
qed

lemma pre_inv_start: "pre_inv env (pre_start w)"
  by (simp add: pre_inv_def pre_start_def reg_inv_def ref_inv_def checker_inv_def module_addr_check_init_def
      covering_def mt_find_def)

lemma direct_occupy_reg:
  assumes inv: "reg_inv blk st" and r: "user (info r) = OBMM_ADDR_USER_DIRECT_IMPORT" and o: "occupy_range env r st = (ret, st')"
  shows "reg_inv blk st'" "pprs st' = pprs st"
proof -
  obtain al where oc: "occupy_pa_range al r (checker st) = (ret, checker st')"
    and f: "pprs st' = pprs st" "next_ptr st' = next_ptr st" using occupy_rangeD [OF o] by blast
  show "pprs st' = pprs st" by (rule f(1))
  show "reg_inv blk st'"
  proof (cases "ret = 0")
    case False
    then have "checker st' = checker st" using occupy_pa_range_err [OF oc] by simp
    then show ?thesis using reg_inv_same [OF inv, of st'] reg_invD(1) [OF inv] f by simp
  next
    case True
    note po = pa.occ_ok [OF reg_invD(1) [OF inv] oc [unfolded True]]
    have cov: "covering (checker st') x = (if pa_start r \<le> x \<and> x \<le> pa_end r then Some r else covering (checker st) x)" for x
      using po by simp
    show ?thesis unfolding reg_inv_def f
    proof (intro conjI allI impI)
      show "checker_inv (checker st')" using po by blast
      fix x e assume "covering (checker st') x = Some e" "user (info e) = OBMM_ADDR_USER_PREIMPORT"
      then show "\<exists>h p. pprs st h = Some p \<and> e = ppr_entry h p"
        using r reg_invD(2) [OF inv, of x e] unfolding cov by (auto split: if_splits)
    next
      fix h p assume h: "pprs st h = Some p"
      show "h < next_ptr st" "ppr_ok blk p" using reg_invD(3,4) [OF inv h] by auto
      have "\<not> (pa_start r \<le> pr_start (pr p) \<and> pr_start (pr p) \<le> pa_end r)"
        using po reg_invD(5) [OF inv h] by (metis option.distinct(1))
      then show "covering (checker st') (pr_start (pr p)) = Some (ppr_entry h p)"
        using reg_invD(5) [OF inv h] unfolding cov by (simp only: if_False)
    qed
  qed
qed

lemma direct_free_reg:
  assumes inv: "reg_inv blk st" and e: "covering (checker st) (pa_start r) = Some e" "user (info e) = OBMM_ADDR_USER_DIRECT_IMPORT"
    and o: "free_range r st = (ret, st')"
  shows "reg_inv blk st'" "pprs st' = pprs st"
proof -
  have f: "checker st' = snd (free_pa_range r (checker st))" "pprs st' = pprs st" "next_ptr st' = next_ptr st"
    using o free_range_frame [of r st] by auto
  show "pprs st' = pprs st" by (rule f(2))
  have ci: "checker_inv (checker st)" by (rule reg_invD(1) [OF inv])
  have cov: "covering (checker st') x = (if pa_start e \<le> x \<and> x \<le> pa_end e then None else covering (checker st) x)" for x
    using free_pa_range_ok [OF ci e(1)] f by simp
  show "reg_inv blk st'" unfolding reg_inv_def f(2,3)
  proof (intro conjI allI impI)
    show "checker_inv (checker st')" using free_pa_range_inv [OF ci] f by simp
    fix x d assume "covering (checker st') x = Some d" "user (info d) = OBMM_ADDR_USER_PREIMPORT"
    then show "\<exists>h p. pprs st h = Some p \<and> d = ppr_entry h p"
      using reg_invD(2) [OF inv, of x d] unfolding cov by (auto split: if_splits)
  next
    fix h p assume h: "pprs st h = Some p"
    show "h < next_ptr st" "ppr_ok blk p" using reg_invD(3,4) [OF inv h] by auto
    have "ppr_entry h p \<noteq> e" using e(2) by auto
    then have "\<not> (pa_start e \<le> pr_start (pr p) \<and> pr_start (pr p) \<le> pa_end e)"
      using covering_whole [OF ci e(1), of "pr_start (pr p)"] reg_invD(5) [OF inv h] by auto
    then show "covering (checker st') (pr_start (pr p)) = Some (ppr_entry h p)"
      using reg_invD(5) [OF inv h] unfolding cov by (simp only: if_False)
  qed
qed

lemma pre_step_inv:
  assumes "pre_step env s s'" "pre_inv env s"
  shows "pre_inv env s'"
  using assms
proof (induction rule: pre_step.induct)
  case (prepare cmd s ret cmd' st')
  have reg: "reg_inv (memory_block_size_bytes env) (sys_st s)" and ref: "ref_inv (memory_block_size_bytes env) s"
    using prepare.prems by (auto simp: pre_inv_def)
  note sp = prepare_prefilled_spec [OF reg_invD(1) [OF reg] reg_inv_fresh [OF reg] prepare.hyps]
  show ?case
  proof (cases "ret = 0")
    case True
    then obtain p where p: "pprs st' = (pprs (sys_st s))(next_ptr (sys_st s) \<mapsto> p)" "use_count (pr p) = 0"
      "\<forall>i < length (bitmap p). \<not> bitmap p ! i" "next_ptr (sys_st s) < next_ptr st'"
      "ppr_ok (memory_block_size_bytes env) p" "checker_inv (checker st')"
      and b: "pr_start (pr p) = pi_pa cmd" "pr_end (pr p) = pi_pa cmd + pi_length cmd - 1"
      and fr: "\<And>x. pi_pa cmd \<le> x \<Longrightarrow> x \<le> pi_pa cmd + pi_length cmd - 1 \<Longrightarrow> covering (checker (sys_st s)) x = None"
      and cv: "covering (checker st') = (\<lambda>x. if pi_pa cmd \<le> x \<and> x \<le> pi_pa cmd + pi_length cmd - 1
              then Some (ppr_entry (next_ptr (sys_st s)) p) else covering (checker (sys_st s)) x)"
      using sp by blast
    have "reg_inv (memory_block_size_bytes env) st'"
      using reg_inv_new [OF reg p(6,5) _ _ p(1) reg_inv_fresh [OF reg] p(4)] fr cv p(4) unfolding b by simp
    then show ?thesis using ref_inv_new [OF ref reg_inv_fresh [OF reg] p(1,2,3)] by (simp add: pre_inv_def)
  next
    case False
    then show ?thesis using sp reg_inv_same [OF reg, of st'] ref_inv_sys [OF ref, of st'] by (simp add: pre_inv_def)
  qed
next
  case (release a b s ret st')
  have reg: "reg_inv (memory_block_size_bytes env) (sys_st s)" and ref: "ref_inv (memory_block_size_bytes env) s"
    using release.prems by (auto simp: pre_inv_def)
  from release_prefilled_spec [OF reg release.hyps] show ?case
  proof (elim disjE conjE exE)
    assume "pprs st' = pprs (sys_st s)" "checker st' = checker (sys_st s)" "next_ptr st' = next_ptr (sys_st s)"
    then show ?thesis using reg_inv_same [OF reg, of st'] reg_invD(1) [OF reg] ref_inv_sys [OF ref, of st'] by (simp add: pre_inv_def)
  next
    fix h p assume h: "pprs (sys_st s) h = Some p" "use_count (pr p) = 0" "pr_start (pr p) = a" "pr_end (pr p) = b"
      "pprs st' = (pprs (sys_st s))(h := None)" "next_ptr st' = next_ptr (sys_st s)" "checker_inv (checker st')"
      "covering (checker st') = (\<lambda>x. if a \<le> x \<and> x \<le> b then None else covering (checker (sys_st s)) x)"
    show ?thesis using reg_inv_del [OF reg h(1,7) _ h(5,6)] h(3,4,8) ref_inv_del [OF ref h(1,5,2)] by (simp add: pre_inv_def)
  qed
next
  case (get x s h st')
  then show ?case by (intro pre_inv_get)
next
  case (take h s a b p)
  then show ?case by (intro pre_inv_take)
next
  case (drop h s)
  then show ?case by (intro pre_inv_drop)
next
  case (untake h a b s p)
  then show ?case by (intro pre_inv_untake)
next
  case (direct_occupy r s ret st')
  then show ?case using direct_occupy_reg ref_inv_sys by (metis pre_inv_def pre_sys.select_convs(1) pre_sys.surjective pre_sys.update_convs(1))
next
  case (direct_free s r e ret st')
  then show ?case using direct_free_reg ref_inv_sys by (metis pre_inv_def pre_sys.select_convs(1) pre_sys.surjective pre_sys.update_convs(1))
qed

lemma pre_reachable_inv: "pre_reachable env s \<Longrightarrow> pre_inv env s"
  by (induction rule: pre_reachable.induct) (auto intro: pre_inv_start pre_step_inv)

section \<open>Properties\<close>

lemma committed_covered:
  assumes inv: "pre_inv env s" and c: "c \<in> set (committed s)" and x: "fst (snd c) \<le> x" "x \<le> snd (snd c)"
  shows "\<exists>p. pprs (sys_st s) (fst c) = Some p \<and> covering (checker (sys_st s)) x = Some (ppr_entry (fst c) p)
    \<and> pr_start (pr p) \<le> fst (snd c) \<and> ppr_users (memory_block_size_bytes env) s (fst c) p"
proof -
  have reg: "reg_inv (memory_block_size_bytes env) (sys_st s)" and ref: "ref_inv (memory_block_size_bytes env) s"
    using inv by (auto simp: pre_inv_def)
  obtain p where p: "pprs (sys_st s) (fst c) = Some p" using ref_invD(2) [OF ref c] by blast
  have u: "ppr_users (memory_block_size_bytes env) s (fst c) p" by (rule ref_invD(3) [OF ref p])
  then have "pr_start (pr p) \<le> fst (snd c)" "snd (snd c) \<le> pr_end (pr p)" using c by (auto simp: ppr_users_def)
  moreover from this have "covering (checker (sys_st s)) x = Some (ppr_entry (fst c) p)"
    using covering_whole [OF reg_invD(1) [OF reg] reg_invD(5) [OF reg p], of x] x by (auto dest: order_trans)
  ultimately show ?thesis using p u by blast
qed


text \<open>A range with a reference cannot be released: the request for exactly that range is refused as
  busy and changes nothing.\<close>

lemma preimport_release_busy:
  assumes "pre_reachable env s" "h \<in> set (refs s) \<union> fst ` set (committed s)" "pprs (sys_st s) h = Some p"
  shows "preimport_release_prefilled env (pr_start (pr p)) (pr_end (pr p)) (sys_st s) = (- EBUSY, sys_st s)"
proof -
  have inv: "pre_inv env s" by (rule pre_reachable_inv [OF assms(1)])
  then have reg: "reg_inv (memory_block_size_bytes env) (sys_st s)" and ref: "ref_inv (memory_block_size_bytes env) s"
    by (auto simp: pre_inv_def)
  have "0 < count_list (refs s) h + count_list (map fst (committed s)) h"
    using assms(2) by (auto simp: count_list_0_iff neq0_conv [symmetric] simp del: neq0_conv)
  then have u: "use_count (pr p) \<noteq> 0" using ref_invD(3) [OF ref assms(3)] by (auto simp: ppr_users_def)
  have "get_pa_mapping (pr_start (pr p)) (sys_st s) = (0, Some h)"
    using reg_invD(5) [OF reg assms(3)] by (simp add: get_pa_mapping_def query_pa_range_covering)
  then show ?thesis using u assms(3) by (simp add: preimport_release_prefilled_def Let_def)
qed

lemma commit_undo:
  assumes reg: "reg_inv (memory_block_size_bytes env) st" and "a \<le> b" "preimport_commit_prefilled env a b dp st = (0, Some (nd, h), st')"
  shows "st' = st\<lparr>pprs := pprs st'\<rparr>"
    and "pprs st2 = pprs st' \<Longrightarrow> preimport_uncommit_prefilled env h a b st2 = (0, st2\<lparr>pprs := pprs st\<rparr>)"
proof -
  let ?blk = "memory_block_size_bytes env"
  obtain r ho st1 where g: "get_ppr a st = (r, ho, st1)" by (metis prod_cases3)
  then have r: "r = 0" using assms(3) by (auto simp: preimport_commit_prefilled_def Let_def split: if_splits)
  obtain mo where m: "get_pa_mapping a st = (0, mo)"
    using g r by (auto simp: get_ppr_def Let_def split: prod.splits if_splits)
  obtain k p where k: "mo = Some k" "pprs st k = Some p" using get_pa_mappingD [OF reg m] by blast
  let ?p1 = "p\<lparr>pr := (pr p)\<lparr>use_count := use_count (pr p) + 1\<rparr>\<rparr>"
  have g1: "get_ppr a st = (0, Some k, set_ppr k ?p1 st)"
    using m k by (simp add: get_ppr_def Let_def)
  obtain r2 q where o: "occupy_ppr_blocks ?blk ?p1 a b = (r2, q)" by fastforce
  have c: "check_preimport_datapath_common (pr ?p1) dp = 0" "r2 = 0" "h = k" "st' = set_ppr k q (set_ppr k ?p1 st)"
    using assms(3) g1 o by (auto simp: preimport_commit_prefilled_def Let_def split: if_splits)
  note ob = occupy_blocksD [OF o [unfolded c(2)]]
  have q: "q = ?p1\<lparr>bitmap := set_bits True (block_bits ?blk ?p1 a b) (bitmap p)\<rparr>"
    using o c(2) by (auto simp: occupy_ppr_blocks_def split: if_splits)
  have bb: "block_bits ?blk q a b = block_bits ?blk p a b" "block_bits ?blk ?p1 a b = block_bits ?blk p a b"
    by (simp_all add: q block_bits_def)
  have in_b: "i < length (bitmap p)" if "i \<in> set (block_bits ?blk p a b)" for i
    using block_bits_bounds [OF reg_invD(4) [OF reg k(2)] _ assms(2) _ that] ob(1,2) by simp
  have old: "\<not> bitmap p ! i" if "i \<in> set (block_bits ?blk p a b)" for i using ob(5) [of i] that bb by simp
  have m: "set_bits False (block_bits ?blk p a b) (set_bits True (block_bits ?blk p a b) (bitmap p)) = bitmap p"
    by (rule nth_equalityI) (auto simp: set_bits_nth old)
  have set: "\<not> (\<exists>i \<in> set (block_bits ?blk p a b). \<not> set_bits True (block_bits ?blk p a b) (bitmap p) ! i)"
    using in_b by (auto simp: set_bits_nth)
  have "free_ppr_blocks ?blk q a b = (0, ?p1)"
    using ob(1,2) set m unfolding free_ppr_blocks_def bb by (simp add: q bb not_less)
  moreover have "pprs st' k = Some q" by (simp add: c(4) set_ppr_def)
  ultimately show "preimport_uncommit_prefilled env h a b st2 = (0, st2\<lparr>pprs := pprs st\<rparr>)" if "pprs st2 = pprs st'"
    using k(2) that by (simp add: preimport_uncommit_prefilled_def c(3,4) put_ppr_def set_ppr_def fun_upd_idem)
  show "st' = st\<lparr>pprs := pprs st'\<rparr>" by (simp add: c(4) set_ppr_def)
qed

text \<open>Taking blocks of a pre-imported range and giving them back restores the state exactly.\<close>

lemma preimport_commit_round_trip:
  assumes "pre_reachable env s" "a \<le> b" "preimport_commit_prefilled env a b dp (sys_st s) = (0, Some (nd, h), st')"
  shows "preimport_uncommit_prefilled env h a b st' = (0, sys_st s)"
proof -
  have reg: "reg_inv (memory_block_size_bytes env) (sys_st s)" using pre_reachable_inv [OF assms(1)] by (simp add: pre_inv_def)
  note u = commit_undo [OF reg assms(2,3)]
  have "st'\<lparr>pprs := pprs (sys_st s)\<rparr> = sys_st s" by (subst u(1)) simp
  then show ?thesis using u(2) [OF refl] by simp
qed

text \<open>C35: the function that imports call to take blocks is a sequence of the steps above: on success it
  adds one commit, on failure it leaves the references and the commits as they were.\<close>

theorem preimport_commit_is_steps:
  assumes "pre_reachable env s" "a \<le> b" "length (refs s) + length (committed s) < 2 ^ 32 - 1"
    and "preimport_commit_prefilled env a b dp (sys_st s) = (ret, out, st')"
  shows "\<exists>s'. (pre_step env)\<^sup>*\<^sup>* s s' \<and> sys_st s' = st' \<and> refs s' = refs s
    \<and> committed s' = (if ret = 0 then (snd (the out), a, b) # committed s else committed s)"
proof -
  let ?blk = "memory_block_size_bytes env"
  have reg: "reg_inv ?blk (sys_st s)" using pre_reachable_inv [OF assms(1)] by (simp add: pre_inv_def)
  obtain r ho st1 where g: "get_ppr a (sys_st s) = (r, ho, st1)" by (metis prod_cases3)
  show ?thesis
  proof (cases "r = 0")
    case False
    then have "st1 = sys_st s" using g by (auto simp: get_ppr_def Let_def split: prod.splits if_splits)
    then have "st' = sys_st s" "ret \<noteq> 0" using assms(4) g False by (auto simp: preimport_commit_prefilled_def)
    then show ?thesis by (intro exI [of _ s]) auto
  next
    case True
    then obtain h where h: "ho = Some h" using g by (auto simp: get_ppr_def Let_def split: prod.splits if_splits)
    let ?s1 = "s\<lparr>sys_st := st1, refs := h # refs s\<rparr>"
    have s1: "pre_step env s ?s1" using pre_step.get [OF _ assms(3)] g True h by simp
    have drop: "pre_step env ?s1 (s\<lparr>sys_st := put_ppr h st1\<rparr>)"
      using pre_step.drop [of h ?s1 env] by simp
    obtain r2 q where o: "occupy_ppr_blocks ?blk (ppr_at st1 h) a b = (r2, q)" by fastforce
    show ?thesis
    proof (cases "check_preimport_datapath_common (pr (ppr_at st1 h)) dp = 0 \<and> r2 = 0")
      case True
      then have "ret = 0" "st' = set_ppr h q st1" "out = Some (pr_numa_id (pr q), h)"
        using assms(4) g \<open>r = 0\<close> h o by (auto simp: preimport_commit_prefilled_def Let_def)
      moreover have "pre_step env ?s1 (s\<lparr>sys_st := set_ppr h q st1, committed := (h, a, b) # committed s\<rparr>)"
        using pre_step.take [of h ?s1 a b env q] assms(2) o True by simp
      ultimately show ?thesis using s1 by (intro exI [of _ "s\<lparr>sys_st := set_ppr h q st1, committed := (h, a, b) # committed s\<rparr>"]) auto
    next
      case False
      then have "ret \<noteq> 0" "st' = put_ppr h st1"
        using assms(4) g \<open>r = 0\<close> h o by (auto simp: preimport_commit_prefilled_def Let_def split: if_splits)
      then show ?thesis using s1 drop by (intro exI [of _ "s\<lparr>sys_st := put_ppr h st1\<rparr>"]) auto
    qed
  qed
qed


section \<open>A concrete run\<close>

lemma demo_new_ppr: "new_ppr demo_pre_env demo_pre_cmd (Suc 0) = demo_ppr (- 1) 0 demo_free_bits"
proof -
  have "replicate 8 False = demo_free_bits" by (simp add: demo_free_bits_def eval_nat_numeral)
  then show ?thesis by (simp add: new_ppr_def demo_pre_env_def demo_pre_cmd_def demo_ppr_def)
qed

lemma demo_create:
  "create_prefilled_preimport_range demo_pre_env demo_pre_cmd (sys_st (pre_start ())\<lparr>checker := c\<rparr>)
     = (0, Some 0, (demo_pst 0 demo_free_bits)\<lparr>checker := c, pprs := [0 \<mapsto> demo_ppr (- 1) 0 demo_free_bits], pr_list := []\<rparr>)"
  unfolding demo_new_ppr [symmetric]
  by (simp add: create_prefilled_preimport_range_def pre_start_def demo_pst_def setup_ubmem_resource_def Let_def new_ppr_def)
    (simp add: demo_pre_env_def demo_pre_cmd_def setup_ubmem_resource_def Let_def)

lemma demo_prepare:
  "preimport_prepare_prefilled demo_pre_env demo_pre_cmd (sys_st (pre_start ()))
     = (0, demo_pre_cmd\<lparr>pi_numa_id := 1\<rparr>, demo_pst 0 demo_free_bits)"
proof -
  have chk: "check_preimport_cmd demo_pre_env demo_pre_cmd = 0"
    by (simp add: check_preimport_cmd_def check_preimport_cmd_common_def demo_pre_env_def demo_pre_cmd_def validate_scna_def
        is_numa_base_dist_valid_def)
  let ?r = "\<lparr>pa_start = 0x40000000, pa_end = 0x7fffffff, info = \<lparr>user = OBMM_ADDR_USER_PREIMPORT, info_data = Not_Ready\<rparr>\<rparr>"
  let ?c = "\<lparr>pa_ranges = [(0x40000000, 0x7fffffff, ?r)]\<rparr>"
  have occ: "occupy_range demo_pre_env ?r (sys_st (pre_start ())) = (0, sys_st (pre_start ())\<lparr>checker := ?c\<rparr>)"
    by (simp add: occupy_range_def demo_pre_env_def pre_start_def occupy_pa_range_def mtree_insert_range_def module_addr_check_init_def)
  have prep: "preimport_prepare_common demo_pre_env 0 0
      ((demo_pst 0 demo_free_bits)\<lparr>checker := c, pprs := [0 \<mapsto> demo_ppr (- 1) 0 demo_free_bits], pr_list := []\<rparr>)
      = (0, (demo_pst 0 demo_free_bits)\<lparr>checker := c\<rparr>)" for c
    by (simp add: preimport_prepare_common_def add_memory_remote_def demo_pre_env_def demo_pst_def demo_ppr_def
        set_ppr_def obmm_set_numa_distance_def is_numa_base_dist_valid_def Let_def)
  have upd: "update_pa_range 0x40000000 (Some \<lparr>user = OBMM_ADDR_USER_PREIMPORT, info_data = Ppr 0\<rparr>) ?c = (0, checker (demo_pst 0 demo_free_bits))"
    by (simp add: update_pa_range_def mt_find_def in_range_def mt_modify_def demo_pst_def ppr_entry_def demo_ppr_def)
  have e: "pi_pa demo_pre_cmd = 0x40000000" "pi_length demo_pre_cmd = 0x40000000"
    "pi_base_dist demo_pre_cmd = 0" by (simp_all add: demo_pre_cmd_def)
  show ?thesis
    by (simp add: preimport_prepare_prefilled_def e chk occ demo_create prep upd Let_def)
      (simp add: demo_pst_def demo_ppr_def)
qed

lemma demo_get: "get_ppr 0x48000000 (demo_pst n m) = (0, Some 0, demo_pst (n + 1) m)"
  by (simp add: get_ppr_def get_pa_mapping_def query_pa_range_def mt_find_def in_range_def demo_pst_def Let_def
      ppr_entry_def demo_ppr_def set_ppr_def)

lemma demo_bits: "block_bits 0x8000000 (demo_ppr 1 n m) 0x48000000 0x57ffffff = [1, 2]"
  by (simp add: block_bits_def demo_ppr_def upt_rec)

lemma demo_occupy:
  "occupy_ppr_blocks 0x8000000 (demo_ppr 1 1 demo_free_bits) 0x48000000 0x57ffffff
     = (0, demo_ppr 1 1 [False, True, True, False, False, False, False, False])"
  by (simp add: occupy_ppr_blocks_def demo_bits) (simp add: demo_ppr_def set_bits_def demo_free_bits_def)

lemma demo_prepared: "pre_reachable demo_pre_env ((pre_start ())\<lparr>sys_st := demo_pst 0 demo_free_bits\<rparr>)"
  by (rule pre_reachable.step [OF pre_reachable.start pre_step.prepare [OF demo_prepare]])

lemma demo_reachable: "pre_reachable demo_pre_env demo_taken"
proof -
  let ?s0 = "(pre_start ())\<lparr>sys_st := demo_pst 0 demo_free_bits\<rparr>"
  let ?s1 = "?s0\<lparr>sys_st := demo_pst 1 demo_free_bits, refs := [0]\<rparr>"
  have "pre_step demo_pre_env ?s0 ?s1"
    using pre_step.get [of "0x48000000" ?s0 0 "demo_pst 1 demo_free_bits" demo_pre_env] demo_get [of 0 demo_free_bits]
    by (simp add: pre_start_def)
  moreover have "pre_step demo_pre_env ?s1 demo_taken"
    using pre_step.take [of 0 ?s1 "0x48000000" "0x57ffffff" demo_pre_env] demo_occupy
    by (simp add: demo_taken_def pre_start_def demo_pst_def set_ppr_def demo_pre_env_def)
  ultimately show ?thesis using demo_prepared pre_reachable.step by blast
qed


lemma demo_commit:
  "preimport_commit_prefilled demo_pre_env 0x48000000 0x57ffffff \<lparr>dp_scna = 1, dp_dcna = 2, dp_seid = [], dp_deid = []\<rparr>
     (demo_pst 0 demo_free_bits) = (0, Some (1, 0), demo_pst 1 [False, True, True, False, False, False, False, False])"
proof -
  have "get_ppr 0x48000000 (demo_pst 0 demo_free_bits) = (0, Some 0, demo_pst 1 demo_free_bits)"
    using demo_get [of 0 demo_free_bits] by simp
  moreover have "ppr_at (demo_pst 1 demo_free_bits) 0 = demo_ppr 1 1 demo_free_bits" by (simp add: demo_pst_def)
  moreover have "check_preimport_datapath_common (pr (demo_ppr 1 1 demo_free_bits))
      \<lparr>dp_scna = 1, dp_dcna = 2, dp_seid = [], dp_deid = []\<rparr> = 0" by (simp add: check_preimport_datapath_common_def demo_ppr_def)
  moreover have "memory_block_size_bytes demo_pre_env = 0x8000000" by (simp add: demo_pre_env_def)
  ultimately show ?thesis
    by (simp add: preimport_commit_prefilled_def demo_occupy) (simp add: demo_ppr_def demo_pst_def set_ppr_def)
qed

theorem preimport_commit_is_steps_witness:
  "\<exists>s'. (pre_step demo_pre_env)\<^sup>*\<^sup>* ((pre_start ())\<lparr>sys_st := demo_pst 0 demo_free_bits\<rparr>) s'
     \<and> committed s' = [(0, 0x48000000, 0x57ffffff)]"
  using preimport_commit_is_steps [OF demo_prepared, of "0x48000000" "0x57ffffff"] demo_commit
  by (fastforce simp: pre_start_def)


end
