(* ===== verification/Obmm_Ownership.thy ===== *)
theory Obmm_Ownership
  imports Obmm_Types "HOL-Library.Multiset"
begin

text \<open>
  Tracking of who maps which page of a region (\<^verbatim>\<open>drivers/ub/obmm/obmm_ownership.c\<close> and \<^verbatim>\<open>.h\<close>): two 16-bit
  counters per page, readers and writers, and the cache maintenance that a change of them calls
  for.  The specification of a page is the multiset of the access rights of its mappings; the
  counters refine it, and the cache operation returned is the one that the change of the multiset
  calls for.  Reads and writes of the counter array beyond its end are the value \<open>None\<close>.
\<close>

section \<open>Access rights and cache operations\<close>

definition vm_flags_to_access :: "u64 \<Rightarrow> u8" where
  "vm_flags_to_access flags =
     (if flags AND VM_WRITE \<noteq> 0 then OBMM_SHM_MEM_READWRITE
      else if flags AND VM_READ \<noteq> 0
      then (if flags AND VM_EXEC \<noteq> 0 then OBMM_SHM_MEM_READEXEC else OBMM_SHM_MEM_READONLY)
      else OBMM_SHM_MEM_NO_ACCESS)"

definition obmm_access_is_reader :: "u8 \<Rightarrow> bool" where
  "obmm_access_is_reader access \<longleftrightarrow> access AND OBMM_SHM_MEM_ACCESS_MASK \<noteq> OBMM_SHM_MEM_NO_ACCESS"

definition obmm_access_is_writer :: "u8 \<Rightarrow> bool" where
  "obmm_access_is_writer access \<longleftrightarrow> access AND OBMM_SHM_MEM_ACCESS_MASK = OBMM_SHM_MEM_READWRITE"

definition ownership_pgoff_to_index :: "mm_config \<Rightarrow> obmm_region \<Rightarrow> u64 \<Rightarrow> u64" where
  "ownership_pgoff_to_index cfg reg pgoff =
     (if mmap_granu reg = OBMM_MMAP_GRANU_PMD then drop_bit (PMD_SHIFT cfg - PAGE_SHIFT cfg) pgoff
      else pgoff)"

definition ownership_size_to_nentries :: "mm_config \<Rightarrow> obmm_region \<Rightarrow> u64 \<Rightarrow> u64" where
  "ownership_size_to_nentries cfg reg sz =
     (if mmap_granu reg = OBMM_MMAP_GRANU_PMD then drop_bit (PMD_SHIFT cfg) sz
      else drop_bit (PAGE_SHIFT cfg) sz)"

definition obmm_is_aligned :: "mm_config \<Rightarrow> obmm_region \<Rightarrow> u64 \<Rightarrow> bool" where
  "obmm_is_aligned cfg reg x =
     (if mmap_granu reg = OBMM_MMAP_GRANU_PMD then IS_ALIGNED x (PMD_SIZE cfg)
      else IS_ALIGNED x (PAGE_SIZE cfg))"

definition vm_flags_to_mem_state :: "u64 \<Rightarrow> bool \<Rightarrow> u8" where
  "vm_flags_to_mem_state vm_flags cacheable =
     (let access = vm_flags_to_access vm_flags
      in if access \<noteq> OBMM_SHM_MEM_NO_ACCESS
         then access OR (if cacheable then OBMM_SHM_MEM_NORMAL else OBMM_SHM_MEM_NORMAL_NC)
         else access)"

definition access_to_vm_flags :: "u8 \<Rightarrow> u64" where
  "access_to_vm_flags access =
     (let m = access AND OBMM_SHM_MEM_ACCESS_MASK
      in if m = OBMM_SHM_MEM_READWRITE then VM_READ OR VM_WRITE OR VM_MAYREAD OR VM_MAYWRITE
         else if m = OBMM_SHM_MEM_READEXEC then VM_READ OR VM_MAYREAD
         else if m = OBMM_SHM_MEM_READONLY then VM_READ OR VM_MAYREAD
         else 0)"

definition merge_cache_ops :: "u8 \<Rightarrow> u8 \<Rightarrow> u8" where
  "merge_cache_ops ops1 ops2 =
     (if ops1 = OBMM_SHM_CACHE_NONE then ops2
      else if ops2 = OBMM_SHM_CACHE_NONE then ops1
      else if ops1 = OBMM_SHM_CACHE_WB_INVAL \<or> ops2 = OBMM_SHM_CACHE_WB_INVAL then OBMM_SHM_CACHE_WB_INVAL
      else if ops1 = OBMM_SHM_CACHE_WB_ONLY \<and> ops2 = OBMM_SHM_CACHE_INVAL
            \<or> ops1 = OBMM_SHM_CACHE_INVAL \<and> ops2 = OBMM_SHM_CACHE_WB_ONLY then OBMM_SHM_CACHE_WB_INVAL
      else ops1)"

section \<open>The counters\<close>

text \<open>The four conditional decrements and increments of one page, in the order of the source.\<close>

definition page_count_update :: "u8 \<Rightarrow> u8 \<Rightarrow> obmm_page_state \<Rightarrow> obmm_page_state" where
  "page_count_update old_access new_access p =
     (let p1 = (if obmm_access_is_writer old_access then p\<lparr>w_count := w_count p - 1\<rparr> else p);
          p2 = (if obmm_access_is_reader old_access then p1\<lparr>r_count := r_count p1 - 1\<rparr> else p1);
          p3 = (if obmm_access_is_writer new_access then p2\<lparr>w_count := w_count p2 + 1\<rparr> else p2)
      in if obmm_access_is_reader new_access then p3\<lparr>r_count := r_count p3 + 1\<rparr> else p3)"

definition page_cache_op :: "obmm_page_state \<Rightarrow> obmm_page_state \<Rightarrow> u8" where
  "page_cache_op old new =
     (if w_count old > 0 \<and> w_count new = 0
      then (if r_count new > 0 then OBMM_SHM_CACHE_WB_ONLY else OBMM_SHM_CACHE_WB_INVAL)
      else if r_count old > 0 \<and> r_count new = 0 \<and> w_count new = 0 then OBMM_SHM_CACHE_INVAL
      else OBMM_SHM_CACHE_NONE)"

definition update_page_ownership :: "obmm_ownership_info \<Rightarrow> u64 \<Rightarrow> u8 \<Rightarrow> u8
    \<Rightarrow> (u8 \<times> obmm_ownership_info) option" where
  "update_page_ownership ownership pgoff old_access new_access =
     (if unat pgoff < length (page_states ownership)
      then let old = page_states ownership ! unat pgoff;
               new = page_count_update old_access new_access old
           in Some (page_cache_op old new,
                    ownership\<lparr>page_states := (page_states ownership)[unat pgoff := new]\<rparr>)
      else None)"

text \<open>The loop of \<open>update_vma_perm_count\<close> from entry \<open>i\<close> on, with \<open>n\<close> entries to go.\<close>

fun perm_count_loop :: "obmm_ownership_info \<Rightarrow> u64 \<Rightarrow> nat \<Rightarrow> u8 \<Rightarrow> u8 \<Rightarrow> u8
    \<Rightarrow> (u8 \<times> obmm_ownership_info) option" where
  "perm_count_loop ownership i 0 old_access new_access combined_ops = Some (combined_ops, ownership)"
| "perm_count_loop ownership i (Suc n) old_access new_access combined_ops =
     (case update_page_ownership ownership i old_access new_access of
        None \<Rightarrow> None
      | Some (op, ownership1) \<Rightarrow>
          perm_count_loop ownership1 (i + 1) n old_access new_access (merge_cache_ops combined_ops op))"

definition update_vma_perm_count :: "mm_config \<Rightarrow> obmm_region \<Rightarrow> u64 \<Rightarrow> u64 \<Rightarrow> u8 \<Rightarrow> u8
    \<Rightarrow> (u8 \<times> obmm_region) option" where
  "update_vma_perm_count cfg reg region_pgoff npages old_access new_access =
     (case ownership_info reg of
        None \<Rightarrow> Some (OBMM_SHM_CACHE_NONE, reg)
      | Some ownership \<Rightarrow>
          let start_idx = ownership_pgoff_to_index cfg reg region_pgoff;
              n = ownership_size_to_nentries cfg reg (push_bit (PAGE_SHIFT cfg) npages)
          in case perm_count_loop ownership start_idx (unat n) old_access new_access OBMM_SHM_CACHE_NONE of
               None \<Rightarrow> None
             | Some (ops, ownership1) \<Rightarrow> Some (ops, reg\<lparr>ownership_info := Some ownership1\<rparr>))"

section \<open>Set-up and tear-down\<close>

text \<open>\<open>kzalloc_ok\<close> and \<open>vzalloc_ok\<close> are the answers of the two memory allocations.\<close>

definition init_ownership_info :: "mm_config \<Rightarrow> bool \<Rightarrow> bool \<Rightarrow> obmm_region \<Rightarrow> int \<times> obmm_region" where
  "init_ownership_info cfg kzalloc_ok vzalloc_ok reg =
     (if ownership_info reg \<noteq> None then (0, reg)
      else if mmap_granu reg = OBMM_MMAP_GRANU_NONE then (- EINVAL, reg)
      else if \<not> kzalloc_ok then (- ENOMEM, reg)
      else let n = ownership_size_to_nentries cfg reg (mem_size reg)
           in if \<not> vzalloc_ok then (- ENOMEM, reg)
              else (0, reg\<lparr>ownership_info :=
                         Some \<lparr>page_states = replicate (unat n) \<lparr>r_count = 0, w_count = 0\<rparr>,
                               nentries = sint (ucast n :: 32 word)\<rparr>\<rparr>))"

definition release_ownership_info :: "obmm_region \<Rightarrow> obmm_region" where
  "release_ownership_info reg =
     (case ownership_info reg of None \<Rightarrow> reg | Some _ \<Rightarrow> reg\<lparr>ownership_info := None\<rparr>)"

section \<open>Specification of a page: the multiset of its mappings' rights\<close>

definition readers :: "u8 multiset \<Rightarrow> nat" where
  "readers m = size (filter_mset obmm_access_is_reader m)"

definition writers :: "u8 multiset \<Rightarrow> nat" where
  "writers m = size (filter_mset obmm_access_is_writer m)"

definition page_refines :: "obmm_page_state \<Rightarrow> u8 multiset \<Rightarrow> bool" where
  "page_refines p m \<longleftrightarrow> size m < 2 ^ 16 \<and> unat (r_count p) = readers m \<and> unat (w_count p) = writers m"

text \<open>What a change of the mappings calls for: write back when the last writer leaves, invalidate
  when nobody can read any more.\<close>

definition change_wb :: "u8 multiset \<Rightarrow> u8 multiset \<Rightarrow> bool" where
  "change_wb m m' \<longleftrightarrow> writers m > 0 \<and> writers m' = 0"

definition change_inv :: "u8 multiset \<Rightarrow> u8 multiset \<Rightarrow> bool" where
  "change_inv m m' \<longleftrightarrow> readers m > 0 \<and> readers m' = 0"

definition op_wb :: "u8 \<Rightarrow> bool" where
  "op_wb ops \<longleftrightarrow> ops = OBMM_SHM_CACHE_WB_ONLY \<or> ops = OBMM_SHM_CACHE_WB_INVAL"

definition op_inv :: "u8 \<Rightarrow> bool" where
  "op_inv ops \<longleftrightarrow> ops = OBMM_SHM_CACHE_INVAL \<or> ops = OBMM_SHM_CACHE_WB_INVAL"

definition op_valid :: "u8 \<Rightarrow> bool" where
  "op_valid ops \<longleftrightarrow> ops = OBMM_SHM_CACHE_NONE \<or> ops = OBMM_SHM_CACHE_INVAL
     \<or> ops = OBMM_SHM_CACHE_WB_INVAL \<or> ops = OBMM_SHM_CACHE_WB_ONLY"

definition pages_refine :: "obmm_page_state list \<Rightarrow> u8 multiset list \<Rightarrow> bool" where
  "pages_refine ps ms \<longleftrightarrow> list_all2 page_refines ps ms"

text \<open>The specification of an update of the entries \<open>[i, i + n)\<close>.\<close>

definition remap :: "nat \<Rightarrow> nat \<Rightarrow> u8 \<Rightarrow> u8 \<Rightarrow> u8 multiset list \<Rightarrow> u8 multiset list" where
  "remap i n a b = upd_range i n (\<lambda>m. m - {#a#} + {#b#})"

text \<open>The mappings of the entries allow the update: the right to give up is there, and there is
  room for one more mapping.\<close>

definition remap_ok :: "nat \<Rightarrow> nat \<Rightarrow> u8 \<Rightarrow> u8 \<Rightarrow> u8 multiset list \<Rightarrow> bool" where
  "remap_ok i n a b ms \<longleftrightarrow> i + n \<le> length ms
     \<and> (\<forall>k. i \<le> k \<longrightarrow> k < i + n \<longrightarrow> (obmm_access_is_reader a \<longrightarrow> a \<in># ms ! k)
            \<and> size (ms ! k - {#a#} + {#b#}) < 2 ^ 16)"

definition demo_cfg4k :: mm_config where
  "demo_cfg4k = \<lparr>PAGE_SHIFT = 12, PMD_SHIFT = 21, PUD_SHIFT = 30\<rparr>"

text \<open>A region of three pages whose middle page is mapped once, writable.\<close>

definition demo_region :: obmm_region where
  "demo_region = \<lparr>regionid = 1, reg_flags = OBMM_REGION_FLAG_ALLOW_MMAP, device_released = 0, refcnt = 1,
     mem_size = 0x3000, mmap_mode = OBMM_MMAP_NORMAL, mmap_granu = OBMM_MMAP_GRANU_PAGE, mem_cap = 3,
     mmap_count = 1,
     ownership_info = Some \<lparr>page_states = [\<lparr>r_count = 0, w_count = 0\<rparr>, \<lparr>r_count = 1, w_count = 1\<rparr>,
        \<lparr>r_count = 0, w_count = 0\<rparr>], nentries = 3\<rparr>,
     priv_len = 0, priv = []\<rparr>"

section \<open>Facts on access rights and cache operations\<close>

lemma writer_is_reader: "obmm_access_is_writer a \<Longrightarrow> obmm_access_is_reader a"
  by (simp add: obmm_access_is_writer_def obmm_access_is_reader_def)

lemma writers_le_readers: "writers m \<le> readers m"
  unfolding writers_def readers_def
  by (induction m) (auto dest: writer_is_reader)

lemma readers_le_size: "readers m \<le> size m"
  unfolding readers_def by (rule size_mset_mono) simp

lemma merge_cache_ops_sem:
  assumes "op_valid a" "op_valid b"
  shows "op_valid (merge_cache_ops a b)"
    "op_wb (merge_cache_ops a b) \<longleftrightarrow> op_wb a \<or> op_wb b"
    "op_inv (merge_cache_ops a b) \<longleftrightarrow> op_inv a \<or> op_inv b"
  using assms unfolding op_valid_def
  by (auto simp: merge_cache_ops_def op_wb_def op_inv_def)

text \<open>A valid operation is determined by the two things it does.\<close>

lemma op_determined:
  assumes "op_valid a" "op_valid b" "op_wb a = op_wb b" "op_inv a = op_inv b"
  shows "a = b"
  using assms unfolding op_valid_def by (auto simp: op_wb_def op_inv_def)

lemma page_cache_op_valid: "op_valid (page_cache_op p q)"
  by (simp add: page_cache_op_def op_valid_def)

section \<open>The counters refine the multiset of mappings\<close>

lemma page_count_fields:
  "r_count (page_count_update a b p) = r_count p - of_bool (obmm_access_is_reader a) + of_bool (obmm_access_is_reader b)"
  "w_count (page_count_update a b p) = w_count p - of_bool (obmm_access_is_writer a) + of_bool (obmm_access_is_writer b)"
  by (simp_all add: page_count_update_def Let_def)

lemma page_count_round_trip: "page_count_update b a (page_count_update a b p) = p"
  by (rule obmm_page_state.equality) (simp_all add: page_count_fields)

lemma count_change:
  fixes c :: u16
  assumes "unat c = size (filter_mset P m)" "P a \<Longrightarrow> a \<in># m" "size (m - {#a#} + {#b#}) < 2 ^ 16"
  shows "unat (c - of_bool (P a) + of_bool (P b)) = size (filter_mset P (m - {#a#} + {#b#}))"
proof -
  let ?m = "m - {#a#}"
  have f: "size (filter_mset P (?m + {#b#})) = size (filter_mset P ?m) + of_bool (P b)" by simp
  have g: "size (filter_mset P m) = size (filter_mset P ?m) + of_bool (P a)"
  proof (cases "P a")
    case True
    then have "m = add_mset a ?m" using assms(2) by simp
    then have "size (filter_mset P m) = size (filter_mset P (add_mset a ?m))" by simp
    then show ?thesis using True by simp
  next
    case False
    then have "filter_mset P m = filter_mset P ?m" by (simp add: filter_diff_mset)
    then show ?thesis using False by simp
  qed
  have "size (filter_mset P (?m + {#b#})) \<le> size (?m + {#b#})"
    by (rule size_mset_mono) (rule multiset_filter_subset)
  then have lt: "size (filter_mset P (?m + {#b#})) < 2 ^ 16" using assms(3) by simp
  have "c = of_nat (size (filter_mset P m))" by (simp flip: assms(1))
  then have "c - of_bool (P a) + of_bool (P b) = of_nat (size (filter_mset P (?m + {#b#})))"
    unfolding f g by simp
  then show ?thesis using lt by (simp only: unat_of_nat) simp
qed

lemma page_refines_update:
  assumes "page_refines p m" "obmm_access_is_reader a \<Longrightarrow> a \<in># m" "size (m - {#a#} + {#b#}) < 2 ^ 16"
  defines "q \<equiv> page_count_update a b p" and "m' \<equiv> m - {#a#} + {#b#}"
  shows "page_refines q m'" "op_wb (page_cache_op p q) = change_wb m m'"
    "op_inv (page_cache_op p q) = change_inv m m'"
proof -
  have r: "unat (r_count q) = readers m'"
    unfolding q_def m'_def readers_def page_count_fields
    using assms(1) count_change [OF _ assms(2,3), of "r_count p"] by (simp add: page_refines_def readers_def)
  have w: "unat (w_count q) = writers m'"
    unfolding q_def m'_def writers_def page_count_fields
    using assms(1) count_change [OF _ _ assms(3), of "w_count p" obmm_access_is_writer]
      assms(2) writer_is_reader by (simp add: page_refines_def writers_def)
  show "page_refines q m'" using r w assms(3) by (simp add: page_refines_def m'_def)
  have z: "x > 0 \<longleftrightarrow> unat x > 0" "x = 0 \<longleftrightarrow> unat x = 0" for x :: u16
    by (simp_all add: unat_gt_0 unat_eq_zero word_gt_0)
  have c: "(r_count p > 0) = (readers m > 0)" "(w_count p > 0) = (writers m > 0)"
    "(r_count q = 0) = (readers m' = 0)" "(w_count q = 0) = (writers m' = 0)" "(r_count q > 0) = (readers m' > 0)"
    using assms(1) r w z unfolding page_refines_def by auto
  show "op_wb (page_cache_op p q) = change_wb m m'"
    unfolding page_cache_op_def c op_wb_def change_wb_def by auto
  show "op_inv (page_cache_op p q) = change_inv m m'"
    unfolding page_cache_op_def c op_inv_def change_inv_def
    using writers_le_readers [of m] writers_le_readers [of m'] by auto
qed

section \<open>Ranges of pages\<close>

lemma pages_refine_update:
  assumes "pages_refine ps ms" "i < length ms" "page_refines q m"
  shows "pages_refine (ps[i := q]) (ms[i := m])"
  using assms unfolding pages_refine_def by (simp add: list_all2_update_cong)

lemma perm_count_loop_refines:
  assumes "pages_refine (page_states own) ms" "remap_ok (unat i) n a b ms" "unat i + n < 2 ^ 64" "op_valid c"
  obtains ops own' where "perm_count_loop own i n a b c = Some (ops, own')"
    "pages_refine (page_states own') (remap (unat i) n a b ms)" "nentries own' = nentries own"
    "op_valid ops"
    "op_wb ops \<longleftrightarrow> op_wb c \<or> (\<exists>k. unat i \<le> k \<and> k < unat i + n \<and> change_wb (ms ! k) (ms ! k - {#a#} + {#b#}))"
    "op_inv ops \<longleftrightarrow> op_inv c \<or> (\<exists>k. unat i \<le> k \<and> k < unat i + n \<and> change_inv (ms ! k) (ms ! k - {#a#} + {#b#}))"
  using assms
proof (induction n arbitrary: own i ms c thesis)
  case 0
  show ?case by (rule "0.prems"(1)) (use "0.prems" in \<open>auto simp: remap_def\<close>)
next
  case (Suc n)
  let ?i = "unat i"
  have len: "?i < length ms" using Suc.prems(3) by (simp add: remap_ok_def)
  then have len': "?i < length (page_states own)"
    using Suc.prems(2) by (simp add: pages_refine_def list_all2_lengthD)
  define p where "p = page_states own ! ?i"
  define q where "q = page_count_update a b p"
  define m where "m = ms ! ?i"
  define own1 where "own1 = own\<lparr>page_states := (page_states own)[?i := q]\<rparr>"
  define ms1 where "ms1 = ms[?i := m - {#a#} + {#b#}]"
  have pm: "page_refines p m"
    using Suc.prems(2) len' unfolding pages_refine_def p_def m_def by (simp add: list_all2_nthD)
  have ok: "obmm_access_is_reader a \<Longrightarrow> a \<in># m" "size (m - {#a#} + {#b#}) < 2 ^ 16"
    using Suc.prems(3) by (auto simp: remap_ok_def m_def)
  note u = page_refines_update [OF pm ok, folded q_def]
  have si: "unat (i + 1) = Suc ?i" using Suc.prems(4) by (intro u64_unat_Suc) simp
  have r1: "pages_refine (page_states own1) ms1"
    unfolding own1_def ms1_def using pages_refine_update [OF Suc.prems(2) len u(1)] by simp
  have k1: "ms1 ! k = ms ! k" if "Suc ?i \<le> k" for k using that by (simp add: ms1_def)
  have o1: "remap_ok (unat (i + 1)) n a b ms1"
    unfolding remap_ok_def si using Suc.prems(3) k1 by (auto simp: remap_ok_def ms1_def)
  have b1: "unat (i + 1) + n < 2 ^ 64" using Suc.prems(4) si by simp
  let ?c1 = "merge_cache_ops c (page_cache_op p q)"
  note mg = merge_cache_ops_sem [OF Suc.prems(5) page_cache_op_valid [of p q]]
  obtain ops own' where ih:
    "perm_count_loop own1 (i + 1) n a b ?c1 = Some (ops, own')"
    "pages_refine (page_states own') (remap (Suc ?i) n a b ms1)" "nentries own' = nentries own1" "op_valid ops"
    "op_wb ops \<longleftrightarrow> op_wb ?c1 \<or> (\<exists>k. Suc ?i \<le> k \<and> k < Suc ?i + n \<and> change_wb (ms1 ! k) (ms1 ! k - {#a#} + {#b#}))"
    "op_inv ops \<longleftrightarrow> op_inv ?c1 \<or> (\<exists>k. Suc ?i \<le> k \<and> k < Suc ?i + n \<and> change_inv (ms1 ! k) (ms1 ! k - {#a#} + {#b#}))"
    by (rule Suc.IH [OF _ r1 o1 b1 mg(1), unfolded si])
  have ex: "(\<exists>k. ?i \<le> k \<and> k < ?i + Suc n \<and> Q (ms ! k)) \<longleftrightarrow>
      Q m \<or> (\<exists>k. Suc ?i \<le> k \<and> k < Suc ?i + n \<and> Q (ms1 ! k))" for Q
    using k1 unfolding ex_range_Suc [of ?i n "\<lambda>k. Q (ms ! k)"] m_def by auto
  show ?case
  proof (rule Suc.prems(1))
    show "perm_count_loop own i (Suc n) a b c = Some (ops, own')"
      using ih(1) len' by (simp add: update_page_ownership_def Let_def p_def q_def own1_def)
    show "pages_refine (page_states own') (remap ?i (Suc n) a b ms)"
      using ih(2) unfolding remap_def ms1_def m_def upd_range_Suc [OF len, of n "\<lambda>m. m - {#a#} + {#b#}"] .
    show "nentries own' = nentries own" using ih(3) by (simp add: own1_def)
    show "op_wb ops \<longleftrightarrow> op_wb c \<or> (\<exists>k. ?i \<le> k \<and> k < ?i + Suc n \<and> change_wb (ms ! k) (ms ! k - {#a#} + {#b#}))"
      using ih(5) mg(2) u(2) ex [of "\<lambda>x. change_wb x (x - {#a#} + {#b#})"] by blast
    show "op_inv ops \<longleftrightarrow> op_inv c \<or> (\<exists>k. ?i \<le> k \<and> k < ?i + Suc n \<and> change_inv (ms ! k) (ms ! k - {#a#} + {#b#}))"
      using ih(6) mg(3) u(3) ex [of "\<lambda>x. change_inv x (x - {#a#} + {#b#})"] by blast
  qed (rule ih(4))
qed

text \<open>The loop in closed form.\<close>

lemma perm_count_loop_eq:
  assumes "unat i + n \<le> length (page_states own)" "length (page_states own) < 2 ^ 64"
  shows "\<exists>ops. perm_count_loop own i n a b c =
     Some (ops, own\<lparr>page_states := upd_range (unat i) n (page_count_update a b) (page_states own)\<rparr>)"
  using assms
proof (induction n arbitrary: own i c)
  case (Suc n)
  define ps where "ps = page_states own"
  have l: "unat i < length ps" using Suc.prems by (simp add: ps_def)
  have si: "unat (i + 1) = Suc (unat i)"
    using l Suc.prems(2) unfolding ps_def by (intro u64_unat_Suc) linarith
  define own1 where "own1 = own\<lparr>page_states := ps[unat i := page_count_update a b (ps ! unat i)]\<rparr>"
  have up: "update_page_ownership own i a b
      = Some (page_cache_op (ps ! unat i) (page_count_update a b (ps ! unat i)), own1)"
    using l by (simp add: update_page_ownership_def Let_def own1_def ps_def)
  have "\<exists>ops. perm_count_loop own1 (i + 1) n a b c' = Some (ops, own1\<lparr>page_states :=
        upd_range (unat (i + 1)) n (page_count_update a b) (page_states own1)\<rparr>)" for c'
    by (rule Suc.IH) (use Suc.prems si in \<open>auto simp: own1_def ps_def\<close>)
  moreover have "own1\<lparr>page_states := upd_range (unat (i + 1)) n (page_count_update a b) (page_states own1)\<rparr>
      = own\<lparr>page_states := upd_range (unat i) (Suc n) (page_count_update a b) ps\<rparr>"
    using upd_range_Suc [OF l, of n "page_count_update a b"] by (simp add: own1_def si)
  ultimately show ?case by (simp add: up ps_def)
qed simp

lemma perm_count_loop_in_range:
  assumes "perm_count_loop own i n a b c = Some r" "length (page_states own) < 2 ^ 64" "n > 0"
  shows "unat i + n \<le> length (page_states own)"
  using assms
proof (induction n arbitrary: own i c)
  case (Suc n)
  obtain op own1 where u: "update_page_ownership own i a b = Some (op, own1)"
    using Suc.prems(1) by (auto split: option.splits)
  then have l: "unat i < length (page_states own)" and le: "length (page_states own1) = length (page_states own)"
    by (auto simp: update_page_ownership_def Let_def split: if_splits)
  have si: "unat (i + 1) = Suc (unat i)"
    using l Suc.prems(2) by (intro u64_unat_Suc) linarith
  show ?case
  proof (cases "n = 0")
    case False
    have "unat (i + 1) + n \<le> length (page_states own1)"
      by (rule Suc.IH) (use Suc.prems u le False in auto)
    then show ?thesis using si le by simp
  qed (use l in simp)
qed simp

section \<open>Properties\<close>

text \<open>C12: the counters refine the multiset of the mappings of each page.  An update of a range of
  pages from right \<open>a\<close> to right \<open>b\<close> succeeds, replaces one mapping of each page of the range in the
  specification, and returns an operation that writes back exactly when some page loses its last
  writer and invalidates exactly when some page loses its last reader.\<close>

theorem perm_count_refines:
  assumes "ownership_info reg = Some own" "pages_refine (page_states own) ms" "length ms < 2 ^ 64"
    "start = unat (ownership_pgoff_to_index cfg reg pgoff)"
    "n = unat (ownership_size_to_nentries cfg reg (push_bit (PAGE_SHIFT cfg) npages))"
    "remap_ok start n a b ms"
  shows "\<exists>ops own'. update_vma_perm_count cfg reg pgoff npages a b
        = Some (ops, reg\<lparr>ownership_info := Some own'\<rparr>)
    \<and> pages_refine (page_states own') (remap start n a b ms) \<and> op_valid ops
    \<and> (op_wb ops \<longleftrightarrow> (\<exists>k. start \<le> k \<and> k < start + n \<and> change_wb (ms ! k) (ms ! k - {#a#} + {#b#})))
    \<and> (op_inv ops \<longleftrightarrow> (\<exists>k. start \<le> k \<and> k < start + n \<and> change_inv (ms ! k) (ms ! k - {#a#} + {#b#})))"
proof -
  let ?i = "ownership_pgoff_to_index cfg reg pgoff"
  have ok: "remap_ok (unat ?i) n a b ms" using assms(4,6) by simp
  have b: "unat ?i + n < 2 ^ 64" using ok assms(3) by (simp add: remap_ok_def)
  obtain ops own' where
    "perm_count_loop own ?i n a b OBMM_SHM_CACHE_NONE = Some (ops, own')"
    "pages_refine (page_states own') (remap start n a b ms)" "op_valid ops"
    "op_wb ops \<longleftrightarrow> (\<exists>k. start \<le> k \<and> k < start + n \<and> change_wb (ms ! k) (ms ! k - {#a#} + {#b#}))"
    "op_inv ops \<longleftrightarrow> (\<exists>k. start \<le> k \<and> k < start + n \<and> change_inv (ms ! k) (ms ! k - {#a#} + {#b#}))"
    by (rule perm_count_loop_refines [OF assms(2) ok b, of OBMM_SHM_CACHE_NONE])
       (auto simp: op_valid_def op_wb_def op_inv_def assms(4))
  then show ?thesis
    using assms(1,5) by (intro exI [of _ ops] exI [of _ own']) (simp add: update_vma_perm_count_def Let_def)
qed

theorem perm_count_refines_witness:
  "\<exists>ops own'. update_vma_perm_count demo_cfg4k demo_region 1 1 OBMM_SHM_MEM_READWRITE OBMM_SHM_MEM_NO_ACCESS
      = Some (ops, demo_region\<lparr>ownership_info := Some own'\<rparr>) \<and> op_wb ops \<and> op_inv ops"
proof -
  let ?own = "the (ownership_info demo_region)"
  let ?ms = "[{#}, {#OBMM_SHM_MEM_READWRITE#}, {#}]"
  have r: "pages_refine (page_states ?own) ?ms"
    by (simp add: demo_region_def pages_refine_def page_refines_def readers_def writers_def
        obmm_access_is_reader_def obmm_access_is_writer_def)
  have i: "1 = unat (ownership_pgoff_to_index demo_cfg4k demo_region 1)"
    and n: "1 = unat (ownership_size_to_nentries demo_cfg4k demo_region (push_bit (PAGE_SHIFT demo_cfg4k) 1))"
    by (simp_all add: demo_region_def demo_cfg4k_def ownership_pgoff_to_index_def ownership_size_to_nentries_def)
  have ok: "remap_ok 1 1 OBMM_SHM_MEM_READWRITE OBMM_SHM_MEM_NO_ACCESS ?ms"
    by (auto simp: remap_ok_def less_Suc_eq)
  from perm_count_refines [OF _ r _ i n ok]
  show ?thesis
    by (auto simp: demo_region_def change_wb_def change_inv_def readers_def writers_def
        obmm_access_is_reader_def obmm_access_is_writer_def)
qed

text \<open>Undoing an update of a range restores every counter, whatever the counters were, also across
  16-bit wrap-around.  This is what the roll-back of a failed range update relies on.\<close>

lemma perm_count_round_trip:
  assumes "update_vma_perm_count cfg reg pgoff npages a b = Some (ops, reg')"
    "\<forall>own. ownership_info reg = Some own \<longrightarrow> length (page_states own) < 2 ^ 64"
  shows "\<exists>ops'. update_vma_perm_count cfg reg' pgoff npages b a = Some (ops', reg)"
proof (cases "ownership_info reg")
  case None
  then show ?thesis using assms(1) by (simp add: update_vma_perm_count_def)
next
  case (Some own)
  let ?i = "ownership_pgoff_to_index cfg reg pgoff"
  let ?n = "unat (ownership_size_to_nentries cfg reg (push_bit (PAGE_SHIFT cfg) npages))"
  have len: "length (page_states own) < 2 ^ 64" using assms(2) Some by blast
  obtain own' where l: "perm_count_loop own ?i ?n a b OBMM_SHM_CACHE_NONE = Some (ops, own')"
    and reg': "reg' = reg\<lparr>ownership_info := Some own'\<rparr>"
    using assms(1) Some by (auto simp: update_vma_perm_count_def Let_def split: option.splits)
  have gr: "ownership_pgoff_to_index cfg reg' pgoff = ?i"
    "unat (ownership_size_to_nentries cfg reg' (push_bit (PAGE_SHIFT cfg) npages)) = ?n"
    by (simp_all add: reg' ownership_pgoff_to_index_def ownership_size_to_nentries_def)
  have "\<exists>ops'. perm_count_loop own' ?i ?n b a OBMM_SHM_CACHE_NONE = Some (ops', own)"
  proof (cases "?n = 0")
    case True
    then show ?thesis using l by simp
  next
    case False
    then have rng: "unat ?i + ?n \<le> length (page_states own)"
      using perm_count_loop_in_range [OF l len] by simp
    have own': "own' = own\<lparr>page_states := upd_range (unat ?i) ?n (page_count_update a b) (page_states own)\<rparr>"
      using perm_count_loop_eq [OF rng len, of a b OBMM_SHM_CACHE_NONE] l by auto
    have "\<exists>ops'. perm_count_loop own' ?i ?n b a OBMM_SHM_CACHE_NONE = Some (ops',
        own'\<lparr>page_states := upd_range (unat ?i) ?n (page_count_update b a) (page_states own')\<rparr>)"
      by (rule perm_count_loop_eq) (use rng len in \<open>simp_all add: own'\<close>)
    then show ?thesis by (simp add: own' upd_range_inverse page_count_round_trip)
  qed
  moreover have "reg\<lparr>ownership_info := Some own\<rparr> = reg" using Some by (cases reg) simp
  ultimately show ?thesis
    unfolding update_vma_perm_count_def Let_def gr by (auto simp: reg')
qed

text \<open>On valid operations, merging is the join of what the operations do: the result writes back
  when one of them does and invalidates when one of them does.  Hence it is commutative,
  associative and idempotent, and merging in any order gives the same operation.\<close>

lemma merge_cache_ops_join:
  assumes "op_valid a" "op_valid b" "op_valid c"
  shows "op_valid (merge_cache_ops a b)
    \<and> (op_wb (merge_cache_ops a b) \<longleftrightarrow> op_wb a \<or> op_wb b)
    \<and> (op_inv (merge_cache_ops a b) \<longleftrightarrow> op_inv a \<or> op_inv b)
    \<and> merge_cache_ops a b = merge_cache_ops b a \<and> merge_cache_ops a a = a
    \<and> merge_cache_ops (merge_cache_ops a b) c = merge_cache_ops a (merge_cache_ops b c)"
proof (intro conjI)
  note m = merge_cache_ops_sem
  show "op_valid (merge_cache_ops a b)" "op_wb (merge_cache_ops a b) \<longleftrightarrow> op_wb a \<or> op_wb b"
    "op_inv (merge_cache_ops a b) \<longleftrightarrow> op_inv a \<or> op_inv b" using assms m by blast+
  show "merge_cache_ops a b = merge_cache_ops b a" "merge_cache_ops a a = a"
    "merge_cache_ops (merge_cache_ops a b) c = merge_cache_ops a (merge_cache_ops b c)"
    by (rule op_determined; use assms m in auto)+
qed

text \<open>C27: once the counters are set up, no update of pages that lie inside the region reaches beyond
  the counter array, for either mapping granularity.\<close>

theorem ownership_in_bounds:
  assumes "mm_config_ok cfg" "ownership_info reg = None"
    "init_ownership_info cfg True True reg = (0, reg')"
    "unat pgoff + unat npages \<le> unat (mem_size reg) div 2 ^ PAGE_SHIFT cfg"
  shows "update_vma_perm_count cfg reg' pgoff npages a b \<noteq> None"
proof -
  let ?P = "PAGE_SHIFT cfg" and ?M = "PMD_SHIFT cfg"
  let ?i = "ownership_pgoff_to_index cfg reg' pgoff"
  let ?n = "ownership_size_to_nentries cfg reg' (push_bit ?P npages)"
  let ?N = "ownership_size_to_nentries cfg reg (mem_size reg)"
  have reg': "mmap_granu reg' = mmap_granu reg"
    "\<exists>own. ownership_info reg' = Some own \<and> length (page_states own) = unat ?N"
    using assms(2,3) by (auto simp: init_ownership_info_def Let_def split: if_splits)
  have sh: "?P \<le> ?M" "?M < 64" using assms(1) by (auto simp: mm_config_ok_def)
  have "unat npages * 2 ^ ?P \<le> (unat (mem_size reg) div 2 ^ ?P) * 2 ^ ?P"
    using assms(4) by (intro mult_right_mono) auto
  also have "\<dots> \<le> unat (mem_size reg)" by (simp add: div_times_less_eq_dividend)
  also have "\<dots> < 2 ^ 64" by (rule u64_lt)
  finally have np: "unat (push_bit ?P npages) = unat npages * 2 ^ ?P"
    by (rule u64_unat_push_bit)
  have split: "(2 :: nat) ^ ?M = 2 ^ ?P * 2 ^ (?M - ?P)" using sh by (simp flip: power_add)
  have "unat ?i + unat ?n \<le> unat ?N"
  proof (cases "mmap_granu reg = OBMM_MMAP_GRANU_PMD")
    case True
    have "unat ?i + unat ?n = unat pgoff div 2 ^ (?M - ?P) + unat npages div 2 ^ (?M - ?P)"
      using True reg' np by (simp add: ownership_pgoff_to_index_def ownership_size_to_nentries_def
          u64_unat_drop_bit split)
    also have "\<dots> \<le> (unat pgoff + unat npages) div 2 ^ (?M - ?P)" by (rule div_add1_le)
    also have "\<dots> \<le> (unat (mem_size reg) div 2 ^ ?P) div 2 ^ (?M - ?P)" using assms(4) by (rule div_le_mono)
    also have "\<dots> = unat ?N"
      using True by (simp add: ownership_size_to_nentries_def u64_unat_drop_bit split div_mult2_eq)
    finally show ?thesis .
  next
    case False
    then show ?thesis using assms(4) reg' np
      by (simp add: ownership_pgoff_to_index_def ownership_size_to_nentries_def u64_unat_drop_bit)
  qed
  moreover obtain own where own: "ownership_info reg' = Some own" "length (page_states own) = unat ?N"
    using reg'(2) by blast
  ultimately have "\<exists>ops own'. perm_count_loop own ?i (unat ?n) a b OBMM_SHM_CACHE_NONE = Some (ops, own')"
    using perm_count_loop_eq [of ?i "unat ?n" own a b] u64_lt [of ?N] by (metis (no_types, lifting))
  then show ?thesis using own(1) by (auto simp: update_vma_perm_count_def Let_def)
qed

theorem ownership_in_bounds_witness:
  "update_vma_perm_count demo_cfg4k
     (snd (init_ownership_info demo_cfg4k True True (demo_region\<lparr>ownership_info := None\<rparr>))) 1 2
     OBMM_SHM_MEM_NO_ACCESS OBMM_SHM_MEM_READONLY \<noteq> None"
proof -
  let ?r = "demo_region\<lparr>ownership_info := None\<rparr>"
  have "init_ownership_info demo_cfg4k True True ?r
      = (0, snd (init_ownership_info demo_cfg4k True True ?r))"
    by (simp add: init_ownership_info_def demo_region_def Let_def)
  from ownership_in_bounds [OF _ _ this, of 1 2] show ?thesis
    by (simp add: mm_config_ok_def demo_cfg4k_def demo_region_def)
qed

end
