(* ===== verification/Obmm_Region.thy ===== *)
theory Obmm_Region
  imports Obmm_Export_Pool Obmm_Preimport Obmm_Ownership
begin

text \<open>
  The life of regions (\<^verbatim>\<open>drivers/ub/obmm/obmm_core.c\<close>, device part of \<^verbatim>\<open>obmm_shm_dev.c\<close>).  A region gets a
  number, is published on the list of regions and as a character device, and is then found by its
  number or through its device.  The counter \<open>refcnt\<close> is 0 while the region is being created or
  destroyed and one more than the number of users while it is active.

  Regions live in a store indexed by natural numbers, the model of their addresses; the list of regions
  and the devices refer to them by these numbers.
\<close>

section \<open>Data\<close>

record obmm_import_region =
  i_region :: obmm_region
  i_dcna :: u32
  i_scna :: u32
  ubmem_res :: nat
  memdev_res :: "resource option"
  i_pa :: u64
  i_numa_id :: int
  i_base_dist :: u8
  preimport_handle :: "nat option"
  i_deid :: "u8 list"
  i_seid :: "u8 list"

datatype any_region = Import obmm_import_region | Export obmm_export_region

fun region_of :: "any_region \<Rightarrow> obmm_region" where
  "region_of (Import i) = i_region i"
| "region_of (Export e) = e_region e"

fun map_region :: "(obmm_region \<Rightarrow> obmm_region) \<Rightarrow> any_region \<Rightarrow> any_region" where
  "map_region f (Import i) = Import (i\<lparr>i_region := f (i_region i)\<rparr>)"
| "map_region f (Export e) = Export (e\<lparr>e_region := f (e_region e)\<rparr>)"

text \<open>The state of the driver: the list of regions, the store, the numbers in use, the devices, the
  memory pool and the state that imports share with pre-imports.\<close>

record ('k, 'w) obmm_state =
  regions :: "nat list"
  objs :: "nat \<Rightarrow> any_region option"
  next_obj :: nat
  ida :: "int list"
  devs :: "nat list"
  pool :: "'k ubmempool"
  pre :: "'w pre_state"

record ('k, 'w) obmm_env =
  cfg :: mm_config
  exp_e :: "'k exp_env"
  pre_e :: "'w pre_env"
  cache_e :: "'w cache_env"
  drain_state :: "u32 \<Rightarrow> nat \<Rightarrow> bool"
  drain_expired :: "nat \<Rightarrow> bool"
  user_data :: "u64 \<Rightarrow> nat \<Rightarrow> 'w \<Rightarrow> u8 list option"
  dev_set_name :: "'w \<Rightarrow> int \<times> 'w"
  cdev_device_add :: "'w \<Rightarrow> int \<times> 'w"
  device_held :: "nat \<Rightarrow> 'w \<Rightarrow> bool"
  released_at :: "nat \<Rightarrow> nat \<Rightarrow> bool"

abbreviation kw :: "('k, 'w) obmm_state \<Rightarrow> 'w" where "kw st \<equiv> kworld (pre st)"

definition set_kw :: "'w \<Rightarrow> ('k, 'w) obmm_state \<Rightarrow> ('k, 'w) obmm_state" where
  "set_kw w st = st\<lparr>pre := (pre st)\<lparr>kworld := w\<rparr>\<rparr>"

definition add_module_refs :: "int \<Rightarrow> ('k, 'w) obmm_state \<Rightarrow> ('k, 'w) obmm_state" where
  "add_module_refs n st = st\<lparr>pre := (pre st)\<lparr>module_refs := module_refs (pre st) + n\<rparr>\<rparr>"

definition reg_at :: "('k, 'w) obmm_state \<Rightarrow> nat \<Rightarrow> obmm_region" where
  "reg_at st h = region_of (the (objs st h))"

definition upd_reg :: "nat \<Rightarrow> (obmm_region \<Rightarrow> obmm_region) \<Rightarrow> ('k, 'w) obmm_state \<Rightarrow> ('k, 'w) obmm_state" where
  "upd_reg h f st = st\<lparr>objs := (objs st)(h := map_option (map_region f) (objs st h))\<rparr>"

section \<open>References\<close>

definition try_get_obmm_region :: "nat option \<Rightarrow> ('k, 'w) obmm_state \<Rightarrow> nat option \<times> ('k, 'w) obmm_state" where
  "try_get_obmm_region region st =
     (case region of
        None \<Rightarrow> (None, st)
      | Some h \<Rightarrow> if refcnt (reg_at st h) \<noteq> 0 then (Some h, upd_reg h (\<lambda>r. r\<lparr>refcnt := refcnt r + 1\<rparr>) st)
                 else (None, st))"

definition put_obmm_region :: "nat option \<Rightarrow> ('k, 'w) obmm_state \<Rightarrow> ('k, 'w) obmm_state" where
  "put_obmm_region region st =
     (case region of None \<Rightarrow> st | Some h \<Rightarrow> upd_reg h (\<lambda>r. r\<lparr>refcnt := refcnt r - 1\<rparr>) st)"

definition activate_obmm_region :: "nat \<Rightarrow> ('k, 'w) obmm_state \<Rightarrow> ('k, 'w) obmm_state" where
  "activate_obmm_region h st = upd_reg h (\<lambda>r. r\<lparr>refcnt := 1\<rparr>) st"

definition disable_obmm_region_get :: "nat \<Rightarrow> ('k, 'w) obmm_state \<Rightarrow> bool \<times> ('k, 'w) obmm_state" where
  "disable_obmm_region_get h st =
     (if refcnt (reg_at st h) = 1 then (True, upd_reg h (\<lambda>r. r\<lparr>refcnt := 0\<rparr>) st) else (False, st))"

definition search_obmm_region :: "int \<Rightarrow> ('k, 'w) obmm_state \<Rightarrow> nat option" where
  "search_obmm_region rid st = find (\<lambda>h. regionid (reg_at st h) = rid) (regions st)"

definition search_get_obmm_region :: "int \<Rightarrow> ('k, 'w) obmm_state \<Rightarrow> nat option \<times> ('k, 'w) obmm_state" where
  "search_get_obmm_region rid st = try_get_obmm_region (search_obmm_region rid st) st"

definition search_deactivate_obmm_region :: "int \<Rightarrow> ('k, 'w) obmm_state \<Rightarrow> (int + nat) \<times> ('k, 'w) obmm_state" where
  "search_deactivate_obmm_region rid st =
     (case search_obmm_region rid st of
        None \<Rightarrow> (Inl (- ENOENT), st)
      | Some h \<Rightarrow> let (success, st1) = disable_obmm_region_get h st
                 in if \<not> success then (Inl (- EBUSY), st1) else (Inr h, st1))"

definition validate_obmm_mem_id :: "u64 \<Rightarrow> bool" where
  "validate_obmm_mem_id mem_id \<longleftrightarrow> uint mem_id \<ge> OBMM_MIN_VALID_REGIONID \<and> uint mem_id \<le> OBMM_MAX_VALID_REGIONID"

definition insert_obmm_region :: "nat \<Rightarrow> ('k, 'w) obmm_state \<Rightarrow> int \<times> ('k, 'w) obmm_state" where
  "insert_obmm_region h st =
     (case search_obmm_region (regionid (reg_at st h)) st of
        Some _ \<Rightarrow> (- EEXIST, st)
      | None \<Rightarrow> (0, st\<lparr>regions := h # regions st\<rparr>))"

definition remove_obmm_region :: "nat \<Rightarrow> ('k, 'w) obmm_state \<Rightarrow> ('k, 'w) obmm_state" where
  "remove_obmm_region h st = st\<lparr>regions := remove1 h (regions st)\<rparr>"

section \<open>Devices\<close>

definition obmm_shm_dev_release :: "nat \<Rightarrow> ('k, 'w) obmm_state \<Rightarrow> ('k, 'w) obmm_state" where
  "obmm_shm_dev_release h st = add_module_refs (- 1) (upd_reg h (\<lambda>r. r\<lparr>device_released := 1\<rparr>) st)"

text \<open>The wait polls; \<open>released i\<close> is what the \<open>i\<close>-th read sees.\<close>

partial_function (option) poll_released :: "(nat \<Rightarrow> bool) \<Rightarrow> nat \<Rightarrow> unit option" where
  "poll_released released i = (if released i then Some () else poll_released released (Suc i))"

definition wait_until_dev_released :: "('k, 'w) obmm_env \<Rightarrow> nat \<Rightarrow> ('k, 'w) obmm_state \<Rightarrow> ('k, 'w) obmm_state option" where
  "wait_until_dev_released env h st =
     (if device_released (reg_at st h) \<noteq> 0 then Some st
      else map_option (\<lambda>_. obmm_shm_dev_release h st) (poll_released (released_at env h) 0))"

definition obmm_shm_dev_add :: "('k, 'w) obmm_env \<Rightarrow> nat \<Rightarrow> ('k, 'w) obmm_state \<Rightarrow> int \<times> ('k, 'w) obmm_state" where
  "obmm_shm_dev_add env h st =
     (if \<not> try_module_get (pre_e env) (kw st) then (- EPERM, st)
      else
        let st1 = upd_reg h (\<lambda>r. r\<lparr>mmap_count := 0, mmap_mode := OBMM_MMAP_INIT\<rparr>) (add_module_refs 1 st);
            (ret, w) = dev_set_name env (kw st1); st2 = set_kw w st1
        in if ret \<noteq> 0 then (ret, obmm_shm_dev_release h st2)
           else let (ret1, w1) = cdev_device_add env (kw st2); st3 = set_kw w1 st2
                in if ret1 \<noteq> 0 then (ret1, obmm_shm_dev_release h st3)
                   else (0, upd_reg h (\<lambda>r. r\<lparr>device_released := 0\<rparr>) (st3\<lparr>devs := h # devs st3\<rparr>)))"

text \<open>Deleting a device drops the driver's reference; the release callback runs with the last one.\<close>

definition obmm_shm_dev_del :: "('k, 'w) obmm_env \<Rightarrow> nat \<Rightarrow> ('k, 'w) obmm_state \<Rightarrow> ('k, 'w) obmm_state" where
  "obmm_shm_dev_del env h st =
     (let st1 = st\<lparr>devs := remove1 h (devs st)\<rparr>
      in if device_held env h (kw st1) then st1 else obmm_shm_dev_release h st1)"

section \<open>Creation and destruction\<close>

text \<open>The kernel's allocator of numbers gives out the smallest free one in the range.\<close>

fun lowest_free :: "nat \<Rightarrow> int \<Rightarrow> int list \<Rightarrow> int" where
  "lowest_free 0 i used = i"
| "lowest_free (Suc n) i used = (if i \<in> set used then lowest_free n (i + 1) used else i)"

definition ida_alloc_range :: "bool \<Rightarrow> int \<Rightarrow> int \<Rightarrow> int list \<Rightarrow> int \<times> int list" where
  "ida_alloc_range okay lo hi used =
     (let i = lowest_free (length used) lo used
      in if \<not> okay then (- ENOMEM, used)
         else if i > hi then (- ENOSPC, used)
         else (i, i # used))"

definition init_obmm_region :: "('k, 'w) obmm_env \<Rightarrow> nat \<Rightarrow> ('k, 'w) obmm_state \<Rightarrow> int \<times> ('k, 'w) obmm_state" where
  "init_obmm_region env h st =
     (let st1 = upd_reg h (\<lambda>r. r\<lparr>refcnt := 0\<rparr>) st;
          (okay, w) = alloc_ok (pre_e env) (kw st1);
          (retval, used) = ida_alloc_range okay OBMM_MIN_VALID_REGIONID OBMM_MAX_VALID_REGIONID (ida st1);
          st2 = (set_kw w st1)\<lparr>ida := used\<rparr>
      in if retval < 0 then (retval, st2)
         else (0, upd_reg h (\<lambda>r. r\<lparr>regionid := retval\<rparr>) st2))"

definition uninit_obmm_region :: "nat \<Rightarrow> ('k, 'w) obmm_state \<Rightarrow> ('k, 'w) obmm_state" where
  "uninit_obmm_region h st =
     (let st1 = (if ownership_info (reg_at st h) \<noteq> None then upd_reg h release_ownership_info st else st)
      in st1\<lparr>ida := remove1 (regionid (reg_at st1 h)) (ida st1)\<rparr>)"

definition register_obmm_region :: "('k, 'w) obmm_env \<Rightarrow> nat \<Rightarrow> ('k, 'w) obmm_state \<Rightarrow> int \<times> ('k, 'w) obmm_state" where
  "register_obmm_region env h st =
     (let (retval, st1) = obmm_shm_dev_add env h st
      in if retval \<noteq> 0 then (retval, st1)
         else let (retval1, st2) = insert_obmm_region h st1
              in if retval1 < 0 then (retval1, obmm_shm_dev_del env h st2) else (0, st2))"

definition deregister_obmm_region :: "('k, 'w) obmm_env \<Rightarrow> nat \<Rightarrow> ('k, 'w) obmm_state \<Rightarrow> ('k, 'w) obmm_state" where
  "deregister_obmm_region env h st = obmm_shm_dev_del env h (remove_obmm_region h st)"

text \<open>A zeroed object is taken from the allocator, and given back.\<close>

definition kzalloc_region :: "any_region \<Rightarrow> ('k, 'w) obmm_state \<Rightarrow> nat \<times> ('k, 'w) obmm_state" where
  "kzalloc_region r st = (next_obj st, st\<lparr>objs := (objs st)(next_obj st \<mapsto> r), next_obj := Suc (next_obj st)\<rparr>)"

definition kfree_region :: "nat \<Rightarrow> ('k, 'w) obmm_state \<Rightarrow> ('k, 'w) obmm_state" where
  "kfree_region h st = st\<lparr>objs := (objs st)(h := None)\<rparr>"

section \<open>Interleaved use of regions\<close>

text \<open>The steps by which threads create, use and destroy regions, each atomic in the code: it runs under
  the lock of the list, is one atomic operation on the counter, or touches only a region that the
  thread owns.  \<open>users\<close> lists the references that are held (one per open file and per query in
  progress), \<open>owners\<close> the regions that a thread is creating or destroying, \<open>dying\<close> those that have given
  up their number and wait for their device.\<close>

record ('k, 'w) reg_sys =
  rst :: "('k, 'w) obmm_state"
  users :: "nat list"
  owners :: "nat list"
  dying :: "nat list"

text \<open>A thread may do anything to the other fields of a region that it owns, and every thread to the state
  outside the regions.\<close>

definition own_work :: "nat \<Rightarrow> ('k, 'w) obmm_state \<Rightarrow> ('k, 'w) obmm_state \<Rightarrow> bool" where
  "own_work h st st' \<longleftrightarrow> regions st' = regions st \<and> devs st' = devs st \<and> ida st' = ida st \<and> next_obj st' = next_obj st
     \<and> (\<forall>x. x \<noteq> h \<longrightarrow> objs st' x = objs st x) \<and> (objs st' h = None) = (objs st h = None)
     \<and> (objs st h \<noteq> None \<longrightarrow> refcnt (reg_at st' h) = refcnt (reg_at st h) \<and> regionid (reg_at st' h) = regionid (reg_at st h)
          \<and> device_released (reg_at st' h) = device_released (reg_at st h))"

definition outside_work :: "('k, 'w) obmm_state \<Rightarrow> ('k, 'w) obmm_state \<Rightarrow> bool" where
  "outside_work st st' \<longleftrightarrow> regions st' = regions st \<and> devs st' = devs st \<and> ida st' = ida st \<and> objs st' = objs st
     \<and> next_obj st \<le> next_obj st'"

inductive reg_step :: "('k, 'w) obmm_env \<Rightarrow> ('k, 'w) reg_sys \<Rightarrow> ('k, 'w) reg_sys \<Rightarrow> bool" for env where
  create: "kzalloc_region r (rst s) = (h, st1) \<Longrightarrow> device_released (region_of r) = 1 \<Longrightarrow> init_obmm_region env h st1 = (0, st2)
    \<Longrightarrow> reg_step env s (s\<lparr>rst := st2, owners := h # owners s\<rparr>)"
| create_fail: "kzalloc_region r (rst s) = (h, st1) \<Longrightarrow> init_obmm_region env h st1 = (ret, st2) \<Longrightarrow> ret \<noteq> 0
    \<Longrightarrow> reg_step env s (s\<lparr>rst := kfree_region h st2\<rparr>)"
| register: "h \<in> set (owners s) \<Longrightarrow> h \<notin> set (regions (rst s)) \<Longrightarrow> device_released (reg_at (rst s) h) \<noteq> 0
    \<Longrightarrow> register_obmm_region env h (rst s) = (ret, st1) \<Longrightarrow> reg_step env s (s\<lparr>rst := st1\<rparr>)"
| activate: "h \<in> set (owners s) \<Longrightarrow> h \<in> set (regions (rst s))
    \<Longrightarrow> reg_step env s (s\<lparr>rst := activate_obmm_region h (rst s), owners := remove1 h (owners s)\<rparr>)"
| work: "h \<in> set (owners s) \<Longrightarrow> own_work h (rst s) st1 \<Longrightarrow> reg_step env s (s\<lparr>rst := st1\<rparr>)"
| outside: "outside_work (rst s) st1 \<Longrightarrow> reg_step env s (s\<lparr>rst := st1\<rparr>)"
| search_get: "search_get_obmm_region rid (rst s) = (Some h, st1) \<Longrightarrow> reg_step env s (s\<lparr>rst := st1, users := h # users s\<rparr>)"
| open_dev: "h \<in> set (devs (rst s)) \<Longrightarrow> try_get_obmm_region (Some h) (rst s) = (Some h, st1)
    \<Longrightarrow> reg_step env s (s\<lparr>rst := st1, users := h # users s\<rparr>)"
| put: "h \<in> set (users s)
    \<Longrightarrow> reg_step env s (s\<lparr>rst := put_obmm_region (Some h) (rst s), users := remove1 h (users s)\<rparr>)"
| deactivate: "search_deactivate_obmm_region rid (rst s) = (Inr h, st1)
    \<Longrightarrow> reg_step env s (s\<lparr>rst := st1, owners := h # owners s\<rparr>)"
| deregister: "h \<in> set (owners s) \<Longrightarrow> h \<in> set (regions (rst s))
    \<Longrightarrow> reg_step env s (s\<lparr>rst := deregister_obmm_region env h (rst s)\<rparr>)"
| release_dev: "h \<notin> set (devs (rst s)) \<Longrightarrow> objs (rst s) h \<noteq> None \<Longrightarrow> device_released (reg_at (rst s) h) = 0
    \<Longrightarrow> reg_step env s (s\<lparr>rst := obmm_shm_dev_release h (rst s)\<rparr>)"
| uninit: "h \<in> set (owners s) \<Longrightarrow> h \<notin> set (regions (rst s))
    \<Longrightarrow> reg_step env s (s\<lparr>rst := uninit_obmm_region h (rst s), owners := remove1 h (owners s), dying := h # dying s\<rparr>)"
| destroy: "h \<in> set (dying s) \<Longrightarrow> device_released (reg_at (rst s) h) \<noteq> 0
    \<Longrightarrow> reg_step env s (s\<lparr>rst := kfree_region h (rst s), dying := remove1 h (dying s)\<rparr>)"

definition reg_start :: "'k ubmempool \<Rightarrow> 'w pre_state \<Rightarrow> ('k, 'w) reg_sys" where
  "reg_start p w = \<lparr>rst = \<lparr>regions = [], objs = (\<lambda>_. None), next_obj = 0, ida = [], devs = [], pool = p, pre = w\<rparr>,
     users = [], owners = [], dying = []\<rparr>"

inductive reg_reachable :: "('k, 'w) obmm_env \<Rightarrow> ('k, 'w) reg_sys \<Rightarrow> bool" for env where
  start: "reg_reachable env (reg_start p w)"
| step: "reg_reachable env s \<Longrightarrow> reg_step env s s' \<Longrightarrow> reg_reachable env s'"

section \<open>Invariant\<close>

definition live :: "('k, 'w) obmm_state \<Rightarrow> nat \<Rightarrow> bool" where
  "live st h \<longleftrightarrow> objs st h \<noteq> None"

text \<open>Every list refers to existing regions only, and a region that nobody creates or destroys is
  published.\<close>

definition lists_inv :: "('k, 'w) reg_sys \<Rightarrow> bool" where
  "lists_inv s \<longleftrightarrow> (\<forall>h \<in> set (regions (rst s)) \<union> set (users s) \<union> set (owners s) \<union> set (dying s). live (rst s) h)
     \<and> distinct (regions (rst s)) \<and> distinct (devs (rst s)) \<and> distinct (owners s) \<and> distinct (dying s)
     \<and> set (devs (rst s)) \<subseteq> set (regions (rst s))
     \<and> set (owners s) \<inter> set (dying s) = {} \<and> set (dying s) \<inter> set (regions (rst s)) = {}
     \<and> (\<forall>h. live (rst s) h \<longrightarrow> h < next_obj (rst s))
     \<and> (\<forall>h. live (rst s) h \<longrightarrow> h \<notin> set (owners s) \<union> set (dying s) \<longrightarrow> h \<in> set (regions (rst s)))"

text \<open>The counter is 0 during creation and destruction and else one more than the number of users.\<close>

definition count_inv :: "('k, 'w) reg_sys \<Rightarrow> bool" where
  "count_inv s \<longleftrightarrow> (\<forall>h. live (rst s) h \<longrightarrow>
     (if h \<in> set (owners s) \<union> set (dying s) then refcnt (reg_at (rst s) h) = 0 \<and> h \<notin> set (users s)
      else refcnt (reg_at (rst s) h) = 1 + int (count_list (users s) h)))"

text \<open>The numbers in use are those of the regions that are not dying, each used once.\<close>

definition ids_inv :: "('k, 'w) reg_sys \<Rightarrow> bool" where
  "ids_inv s \<longleftrightarrow> distinct (ida (rst s))
     \<and> (\<forall>h. live (rst s) h \<longrightarrow> h \<notin> set (dying s) \<longrightarrow> regionid (reg_at (rst s) h) \<in> set (ida (rst s)))
     \<and> (\<forall>h h'. live (rst s) h \<longrightarrow> live (rst s) h' \<longrightarrow> h \<notin> set (dying s) \<longrightarrow> h' \<notin> set (dying s)
          \<longrightarrow> regionid (reg_at (rst s) h) = regionid (reg_at (rst s) h') \<longrightarrow> h = h')
     \<and> (\<forall>i \<in> set (ida (rst s)). OBMM_MIN_VALID_REGIONID \<le> i \<and> i \<le> OBMM_MAX_VALID_REGIONID)"

definition region_inv :: "('k, 'w) reg_sys \<Rightarrow> bool" where
  "region_inv s \<longleftrightarrow> lists_inv s \<and> count_inv s \<and> ids_inv s"

text \<open>What the invariant sees of a state.\<close>

definition same_lists :: "('k, 'w) obmm_state \<Rightarrow> ('k, 'w) obmm_state \<Rightarrow> bool" where
  "same_lists st st' \<longleftrightarrow> regions st' = regions st \<and> next_obj st \<le> next_obj st' \<and> ida st' = ida st
     \<and> live st' = live st
     \<and> (\<forall>x. live st x \<longrightarrow> refcnt (reg_at st' x) = refcnt (reg_at st x) \<and> regionid (reg_at st' x) = regionid (reg_at st x))"

definition demo_obmm_env :: "(u64 list \<times> u64 list, unit) obmm_env" where
  "demo_obmm_env = \<lparr>cfg = demo_cfg, exp_e = demo_exp_env, pre_e = demo_pre_env,
     cache_e = \<lparr>skip_cache_maintain = False, hisi_soc_cache_maintain = (\<lambda>x sz ty w. (0, w))\<rparr>,
     drain_state = (\<lambda>s i. True), drain_expired = (\<lambda>i. True), user_data = (\<lambda>p n w. Some (replicate n 0)),
     dev_set_name = (\<lambda>w. (0, w)), cdev_device_add = (\<lambda>w. (0, w)), device_held = (\<lambda>h w. False), released_at = (\<lambda>h i. True)\<rparr>"

definition demo_new_region :: any_region where
  "demo_new_region = Export (zeroed_e_reg\<lparr>e_region := zeroed_region\<lparr>device_released := 1, mem_size := 0x200000\<rparr>\<rparr>)"

text \<open>A region is created, registered, activated and looked up.\<close>

definition demo_created :: "(u64 list \<times> u64 list, unit) obmm_state" where
  "demo_created = snd (init_obmm_region demo_obmm_env 0
     (snd (kzalloc_region demo_new_region (rst (reg_start demo_mempool (sys_st (pre_start ())))))))"

definition demo_registered :: "(u64 list \<times> u64 list, unit) obmm_state" where
  "demo_registered = snd (register_obmm_region demo_obmm_env 0 demo_created)"

definition demo_used :: "(u64 list \<times> u64 list, unit) reg_sys" where
  "demo_used = \<lparr>rst = snd (search_get_obmm_region 1 (activate_obmm_region 0 demo_registered)), users = [0], owners = [], dying = []\<rparr>"

section \<open>The store\<close>

lemma region_of_map [simp]: "region_of (map_region f r) = f (region_of r)"
  by (cases r) simp_all

lemma live_upd [simp]: "live (upd_reg h f st) x = live st x"
  by (simp add: live_def upd_reg_def)

lemma reg_at_upd: "reg_at (upd_reg h f st) x = (if x = h \<and> live st h then f (reg_at st h) else reg_at st x)"
  by (auto simp: live_def reg_at_def upd_reg_def)

lemma upd_reg_fields [simp]: "regions (upd_reg h f st) = regions st" "next_obj (upd_reg h f st) = next_obj st"
  "ida (upd_reg h f st) = ida st" "devs (upd_reg h f st) = devs st"
  by (simp_all add: upd_reg_def)

lemma kw_fields [simp]: "regions (set_kw w st) = regions st" "next_obj (set_kw w st) = next_obj st"
  "ida (set_kw w st) = ida st" "devs (set_kw w st) = devs st" "live (set_kw w st) = live st" "reg_at (set_kw w st) = reg_at st"
  by (simp_all add: set_kw_def live_def reg_at_def fun_eq_iff)

lemma mod_fields [simp]: "regions (add_module_refs n st) = regions st" "next_obj (add_module_refs n st) = next_obj st"
  "ida (add_module_refs n st) = ida st" "devs (add_module_refs n st) = devs st"
  "live (add_module_refs n st) = live st" "reg_at (add_module_refs n st) = reg_at st"
  by (simp_all add: add_module_refs_def live_def reg_at_def fun_eq_iff)

lemma state_upd_views [simp]:
  "live (st\<lparr>regions := a\<rparr>) = live st" "reg_at (st\<lparr>regions := a\<rparr>) = reg_at st"
  "live (st\<lparr>devs := b\<rparr>) = live st" "reg_at (st\<lparr>devs := b\<rparr>) = reg_at st"
  "live (st\<lparr>ida := c\<rparr>) = live st" "reg_at (st\<lparr>ida := c\<rparr>) = reg_at st"
  by (simp_all add: live_def reg_at_def fun_eq_iff)

lemma same_lists_upd:
  assumes "\<And>r. refcnt (f r) = refcnt r" and "\<And>r. regionid (f r) = regionid r"
  shows "same_lists st (upd_reg h f st)"
  using assms by (auto simp: same_lists_def reg_at_upd fun_eq_iff)

lemma same_lists_refl [simp]: "same_lists st st"
  by (simp add: same_lists_def)

lemma same_lists_trans: "same_lists st st1 \<Longrightarrow> same_lists st1 st2 \<Longrightarrow> same_lists st st2"
  by (auto simp: same_lists_def)

lemma same_lists_misc [simp]: "same_lists st (set_kw w st1) = same_lists st st1"
  "same_lists st (add_module_refs n st1) = same_lists st st1" "same_lists st (st1\<lparr>devs := d\<rparr>) = same_lists st st1"
  by (simp_all add: same_lists_def)

text \<open>The invariant depends on a state only through the lists, the counters and the numbers.\<close>

lemma same_lists_inv:
  assumes "region_inv s" and "same_lists (rst s) st'" and "set (devs st') \<subseteq> set (regions st')" and "distinct (devs st')"
  shows "region_inv (s\<lparr>rst := st'\<rparr>)"
proof -
  have e: "regions st' = regions (rst s)" "ida st' = ida (rst s)" "live st' = live (rst s)"
    and r: "\<And>x. live (rst s) x \<Longrightarrow> refcnt (reg_at st' x) = refcnt (reg_at (rst s) x)"
      "\<And>x. live (rst s) x \<Longrightarrow> regionid (reg_at st' x) = regionid (reg_at (rst s) x)"
    using assms(2) by (auto simp: same_lists_def)
  have n: "next_obj (rst s) \<le> next_obj st'" using assms(2) by (simp add: same_lists_def)
  have "lists_inv (s\<lparr>rst := st'\<rparr>)" using assms(1,3,4) by (auto simp: region_inv_def lists_inv_def e intro: less_le_trans [OF _ n])
  moreover have "count_inv (s\<lparr>rst := st'\<rparr>)" using assms(1) by (simp add: region_inv_def count_inv_def e r)
  moreover have "ids_inv (s\<lparr>rst := st'\<rparr>)" using assms(1) by (simp add: region_inv_def ids_inv_def e r)
  ultimately show ?thesis by (simp add: region_inv_def)
qed

lemma lowest_free_mem: "lowest_free n i used \<in> set used \<Longrightarrow> {i..i + int n} \<subseteq> set used"
proof (induction n arbitrary: i)
  case (Suc n)
  have "i \<in> set used" using Suc.prems by (simp split: if_splits)
  moreover have "{i + 1..i + 1 + int n} \<subseteq> set used" using Suc by (simp split: if_splits)
  moreover have "{i..i + int (Suc n)} = insert i {i + 1..i + 1 + int n}" by auto
  ultimately show ?case by simp
qed simp

lemma lowest_free_fresh: "lowest_free (length used) i used \<notin> set used"
proof
  assume "lowest_free (length used) i used \<in> set used"
  then have "card {i..i + int (length used)} \<le> card (set used)" by (intro card_mono lowest_free_mem) simp_all
  then show False using card_length [of used] by simp
qed

lemma lowest_free_ge: "i \<le> lowest_free n i used"
proof (induction n arbitrary: i)
  case (Suc n)
  from Suc [of "i + 1"] show ?case by simp
qed simp

section \<open>Every step keeps the invariant\<close>

lemma lists_invD:
  assumes "lists_inv s"
  shows "h \<in> set (regions (rst s)) \<Longrightarrow> live (rst s) h" "h \<in> set (users s) \<Longrightarrow> live (rst s) h"
    "h \<in> set (owners s) \<Longrightarrow> live (rst s) h" "h \<in> set (dying s) \<Longrightarrow> live (rst s) h"
    "set (devs (rst s)) \<subseteq> set (regions (rst s))" "distinct (devs (rst s))" "distinct (regions (rst s))"
    "distinct (owners s)" "distinct (dying s)" "set (owners s) \<inter> set (dying s) = {}" "set (dying s) \<inter> set (regions (rst s)) = {}"
    "live (rst s) h \<Longrightarrow> h < next_obj (rst s)"
    "live (rst s) h \<Longrightarrow> h \<notin> set (owners s) \<Longrightarrow> h \<notin> set (dying s) \<Longrightarrow> h \<in> set (regions (rst s))"
  using assms by (auto simp: lists_inv_def)

lemma count_invD:
  assumes "count_inv s" "live (rst s) h"
  shows "h \<in> set (owners s) \<union> set (dying s) \<Longrightarrow> refcnt (reg_at (rst s) h) = 0"
    "h \<in> set (owners s) \<union> set (dying s) \<Longrightarrow> h \<notin> set (users s)"
    "h \<notin> set (owners s) \<Longrightarrow> h \<notin> set (dying s) \<Longrightarrow> refcnt (reg_at (rst s) h) = 1 + int (count_list (users s) h)"
    "refcnt (reg_at (rst s) h) \<noteq> 0 \<Longrightarrow> h \<notin> set (owners s) \<and> h \<notin> set (dying s)"
  using assms by (auto simp: count_inv_def)

lemma search_found:
  assumes "search_obmm_region rid st = Some h"
  shows "h \<in> set (regions st)" "regionid (reg_at st h) = rid"
  using assms by (auto simp: search_obmm_region_def find_Some_iff)

text \<open>A change of one counter.\<close>

lemma refcnt_change_inv:
  assumes inv: "region_inv s" and h: "h \<in> set (regions (rst s))"
    and lists: "lists_inv (s\<lparr>users := us, owners := os\<rparr>)"
    and others: "\<And>x. x \<noteq> h \<Longrightarrow> (x \<in> set os) = (x \<in> set (owners s)) \<and> count_list us x = count_list (users s) x
                    \<and> (x \<in> set us) = (x \<in> set (users s))"
    and this_one: "if h \<in> set os then n = 0 \<and> h \<notin> set us else n = 1 + int (count_list us h)"
  shows "region_inv (s\<lparr>rst := upd_reg h (\<lambda>r. r\<lparr>refcnt := n\<rparr>) (rst s), users := us, owners := os\<rparr>)"
proof -
  have l: "live (rst s) h" using inv h by (auto simp: region_inv_def dest: lists_invD)
  have d: "h \<notin> set (dying s)" using inv h lists_invD(11) [of s] by (auto simp: region_inv_def)
  have "lists_inv (s\<lparr>rst := upd_reg h (\<lambda>r. r\<lparr>refcnt := n\<rparr>) (rst s), users := us, owners := os\<rparr>)"
    using lists by (simp add: lists_inv_def)
  moreover have "count_inv (s\<lparr>rst := upd_reg h (\<lambda>r. r\<lparr>refcnt := n\<rparr>) (rst s), users := us, owners := os\<rparr>)"
  proof -
    have "if x \<in> set os \<union> set (dying s) then refcnt (reg_at (upd_reg h (\<lambda>r. r\<lparr>refcnt := n\<rparr>) (rst s)) x) = 0 \<and> x \<notin> set us
       else refcnt (reg_at (upd_reg h (\<lambda>r. r\<lparr>refcnt := n\<rparr>) (rst s)) x) = 1 + int (count_list us x)"
      if x: "live (rst s) x" for x
    proof (cases "x = h")
      case True
      then show ?thesis using this_one l d by (simp add: reg_at_upd)
    next
      case False
      have "if x \<in> set (owners s) \<union> set (dying s) then refcnt (reg_at (rst s) x) = 0 \<and> x \<notin> set (users s)
         else refcnt (reg_at (rst s) x) = 1 + int (count_list (users s) x)"
        using inv x by (simp add: region_inv_def count_inv_def)
      then show ?thesis using False others [of x] by (simp add: reg_at_upd)
    qed
    then show ?thesis by (simp add: count_inv_def)
  qed
  moreover have "ids_inv (s\<lparr>rst := upd_reg h (\<lambda>r. r\<lparr>refcnt := n\<rparr>) (rst s), users := us, owners := os\<rparr>)"
  proof -
    have "regionid (reg_at (upd_reg h (\<lambda>r. r\<lparr>refcnt := n\<rparr>) (rst s)) x) = regionid (reg_at (rst s) x)" for x
      by (simp add: reg_at_upd)
    then show ?thesis using inv by (simp add: region_inv_def ids_inv_def)
  qed
  ultimately show ?thesis by (simp add: region_inv_def)
qed

lemma upd_reg_const:
  assumes "refcnt (reg_at st h) = m"
  shows "upd_reg h (\<lambda>r. r\<lparr>refcnt := g (refcnt r)\<rparr>) st = upd_reg h (\<lambda>r. r\<lparr>refcnt := g m\<rparr>) st"
proof (cases "objs st h")
  case (Some r)
  then show ?thesis using assms by (cases r) (simp_all add: upd_reg_def reg_at_def)
qed (simp add: upd_reg_def)

lemma get_inv:
  assumes inv: "region_inv s" and h: "h \<in> set (regions (rst s))" and g: "try_get_obmm_region (Some h) (rst s) = (Some h, st1)"
  shows "region_inv (s\<lparr>rst := st1, users := h # users s\<rparr>)"
proof -
  let ?n = "refcnt (reg_at (rst s) h)"
  have l: "live (rst s) h" and li: "lists_inv s" and ci: "count_inv s" using inv h by (auto simp: region_inv_def dest: lists_invD)
  have nz: "?n \<noteq> 0" and st1: "st1 = upd_reg h (\<lambda>r. r\<lparr>refcnt := ?n + 1\<rparr>) (rst s)"
    using g upd_reg_const [of "rst s" h ?n "\<lambda>n. n + 1"] by (auto simp: try_get_obmm_region_def split: if_splits)
  have no: "h \<notin> set (owners s)" "h \<notin> set (dying s)" using count_invD(4) [OF ci l nz] by auto
  have n: "?n = 1 + int (count_list (users s) h)" by (rule count_invD(3) [OF ci l no])
  have "region_inv (s\<lparr>rst := upd_reg h (\<lambda>r. r\<lparr>refcnt := ?n + 1\<rparr>) (rst s), users := h # users s, owners := owners s\<rparr>)"
    by (rule refcnt_change_inv [OF inv h]) (use li l no n in \<open>auto simp: lists_inv_def\<close>)
  then show ?thesis using st1 by simp
qed

lemma put_inv:
  assumes inv: "region_inv s" and h: "h \<in> set (users s)"
  shows "region_inv (s\<lparr>rst := put_obmm_region (Some h) (rst s), users := remove1 h (users s)\<rparr>)"
proof -
  let ?n = "refcnt (reg_at (rst s) h)"
  have li: "lists_inv s" and ci: "count_inv s" using inv by (auto simp: region_inv_def)
  have l: "live (rst s) h" by (rule lists_invD(2) [OF li h])
  have no: "h \<notin> set (owners s)" "h \<notin> set (dying s)" using count_invD(2) [OF ci l] h by auto
  have r: "h \<in> set (regions (rst s))" by (rule lists_invD(13) [OF li l no])
  have n: "?n = 1 + int (count_list (users s) h)" by (rule count_invD(3) [OF ci l no])
  have st1: "put_obmm_region (Some h) (rst s) = upd_reg h (\<lambda>r. r\<lparr>refcnt := ?n - 1\<rparr>) (rst s)"
    using upd_reg_const [of "rst s" h ?n "\<lambda>n. n - 1"] by (simp add: put_obmm_region_def)
  have c: "count_list (remove1 h (users s)) h = count_list (users s) h - 1" "0 < count_list (users s) h"
    using h by (simp_all add: count_list_0_iff neq0_conv [symmetric] del: neq0_conv)
  have o: "count_list (remove1 h (users s)) x = count_list (users s) x \<and> (x \<in> set (remove1 h (users s))) = (x \<in> set (users s))" if "x \<noteq> h" for x
    using that by simp
  have "lists_inv (s\<lparr>users := remove1 h (users s), owners := owners s\<rparr>)"
    using li set_remove1_subset [of h "users s"] by (auto simp: lists_inv_def)
  then have "region_inv (s\<lparr>rst := upd_reg h (\<lambda>r. r\<lparr>refcnt := ?n - 1\<rparr>) (rst s), users := remove1 h (users s), owners := owners s\<rparr>)"
    by (rule refcnt_change_inv [OF inv r]) (use o no n c in auto)
  then show ?thesis using st1 by simp
qed

lemma activate_inv:
  assumes inv: "region_inv s" and h: "h \<in> set (owners s)" and r: "h \<in> set (regions (rst s))"
  shows "region_inv (s\<lparr>rst := activate_obmm_region h (rst s), owners := remove1 h (owners s)\<rparr>)"
proof -
  have li: "lists_inv s" and ci: "count_inv s" using inv by (auto simp: region_inv_def)
  have l: "live (rst s) h" by (rule lists_invD(1) [OF li r])
  have nu: "h \<notin> set (users s)" using count_invD(2) [OF ci l] h by simp
  have ow: "set (remove1 h (owners s)) = set (owners s) - {h}" using lists_invD(8) [OF li] by simp
  have "lists_inv (s\<lparr>users := users s, owners := remove1 h (owners s)\<rparr>)"
    using li r by (auto simp: lists_inv_def)
  then have "region_inv (s\<lparr>rst := upd_reg h (\<lambda>r. r\<lparr>refcnt := 1\<rparr>) (rst s), users := users s, owners := remove1 h (owners s)\<rparr>)"
    by (rule refcnt_change_inv [OF inv r]) (use nu ow in \<open>auto simp: count_notin\<close>)
  then show ?thesis by (simp add: activate_obmm_region_def)
qed

lemma deactivate_inv:
  assumes inv: "region_inv s" and d: "search_deactivate_obmm_region rid (rst s) = (Inr h, st1)"
  shows "region_inv (s\<lparr>rst := st1, owners := h # owners s\<rparr>)"
proof -
  have li: "lists_inv s" and ci: "count_inv s" using inv by (auto simp: region_inv_def)
  have f: "search_obmm_region rid (rst s) = Some h" and n: "refcnt (reg_at (rst s) h) = 1"
    and st1: "st1 = upd_reg h (\<lambda>r. r\<lparr>refcnt := 0\<rparr>) (rst s)"
    using d by (auto simp: search_deactivate_obmm_region_def disable_obmm_region_get_def split: option.splits if_splits prod.splits)
  have r: "h \<in> set (regions (rst s))" by (rule search_found(1) [OF f])
  have l: "live (rst s) h" by (rule lists_invD(1) [OF li r])
  have no: "h \<notin> set (owners s)" "h \<notin> set (dying s)" using count_invD(4) [OF ci l] n by auto
  have nu: "h \<notin> set (users s)" using count_invD(3) [OF ci l no] n by (simp add: count_list_0_iff)
  have "lists_inv (s\<lparr>users := users s, owners := h # owners s\<rparr>)"
    using li l no by (auto simp: lists_inv_def)
  then have "region_inv (s\<lparr>rst := upd_reg h (\<lambda>r. r\<lparr>refcnt := 0\<rparr>) (rst s), users := users s, owners := h # owners s\<rparr>)"
    by (rule refcnt_change_inv [OF inv r]) (use nu in auto)
  then show ?thesis using st1 by simp
qed

text \<open>Creation.\<close>

lemma init_region_views:
  assumes "kzalloc_region r st = (h, st1)" and "init_obmm_region env h st1 = (ret, st2)"
  shows "h = next_obj st" "regions st2 = regions st" "next_obj st2 = Suc (next_obj st)" "devs st2 = devs st"
    "live st2 x = (live st x \<or> x = h)" "x \<noteq> h \<Longrightarrow> reg_at st2 x = reg_at st x"
    "ret \<noteq> 0 \<Longrightarrow> ida st2 = ida st"
    "ret = 0 \<Longrightarrow> refcnt (reg_at st2 h) = 0 \<and> ida st2 = regionid (reg_at st2 h) # ida st
       \<and> regionid (reg_at st2 h) \<notin> set (ida st)
       \<and> OBMM_MIN_VALID_REGIONID \<le> regionid (reg_at st2 h) \<and> regionid (reg_at st2 h) \<le> OBMM_MAX_VALID_REGIONID"
proof -
  show h: "h = next_obj st" using assms(1) by (simp add: kzalloc_region_def)
  have v1: "regions st1 = regions st" "next_obj st1 = Suc (next_obj st)" "devs st1 = devs st" "ida st1 = ida st"
    "live st1 x = (live st x \<or> x = h)" "x \<noteq> h \<Longrightarrow> reg_at st1 x = reg_at st x" "live st1 h" for x
    using assms(1) by (auto simp: kzalloc_region_def live_def reg_at_def)
  obtain okay w where al: "alloc_ok (pre_e env) (kw (upd_reg h (\<lambda>r. r\<lparr>refcnt := 0\<rparr>) st1)) = (okay, w)" by fastforce
  obtain i used where ia: "ida_alloc_range okay OBMM_MIN_VALID_REGIONID OBMM_MAX_VALID_REGIONID (ida st1) = (i, used)" by fastforce
  let ?st = "(set_kw w (upd_reg h (\<lambda>r. r\<lparr>refcnt := 0\<rparr>) st1))\<lparr>ida := used\<rparr>"
  have c: "if i < 0 then ret = i \<and> st2 = ?st else ret = 0 \<and> st2 = upd_reg h (\<lambda>r. r\<lparr>regionid := i\<rparr>) ?st"
    using assms(2) al ia by (auto simp: init_obmm_region_def Let_def)
  note fresh = lowest_free_fresh [of "ida st1" 1] and ge = lowest_free_ge [of 1 "length (ida st1)" "ida st1"]
  show "regions st2 = regions st" "next_obj st2 = Suc (next_obj st)" "devs st2 = devs st" "live st2 x = (live st x \<or> x = h)"
    "x \<noteq> h \<Longrightarrow> reg_at st2 x = reg_at st x"
    using c v1 by (auto simp: reg_at_upd split: if_splits)
  show "ida st2 = ida st" if "ret \<noteq> 0"
    using c ia that v1(4) ge by (auto simp: ida_alloc_range_def Let_def split: if_splits)
  show "refcnt (reg_at st2 h) = 0 \<and> ida st2 = regionid (reg_at st2 h) # ida st \<and> regionid (reg_at st2 h) \<notin> set (ida st)
       \<and> OBMM_MIN_VALID_REGIONID \<le> regionid (reg_at st2 h) \<and> regionid (reg_at st2 h) \<le> OBMM_MAX_VALID_REGIONID" if "ret = 0"
  proof -
    have i: "0 \<le> i" and st2: "st2 = upd_reg h (\<lambda>r. r\<lparr>regionid := i\<rparr>) ?st" using c that by (auto split: if_splits)
    have "i = lowest_free (length (ida st1)) 1 (ida st1) \<and> used = i # ida st1 \<and> i \<le> OBMM_MAX_VALID_REGIONID"
      using ia i by (auto simp: ida_alloc_range_def Let_def split: if_splits)
    then show ?thesis using st2 v1(4,7) fresh ge by (simp add: reg_at_upd)
  qed
qed

lemma create_inv:
  assumes inv: "region_inv s" and k: "kzalloc_region r (rst s) = (h, st1)" and i: "init_obmm_region env h st1 = (0, st2)"
  shows "region_inv (s\<lparr>rst := st2, owners := h # owners s\<rparr>)"
proof -
  note v = init_region_views [OF k i]
  note new = v(8) [OF refl]
  have li: "lists_inv s" and ci: "count_inv s" and ii: "ids_inv s" using inv by (auto simp: region_inv_def)
  have nl: "\<not> live (rst s) h" using lists_invD(12) [OF li, of h] v(1) by auto
  then have no: "h \<notin> set (regions (rst s))" "h \<notin> set (users s)" "h \<notin> set (owners s)" "h \<notin> set (dying s)"
    using lists_invD(1-4) [OF li, of h] by auto
  have "lists_inv (s\<lparr>rst := st2, owners := h # owners s\<rparr>)"
    using li no v(1) by (auto simp: lists_inv_def v(2-5) less_Suc_eq)
  moreover have "count_inv (s\<lparr>rst := st2, owners := h # owners s\<rparr>)"
  proof -
    have "if x \<in> set (h # owners s) \<union> set (dying s) then refcnt (reg_at st2 x) = 0 \<and> x \<notin> set (users s)
       else refcnt (reg_at st2 x) = 1 + int (count_list (users s) x)" if "live st2 x" for x
    proof (cases "x = h")
      case True
      then show ?thesis using new no by simp
    next
      case False
      then have "live (rst s) x" using that v(5) by simp
      then show ?thesis using ci False v(6) [OF False] by (simp add: count_inv_def)
    qed
    then show ?thesis by (simp add: count_inv_def)
  qed
  moreover have "ids_inv (s\<lparr>rst := st2, owners := h # owners s\<rparr>)"
  proof -
    have old: "live (rst s) x \<Longrightarrow> x \<notin> set (dying s) \<Longrightarrow> regionid (reg_at st2 x) \<in> set (ida (rst s))" if "x \<noteq> h" for x
      using ii that v(6) [OF that] by (simp add: ids_inv_def)
    have cl: "regionid (reg_at st2 z) \<noteq> regionid (reg_at st2 h)" if "z \<noteq> h" "live st2 z" "z \<notin> set (dying s)" for z
      using old [OF that(1)] that v(5) [of z] new by auto
    have "x = y" if "live st2 x" "live st2 y" "x \<notin> set (dying s)" "y \<notin> set (dying s)"
      "regionid (reg_at st2 x) = regionid (reg_at st2 y)" for x y
    proof (cases "x = h \<or> y = h")
      case True
      then show ?thesis using that cl by metis
    next
      case False
      then have e: "reg_at st2 x = reg_at (rst s) x" "reg_at st2 y = reg_at (rst s) y" by (simp_all add: v(6))
      have "live (rst s) x" "live (rst s) y" using that(1,2) False v(5) by auto
      then show ?thesis using that(3-5) ii unfolding e ids_inv_def by blast
    qed
    moreover have "regionid (reg_at st2 x) \<in> set (ida st2)" if "live st2 x" "x \<notin> set (dying s)" for x
      using that new old [of x] v(5) by (cases "x = h") auto
    moreover have "distinct (ida st2)" using new ii by (simp add: ids_inv_def)
    moreover have "\<forall>i \<in> set (ida st2). OBMM_MIN_VALID_REGIONID \<le> i \<and> i \<le> OBMM_MAX_VALID_REGIONID"
      using new ii by (simp add: ids_inv_def)
    ultimately show ?thesis by (simp add: ids_inv_def)
  qed
  ultimately show ?thesis by (simp add: region_inv_def)
qed

lemma create_fail_inv:
  assumes inv: "region_inv s" and k: "kzalloc_region r (rst s) = (h, st1)" and i: "init_obmm_region env h st1 = (ret, st2)" "ret \<noteq> 0"
  shows "region_inv (s\<lparr>rst := kfree_region h st2\<rparr>)"
proof -
  note v = init_region_views [OF k i(1)]
  have li: "lists_inv s" using inv by (simp add: region_inv_def)
  have nl: "\<not> live (rst s) h" using lists_invD(12) [OF li, of h] v(1) by auto
  let ?st = "kfree_region h st2"
  have w: "regions ?st = regions (rst s)" "devs ?st = devs (rst s)" "ida ?st = ida (rst s)" "next_obj ?st = Suc (next_obj (rst s))"
    using v(2-4) v(7) [OF i(2)] by (simp_all add: kfree_region_def)
  have l: "live ?st x = live (rst s) x" for x
    using v(5) [of x] nl by (cases "x = h") (simp_all add: kfree_region_def live_def)
  have r: "reg_at ?st x = reg_at (rst s) x" if "live (rst s) x" for x
  proof -
    have "x \<noteq> h" using that nl by auto
    then show ?thesis using v(6) [of x] by (simp add: kfree_region_def reg_at_def)
  qed
  have "same_lists (rst s) ?st" using w l r by (simp add: same_lists_def fun_eq_iff)
  then show ?thesis by (rule same_lists_inv [OF inv]) (use w lists_invD [OF li] in auto)
qed

text \<open>Publication and withdrawal.\<close>

lemma dev_release_same [simp]: "same_lists st (obmm_shm_dev_release h st)" "devs (obmm_shm_dev_release h st) = devs st"
  unfolding obmm_shm_dev_release_def by (simp_all add: same_lists_upd)

lemma dev_add_same:
  assumes "obmm_shm_dev_add env h st = (ret, st1)"
  shows "same_lists st st1" "devs st1 = (if ret = 0 then h # devs st else devs st)"
proof -
  let ?st1 = "upd_reg h (\<lambda>r. r\<lparr>mmap_count := 0, mmap_mode := OBMM_MMAP_INIT\<rparr>) (add_module_refs 1 st)"
  have s1: "same_lists st ?st1"
    by (rule same_lists_trans [of _ "add_module_refs 1 st"]) (simp_all add: same_lists_upd)
  have up: "same_lists st (upd_reg h (\<lambda>r. r\<lparr>device_released := n\<rparr>) x)" if "same_lists st x" for x n
    by (rule same_lists_trans [OF that]) (simp add: same_lists_upd)
  have rel: "same_lists st (obmm_shm_dev_release h x)" if "same_lists st x" for x
    by (rule same_lists_trans [OF that]) simp
  show "same_lists st st1" "devs st1 = (if ret = 0 then h # devs st else devs st)"
    using assms s1 by (auto simp: obmm_shm_dev_add_def Let_def intro!: rel up split: if_splits prod.splits)
qed

lemma dev_del_same: "same_lists st (obmm_shm_dev_del env h st)" "devs (obmm_shm_dev_del env h st) = remove1 h (devs st)"
proof -
  have "same_lists st (obmm_shm_dev_release h (st\<lparr>devs := remove1 h (devs st)\<rparr>))"
    by (rule same_lists_trans [of _ "st\<lparr>devs := remove1 h (devs st)\<rparr>"]) simp_all
  then show "same_lists st (obmm_shm_dev_del env h st)" "devs (obmm_shm_dev_del env h st) = remove1 h (devs st)"
    by (simp_all add: obmm_shm_dev_del_def Let_def)
qed

lemma unlisted_id_free:
  assumes "region_inv s" and "h \<in> set (owners s)" and "h \<notin> set (regions (rst s))"
  shows "search_obmm_region (regionid (reg_at (rst s) h)) (rst s) = None"
proof (rule ccontr)
  assume "\<not> ?thesis"
  then obtain x where x: "x \<in> set (regions (rst s))" "regionid (reg_at (rst s) x) = regionid (reg_at (rst s) h)"
    using search_found by blast
  have li: "lists_inv s" and ii: "ids_inv s" using assms(1) by (auto simp: region_inv_def)
  have "live (rst s) x" "live (rst s) h" "x \<notin> set (dying s)" "h \<notin> set (dying s)"
    using lists_invD [OF li] x(1) assms(2) by auto
  then have "x = h" using ii x(2) unfolding ids_inv_def by blast
  then show False using x(1) assms(3) by simp
qed

lemma search_same_lists:
  assumes "same_lists st st'" and "\<forall>h \<in> set (regions st). live st h"
  shows "search_obmm_region rid st' = search_obmm_region rid st"
proof -
  have "regions st' = regions st" using assms(1) by (simp add: same_lists_def)
  moreover have "\<forall>h \<in> set (regions st). regionid (reg_at st' h) = regionid (reg_at st h)"
    using assms by (auto simp: same_lists_def)
  ultimately show ?thesis unfolding search_obmm_region_def by (auto intro: find_cong)
qed

text \<open>Registration of an owned region succeeds as soon as its device is there: its number is free.\<close>

lemma register_views:
  assumes inv: "region_inv s" and h: "h \<in> set (owners s)" "h \<notin> set (regions (rst s))"
    and r: "register_obmm_region env h (rst s) = (ret, st2)"
  obtains st1 where "same_lists (rst s) st1" and "if ret = 0 then st2 = st1\<lparr>regions := h # regions st1\<rparr> \<and> devs st1 = h # devs (rst s)
      else st2 = st1 \<and> devs st1 = devs (rst s)"
proof -
  obtain ret1 st1 where a: "obmm_shm_dev_add env h (rst s) = (ret1, st1)" by fastforce
  note same = dev_add_same [OF a]
  have li: "lists_inv s" using inv by (simp add: region_inv_def)
  have lv: "\<forall>x \<in> set (regions (rst s)). live (rst s) x" using lists_invD(1) [OF li] by blast
  have "regionid (reg_at st1 h) = regionid (reg_at (rst s) h)"
    using same(1) lists_invD(3) [OF li h(1)] by (simp add: same_lists_def)
  then have "search_obmm_region (regionid (reg_at st1 h)) st1 = None"
    using unlisted_id_free [OF inv h] search_same_lists [OF same(1) lv] by simp
  then show thesis using that [of st1] same a r
    by (auto simp: register_obmm_region_def insert_obmm_region_def split: if_splits)
qed

lemma register_inv:
  assumes inv: "region_inv s" and h: "h \<in> set (owners s)" "h \<notin> set (regions (rst s))"
    and r: "register_obmm_region env h (rst s) = (ret, st2)"
  shows "region_inv (s\<lparr>rst := st2\<rparr>)"
proof -
  have li: "lists_inv s" using inv by (simp add: region_inv_def)
  obtain st1 where same: "same_lists (rst s) st1"
    and c: "if ret = 0 then st2 = st1\<lparr>regions := h # regions st1\<rparr> \<and> devs st1 = h # devs (rst s)
            else st2 = st1 \<and> devs st1 = devs (rst s)"
    by (rule register_views [OF inv h r])
  have regs: "regions st1 = regions (rst s)" using same by (simp add: same_lists_def)
  have nd: "h \<notin> set (devs (rst s))" using lists_invD(5) [OF li] h(2) by auto
  have d0: "region_inv (s\<lparr>rst := st1\<lparr>devs := devs (rst s)\<rparr>\<rparr>)"
    by (rule same_lists_inv [OF inv]) (use same regs lists_invD [OF li] in auto)
  show ?thesis
  proof (cases "ret = 0")
    case False
    then have "st1\<lparr>devs := devs (rst s)\<rparr> = st2" using c by (cases st1) simp
    then show ?thesis using d0 by simp
  next
    case True
    let ?s0 = "s\<lparr>rst := st1\<lparr>devs := devs (rst s)\<rparr>\<rparr>" and ?s2 = "s\<lparr>rst := st1\<lparr>regions := h # regions st1\<rparr>\<rparr>"
    have dv: "devs st1 = h # devs (rst s)" using c True by simp
    have l0: "lists_inv ?s0" using d0 by (simp add: region_inv_def)
    have "live st1 h" "h \<notin> set (dying s)" using lists_invD [OF li] h(1) same by (auto simp: same_lists_def)
    then have "lists_inv ?s2" using l0 h(2) nd by (auto simp: lists_inv_def regs dv)
    moreover have "count_inv ?s2" "ids_inv ?s2" using d0 by (simp_all add: region_inv_def count_inv_def ids_inv_def cong: if_cong)
    ultimately show ?thesis using c True by (simp add: region_inv_def)
  qed
qed

lemma deregister_inv:
  assumes inv: "region_inv s" and h: "h \<in> set (owners s)" "h \<in> set (regions (rst s))"
  shows "region_inv (s\<lparr>rst := deregister_obmm_region env h (rst s)\<rparr>)"
proof -
  have li: "lists_inv s" and ci: "count_inv s" and ii: "ids_inv s" using inv by (auto simp: region_inv_def)
  let ?st1 = "(remove_obmm_region h (rst s))\<lparr>devs := remove1 h (devs (rst s))\<rparr>"
  let ?s1 = "s\<lparr>rst := ?st1\<rparr>"
  have rg: "set (remove1 h (regions (rst s))) = set (regions (rst s)) - {h}" using lists_invD(7) [OF li] by simp
  have dv: "set (remove1 h (devs (rst s))) = set (devs (rst s)) - {h}" using lists_invD(6) [OF li] by simp
  have "lists_inv ?s1" using li h(1) by (auto simp: lists_inv_def remove_obmm_region_def rg dv)
  moreover have "count_inv ?s1" "ids_inv ?s1" using ci ii by (simp_all add: count_inv_def ids_inv_def remove_obmm_region_def)
  ultimately have i1: "region_inv ?s1" by (simp add: region_inv_def)
  let ?st2 = "deregister_obmm_region env h (rst s)"
  have same: "same_lists (rst ?s1) ?st2" "devs ?st2 = devs ?st1"
    using dev_del_same [where st = "remove_obmm_region h (rst s)" and env = env and h = h]
    by (simp_all add: deregister_obmm_region_def same_lists_def remove_obmm_region_def)
  then have "regions ?st2 = regions ?st1" by (simp add: same_lists_def)
  then have "region_inv (?s1\<lparr>rst := ?st2\<rparr>)"
    using lists_invD(5,6) [of ?s1] i1 same(2) by (intro same_lists_inv [OF i1 same(1)]) (auto simp: region_inv_def)
  then show ?thesis by simp
qed

lemma uninit_inv:
  assumes inv: "region_inv s" and h: "h \<in> set (owners s)" "h \<notin> set (regions (rst s))"
  shows "region_inv (s\<lparr>rst := uninit_obmm_region h (rst s), owners := remove1 h (owners s), dying := h # dying s\<rparr>)"
proof -
  define st1 where "st1 = (if ownership_info (reg_at (rst s) h) \<noteq> None then upd_reg h release_ownership_info (rst s) else rst s)"
  let ?rid = "regionid (reg_at (rst s) h)"
  have li0: "lists_inv s" using inv by (simp add: region_inv_def)
  have same: "same_lists (rst s) st1" "devs st1 = devs (rst s)"
    by (auto simp: st1_def release_ownership_info_def split: option.split intro!: same_lists_upd)
  have regs: "regions st1 = regions (rst s)" using same(1) by (simp add: same_lists_def)
  have i1: "region_inv (s\<lparr>rst := st1\<rparr>)"
    by (rule same_lists_inv [OF inv same(1)]) (use same(2) regs lists_invD [OF li0] in auto)
  then have li: "lists_inv (s\<lparr>rst := st1\<rparr>)" and ci: "count_inv (s\<lparr>rst := st1\<rparr>)" and ii: "ids_inv (s\<lparr>rst := st1\<rparr>)"
    by (auto simp: region_inv_def)
  have lv: "live st1 h" "h \<notin> set (dying s)" using lists_invD [OF li0] h(1) same(1) by (auto simp: same_lists_def)
  have rid: "regionid (reg_at st1 h) = ?rid" using same(1) lists_invD(3) [OF li0 h(1)] by (simp add: same_lists_def)
  have un: "uninit_obmm_region h (rst s) = st1\<lparr>ida := remove1 ?rid (ida st1)\<rparr>"
    unfolding uninit_obmm_region_def Let_def st1_def [symmetric] rid ..
  let ?s2 = "s\<lparr>rst := st1\<lparr>ida := remove1 ?rid (ida st1)\<rparr>, owners := remove1 h (owners s), dying := h # dying s\<rparr>"
  have ow: "set (remove1 h (owners s)) = set (owners s) - {h}" using lists_invD(8) [OF li0] by simp
  have "lists_inv ?s2" using li lv h(2) by (auto simp: lists_inv_def ow regs)
  moreover have "count_inv ?s2" using ci h(1) by (auto simp: count_inv_def ow)
  moreover have "ids_inv ?s2"
  proof -
    have i: "distinct (ida st1)"
      "\<And>x. live st1 x \<Longrightarrow> x \<notin> set (dying s) \<Longrightarrow> regionid (reg_at st1 x) \<in> set (ida st1)"
      "\<And>x y. live st1 x \<Longrightarrow> live st1 y \<Longrightarrow> x \<notin> set (dying s) \<Longrightarrow> y \<notin> set (dying s)
        \<Longrightarrow> regionid (reg_at st1 x) = regionid (reg_at st1 y) \<Longrightarrow> x = y"
      "\<And>i. i \<in> set (ida st1) \<Longrightarrow> OBMM_MIN_VALID_REGIONID \<le> i \<and> i \<le> OBMM_MAX_VALID_REGIONID"
      using ii by (simp_all add: ids_inv_def)
    have "regionid (reg_at st1 x) \<noteq> ?rid" if "live st1 x" "x \<notin> set (dying s)" "x \<noteq> h" for x
      using i(3) [of x h] that lv rid by auto
    then have "regionid (reg_at st1 x) \<in> set (remove1 ?rid (ida st1))" if "live st1 x" "x \<notin> set (dying s)" "x \<noteq> h" for x
      using that i(1,2) by simp
    then show ?thesis using i by (auto simp: ids_inv_def)
  qed
  ultimately show ?thesis unfolding un by (simp add: region_inv_def)
qed

lemma destroy_inv:
  assumes inv: "region_inv s" and h: "h \<in> set (dying s)"
  shows "region_inv (s\<lparr>rst := kfree_region h (rst s), dying := remove1 h (dying s)\<rparr>)"
proof -
  have li: "lists_inv s" and ci: "count_inv s" and ii: "ids_inv s" using inv by (auto simp: region_inv_def)
  let ?st = "kfree_region h (rst s)" and ?s2 = "s\<lparr>rst := kfree_region h (rst s), dying := remove1 h (dying s)\<rparr>"
  have lh: "live (rst s) h" by (rule lists_invD(4) [OF li h])
  have nu: "h \<notin> set (users s)" using count_invD(2) [OF ci lh] h by simp
  have w: "regions ?st = regions (rst s)" "devs ?st = devs (rst s)" "ida ?st = ida (rst s)" "next_obj ?st = next_obj (rst s)"
    by (simp_all add: kfree_region_def)
  have l: "live ?st x = (live (rst s) x \<and> x \<noteq> h)" for x by (simp add: kfree_region_def live_def)
  have r: "reg_at ?st x = reg_at (rst s) x" if "x \<noteq> h" for x using that by (simp add: kfree_region_def reg_at_def)
  have dy: "set (remove1 h (dying s)) = set (dying s) - {h}" using lists_invD(9) [OF li] by simp
  have "lists_inv ?s2" using li h nu by (auto simp: lists_inv_def w l dy)
  moreover have "count_inv ?s2" using ci by (auto simp: count_inv_def l r dy)
  moreover have "ids_inv ?s2" using ii by (auto simp: ids_inv_def w l r dy)
  ultimately show ?thesis by (simp add: region_inv_def)
qed

lemma release_dev_inv:
  assumes "region_inv s"
  shows "region_inv (s\<lparr>rst := obmm_shm_dev_release h (rst s)\<rparr>)"
proof -
  have "regions (obmm_shm_dev_release h (rst s)) = regions (rst s)" by (simp add: obmm_shm_dev_release_def)
  then show ?thesis using assms lists_invD(5,6) [of s] by (intro same_lists_inv) (auto simp: region_inv_def)
qed

lemma work_inv:
  assumes "h \<in> set (owners s)" "own_work h (rst s) st1" "region_inv s"
  shows "region_inv (s\<lparr>rst := st1\<rparr>)"
proof -
  have "live st1 x = live (rst s) x" for x using assms(2) by (cases "x = h") (auto simp: own_work_def live_def)
  then have l: "live st1 = live (rst s)" by (rule ext)
  have "reg_at st1 x = reg_at (rst s) x" if "x \<noteq> h" for x using assms(2) that by (simp add: own_work_def reg_at_def)
  then have "refcnt (reg_at st1 x) = refcnt (reg_at (rst s) x) \<and> regionid (reg_at st1 x) = regionid (reg_at (rst s) x)" if "live (rst s) x" for x
    using assms(2) that by (cases "x = h") (auto simp: own_work_def live_def)
  then have "same_lists (rst s) st1" using assms(2) l by (simp add: same_lists_def own_work_def)
  then show ?thesis
    using assms lists_invD(5) [of s] by (intro same_lists_inv) (auto simp: own_work_def region_inv_def lists_inv_def)
qed

lemma outside_inv:
  assumes "outside_work (rst s) st1" "region_inv s"
  shows "region_inv (s\<lparr>rst := st1\<rparr>)"
proof -
  have "live st1 = live (rst s)" by (rule ext) (use assms(1) in \<open>simp add: outside_work_def live_def\<close>)
  then have "same_lists (rst s) st1" using assms(1) by (simp add: outside_work_def same_lists_def reg_at_def)
  then show ?thesis
    using assms by (intro same_lists_inv) (auto simp: outside_work_def region_inv_def lists_inv_def)
qed

lemma reg_step_inv: "reg_step env s s' \<Longrightarrow> region_inv s \<Longrightarrow> region_inv s'"
proof (induction rule: reg_step.induct)
  case (search_get rid s h st1)
  then obtain f: "search_obmm_region rid (rst s) = Some h" and g: "try_get_obmm_region (Some h) (rst s) = (Some h, st1)"
    by (auto simp: search_get_obmm_region_def try_get_obmm_region_def split: option.splits if_splits)
  show ?case by (rule get_inv [OF search_get.prems search_found(1) [OF f] g])
next
  case (open_dev h s st1)
  have "set (devs (rst s)) \<subseteq> set (regions (rst s))"
    using open_dev.prems by (auto simp: region_inv_def dest: lists_invD(5))
  then show ?case using open_dev by (intro get_inv) auto
qed (blast intro: create_inv create_fail_inv work_inv outside_inv register_inv activate_inv put_inv deactivate_inv deregister_inv release_dev_inv
  uninit_inv destroy_inv)+

lemma reg_reachable_inv: "reg_reachable env s \<Longrightarrow> region_inv s"
proof (induction rule: reg_reachable.induct)
  case (start p w)
  show ?case by (simp add: reg_start_def region_inv_def lists_inv_def count_inv_def ids_inv_def live_def)
qed (rule reg_step_inv)

section \<open>An example\<close>


lemmas demo_region_defs = demo_created_def demo_registered_def demo_obmm_env_def demo_new_region_def reg_start_def pre_start_def
  demo_pre_env_def

lemma demo_created_eq: "init_obmm_region demo_obmm_env 0 (snd (kzalloc_region demo_new_region (rst (reg_start demo_mempool (sys_st (pre_start ()))))))
    = (0, demo_created)"
  by (simp add: demo_region_defs init_obmm_region_def kzalloc_region_def ida_alloc_range_def Let_def)

lemma demo_registered_eq: "register_obmm_region demo_obmm_env 0 demo_created = (0, demo_registered)"
  by (simp add: demo_region_defs init_obmm_region_def kzalloc_region_def ida_alloc_range_def Let_def register_obmm_region_def
      obmm_shm_dev_add_def insert_obmm_region_def search_obmm_region_def upd_reg_def set_kw_def add_module_refs_def)

lemma demo_region_get: "search_get_obmm_region 1 (activate_obmm_region 0 demo_registered)
    = (Some 0, snd (search_get_obmm_region 1 (activate_obmm_region 0 demo_registered)))"
  and demo_reg_list: "regions demo_registered = [0]"
  by (simp_all add: demo_region_defs init_obmm_region_def kzalloc_region_def ida_alloc_range_def Let_def register_obmm_region_def
      obmm_shm_dev_add_def insert_obmm_region_def search_obmm_region_def upd_reg_def set_kw_def add_module_refs_def
      search_get_obmm_region_def try_get_obmm_region_def activate_obmm_region_def reg_at_def)

lemma demo_used_reachable: "reg_reachable demo_obmm_env demo_used"
proof -
  let ?s0 = "reg_start demo_mempool (sys_st (pre_start ())) :: (u64 list \<times> u64 list, unit) reg_sys"
  have 0: "reg_reachable demo_obmm_env ?s0" by (rule reg_reachable.start)
  have k: "kzalloc_region demo_new_region (rst ?s0) = (0, snd (kzalloc_region demo_new_region (rst ?s0)))"
    by (simp add: kzalloc_region_def reg_start_def)
  have "reg_step demo_obmm_env ?s0 (?s0\<lparr>rst := demo_created, owners := 0 # owners ?s0\<rparr>)"
    by (rule reg_step.create [OF k _ demo_created_eq]) (simp add: demo_new_region_def)
  then have 1: "reg_reachable demo_obmm_env \<lparr>rst = demo_created, users = [], owners = [0], dying = []\<rparr>" (is "reg_reachable _ ?s1")
    using reg_reachable.step [OF 0] by (simp add: reg_start_def)
  have "device_released (reg_at demo_created 0) = 1" "regions demo_created = []"
    by (simp_all add: demo_region_defs init_obmm_region_def kzalloc_region_def ida_alloc_range_def Let_def reg_at_def upd_reg_def set_kw_def)
  then have "reg_step demo_obmm_env ?s1 (?s1\<lparr>rst := demo_registered\<rparr>)"
    using demo_registered_eq by (intro reg_step.register [where h = 0 and ret = 0]) simp_all
  then have 2: "reg_reachable demo_obmm_env \<lparr>rst = demo_registered, users = [], owners = [0], dying = []\<rparr>" (is "reg_reachable _ ?s2")
    using reg_reachable.step [OF 1] by simp
  have "reg_step demo_obmm_env ?s2 (?s2\<lparr>rst := activate_obmm_region 0 (rst ?s2), owners := remove1 0 (owners ?s2)\<rparr>)"
    using demo_reg_list by (intro reg_step.activate) simp_all
  then have 3: "reg_reachable demo_obmm_env \<lparr>rst = activate_obmm_region 0 demo_registered, users = [], owners = [], dying = []\<rparr>" (is "reg_reachable _ ?s3")
    using reg_reachable.step [OF 2] by simp
  have "reg_step demo_obmm_env ?s3 demo_used"
    using reg_step.search_get [of 1 ?s3 0 "rst demo_used" demo_obmm_env] demo_region_get by (simp add: demo_used_def)
  then show ?thesis by (rule reg_reachable.step [OF 3])
qed


end
