(* ===== verification/Obmm_Import.thy ===== *)
theory Obmm_Import
  imports Obmm_Region
begin

text \<open>
  Import of remote memory (\<^verbatim>\<open>drivers/ub/obmm/obmm_import.c\<close>).  An import takes a physical range, either
  directly or out of a pre-imported range, makes it a NUMA node or lets it be mapped, and puts it under
  a device resource; each step that fails undoes the ones before it.  The functions work on the
  imported region and on the state that imports share with pre-imports.  \<open>None\<close> is a call that does not
  return: hardware that is busy for ever, or a null pointer that is dereferenced.
\<close>

section \<open>Data\<close>

record obmm_cmd_import =
  im_flags :: u64
  im_mem_id :: u64
  im_addr :: u64
  im_length :: u64
  im_tokenid :: u32
  im_scna :: u32
  im_dcna :: u32
  im_numa_id :: int
  im_priv_len :: u16
  im_base_dist :: u8
  im_deid :: "u8 list"
  im_seid :: "u8 list"
  im_priv :: u64

record obmm_cmd_unimport =
  um_mem_id :: u64
  um_flags :: u64

abbreviation i_size :: "obmm_import_region \<Rightarrow> u64" where "i_size i \<equiv> mem_size (i_region i)"

definition set_import_region_datapath :: "obmm_import_region \<Rightarrow> obmm_datapath" where
  "set_import_region_datapath i =
     \<lparr>dp_scna = i_scna i, dp_dcna = i_dcna i, dp_seid = i_seid i, dp_deid = i_deid i\<rparr>"

definition get_pa_range_mem_cap :: "'w pre_env \<Rightarrow> u32 \<Rightarrow> u64 \<Rightarrow> u64 \<Rightarrow> u64" where
  "get_pa_range_mem_cap env scna pa sz =
     (if ub_memory_validate_pa env scna pa (pa + sz - 1) True then OBMM_MEM_ALLOW_CACHEABLE_MMAP else 0)
     OR (if ub_memory_validate_pa env scna pa (pa + sz - 1) False then OBMM_MEM_ALLOW_NONCACHEABLE_MMAP else 0)"

section \<open>Physical addresses\<close>

definition setup_pa :: "'w pre_env \<Rightarrow> obmm_import_region \<Rightarrow> 'w pre_state \<Rightarrow> int \<times> obmm_import_region \<times> 'w pre_state" where
  "setup_pa env i0 st =
     (let cap = get_pa_range_mem_cap env (i_scna i0) (i_pa i0) (i_size i0);
          i = i0\<lparr>i_region := (i_region i0)\<lparr>mem_cap := cap\<rparr>\<rparr>
      in if cap = 0 then (- EINVAL, i, st)
         else if \<not> region_preimport (i_region i) then
           let (ok1, w1) = alloc_ok env (kworld st);
               (iret, w2) = (if ok1 then insert_iomem env (i_pa i) (i_pa i + i_size i - 1) w1 else (0, w1))
           in case setup_ubmem_resource ok1 iret (i_pa i) (i_size i) False of
                Inl err \<Rightarrow> (err, i, st\<lparr>kworld := w2\<rparr>)
              | Inr ub \<Rightarrow> let u = next_ptr st
                         in (0, i\<lparr>ubmem_res := u\<rparr>, st\<lparr>ubmems := (ubmems st)(u \<mapsto> ub), next_ptr := Suc u, kworld := w2\<rparr>)
         else
           let (ret, out, st1) = preimport_commit_prefilled env (i_pa i) (i_pa i + i_size i - 1) (set_import_region_datapath i) st
           in if ret \<noteq> 0 then (ret, i, st1)
              else let (nd, h) = the out
                   in (0, i\<lparr>i_numa_id := nd, preimport_handle := Some h, ubmem_res := preimport_get_resource_prefilled h st1\<rparr>, st1))"

definition teardown_pa :: "'w pre_env \<Rightarrow> obmm_import_region \<Rightarrow> 'w pre_state \<Rightarrow> int \<times> 'w pre_state" where
  "teardown_pa env i st =
     (if \<not> region_preimport (i_region i) then
        let u = ubmem_res i;
            (rret, w) = remove_iomem env (res (the (ubmems st u))) (kworld st);
            (ret, freed) = release_ubmem_resource rret
        in (ret, st\<lparr>ubmems := (if freed then (ubmems st)(u := None) else ubmems st), kworld := w\<rparr>)
      else preimport_uncommit_prefilled env (the (preimport_handle i)) (i_pa i) (i_pa i + i_size i - 1) st)"

section \<open>Remote NUMA node\<close>

definition recover_resource :: "nat \<Rightarrow> int \<Rightarrow> 'w pre_state \<Rightarrow> (int \<times> 'w pre_state) option" where
  "recover_resource u ret st =
     map_option (\<lambda>ub. (ret, st\<lparr>ubmems := (ubmems st)(u \<mapsto> ub)\<rparr>)) (restore_unlock_memdev_descendents (the (ubmems st u)))"

definition teardown_remote_numa :: "'w pre_env \<Rightarrow> obmm_import_region \<Rightarrow> bool \<Rightarrow> 'w pre_state \<Rightarrow> (int \<times> 'w pre_state) option" where
  "teardown_remote_numa env i force st =
     (let u = ubmem_res i
      in case lock_save_memdev_descendents (the (ubmems st u)) of
           None \<Rightarrow> None
         | Some (ret, ub) \<Rightarrow>
             let st1 = st\<lparr>ubmems := (ubmems st)(u \<mapsto> ub)\<rparr>
             in if ret \<noteq> 0 then Some (ret, st1)
                else
                  let (ret1, st2) = remove_memory_remote env (i_numa_id i) (i_pa i) (i_size i) u st1
                  in if ret1 \<noteq> 0 \<and> \<not> force then recover_resource u ret1 st2
                     else if region_preimport (i_region i) then
                       let (this_ret, st3) = add_memory_remote env (i_numa_id i) (i_pa i) (i_size i) MEMORY_KEEP_ISOLATED u st2
                       in recover_resource u (if this_ret = NUMA_NO_NODE then - ENOTRECOVERABLE else ret1) st3
                     else recover_resource u ret1 st2)"

definition setup_remote_numa :: "'w pre_env \<Rightarrow> obmm_import_region \<Rightarrow> 'w pre_state
    \<Rightarrow> (int \<times> obmm_import_region \<times> 'w pre_state) option" where
  "setup_remote_numa env i st =
     (let flags = (if region_preimport (i_region i) then MEMORY_NO_FLAGS else MEMORY_DIRECT_ONLINE)
      in if mem_cap (i_region i) AND OBMM_MEM_ALLOW_CACHEABLE_MMAP = 0 then Some (- EINVAL, i, st)
         else
           let (ret, st1) = add_memory_remote env (i_numa_id i) (i_pa i) (i_size i) flags (ubmem_res i) st
           in if ret < 0 then Some (- EPERM, i, st1)
              else
                let i1 = i\<lparr>i_numa_id := ret\<rparr>
                in if region_preimport (i_region i) then Some (0, i1, st1)
                   else
                     let (ret1, w) = obmm_set_numa_distance env (i_scna i1) (i_numa_id i1) (i_base_dist i1) (kworld st1);
                         st2 = st1\<lparr>kworld := w\<rparr>
                     in if ret1 < 0
                        then map_option (\<lambda>(_, st3). (ret1, i1, st3)) (teardown_remote_numa env i1 True st2)
                        else Some (0, i1, st2))"

section \<open>Address register and device resource\<close>

definition import_pa_range :: "nat \<Rightarrow> obmm_import_region \<Rightarrow> addr_data obmm_pa_range" where
  "import_pa_range h i = \<lparr>pa_start = i_pa i, pa_end = i_pa i + i_size i - 1,
     info = \<lparr>user = OBMM_ADDR_USER_DIRECT_IMPORT, info_data = Import_Region h\<rparr>\<rparr>"

definition occupy_addr_range :: "'w pre_env \<Rightarrow> nat \<Rightarrow> obmm_import_region \<Rightarrow> 'w pre_state \<Rightarrow> int \<times> 'w pre_state" where
  "occupy_addr_range env h i st =
     (if \<not> region_preimport (i_region i) then occupy_range env (import_pa_range h i) st else (0, st))"

text \<open>The release fills in only the two ends of the range, the part that is compared.\<close>

definition free_addr_range :: "nat \<Rightarrow> obmm_import_region \<Rightarrow> 'w pre_state \<Rightarrow> int \<times> 'w pre_state" where
  "free_addr_range h i st = (if \<not> region_preimport (i_region i) then free_range (import_pa_range h i) st else (0, st))"

definition setup_iomem_resource :: "'w pre_env \<Rightarrow> obmm_import_region \<Rightarrow> 'w pre_state \<Rightarrow> int \<times> obmm_import_region \<times> 'w pre_state" where
  "setup_iomem_resource env i st =
     (let (ok1, w1) = alloc_ok env (kworld st);
          (ok2, w2) = (if ok1 then alloc_ok env w1 else (False, w1));
          (r, ub) = setup_memdev_resource ok1 ok2 (i_pa i) (i_size i) (regionid (i_region i)) (the (ubmems st (ubmem_res i)));
          st1 = st\<lparr>ubmems := (ubmems st)(ubmem_res i \<mapsto> ub), kworld := w2\<rparr>
      in case r of Inl err \<Rightarrow> (err, i, st1) | Inr m \<Rightarrow> (0, i\<lparr>memdev_res := Some m\<rparr>, st1))"

definition teardown_iomem_resource :: "obmm_import_region \<Rightarrow> 'w pre_state \<Rightarrow> int \<times> 'w pre_state" where
  "teardown_iomem_resource i st =
     (let (ret, ub) = release_memdev_resource (the (memdev_res i)) (the (ubmems st (ubmem_res i)))
      in (ret, st\<lparr>ubmems := (ubmems st)(ubmem_res i \<mapsto> ub)\<rparr>))"

section \<open>Preparing and releasing\<close>

text \<open>The labels of the error path of \<open>prepare_import_memory\<close>, from the last one up.\<close>

definition undo_addr_range :: "nat \<Rightarrow> int \<Rightarrow> obmm_import_region \<Rightarrow> 'w pre_state \<Rightarrow> int \<times> obmm_import_region \<times> 'w pre_state" where
  "undo_addr_range h ret i st =
     (let (rollback_ret, st1) = free_addr_range h i st
      in (if rollback_ret \<noteq> 0 then - ENOTRECOVERABLE else ret, i, st1))"

definition undo_pa :: "'w pre_env \<Rightarrow> nat \<Rightarrow> int \<Rightarrow> obmm_import_region \<Rightarrow> 'w pre_state \<Rightarrow> int \<times> obmm_import_region \<times> 'w pre_state" where
  "undo_pa env h ret i st =
     (let (rollback_ret, st1) = teardown_pa env i st
      in undo_addr_range h (if rollback_ret \<noteq> 0 then - ENOTRECOVERABLE else ret) i st1)"

definition undo_numa :: "'w pre_env \<Rightarrow> nat \<Rightarrow> int \<Rightarrow> obmm_import_region \<Rightarrow> 'w pre_state
    \<Rightarrow> (int \<times> obmm_import_region \<times> 'w pre_state) option" where
  "undo_numa env h ret i st =
     (if region_numa_remote (i_region i)
      then map_option (\<lambda>(rollback_ret, st1). undo_pa env h (if rollback_ret \<noteq> 0 then - ENOTRECOVERABLE else ret) i st1)
             (teardown_remote_numa env i True st)
      else Some (undo_pa env h ret i st))"

definition prepare_import_memory :: "'w pre_env \<Rightarrow> nat \<Rightarrow> obmm_import_region \<Rightarrow> 'w pre_state
    \<Rightarrow> (int \<times> obmm_import_region \<times> 'w pre_state) option" where
  "prepare_import_memory env h i st =
     (if \<not> validate_scna env (i_scna i) then Some (- ENODEV, i, st)
      else
        let (ret, st1) = occupy_addr_range env h i st
        in if ret \<noteq> 0 then Some (ret, i, st1)
           else
             let (ret1, i1, st2) = setup_pa env i st1
             in if ret1 \<noteq> 0 then Some (undo_addr_range h ret1 i1 st2)
                else
                  case (if region_numa_remote (i_region i1) then setup_remote_numa env i1 st2
                        else Some (0, i1\<lparr>i_numa_id := NUMA_NO_NODE\<rparr>, st2)) of
                    None \<Rightarrow> None
                  | Some (ret2, i2, st3) \<Rightarrow>
                      if ret2 \<noteq> 0 then Some (undo_pa env h ret2 i2 st3)
                      else
                        let (ret3, i3, st4) = setup_iomem_resource env i2 st3
                        in if ret3 \<noteq> 0 then undo_numa env h ret3 i3 st4 else Some (0, i3, st4))"

definition flush_import_region :: "('k, 'w) obmm_env \<Rightarrow> obmm_import_region \<Rightarrow> u64 \<Rightarrow> u64 \<Rightarrow> u64 \<Rightarrow> 'w \<Rightarrow> (int \<times> 'w) option" where
  "flush_import_region env i off len cache_ops w =
     (case flush_cache_by_pa (cache_e env) (i_pa i + off) len cache_ops w of
        None \<Rightarrow> None
      | Some (ret, w1) \<Rightarrow>
          if ret \<noteq> 0 then Some (ret, w1)
          else if cache_ops = OBMM_SHM_CACHE_WB_INVAL \<or> cache_ops = OBMM_SHM_CACHE_WB_ONLY
            then map_option (\<lambda>r. (r, w1)) (ub_write_queue_flush (drain_state env) (drain_expired env) (i_scna i))
            else Some (0, w1))"

text \<open>The labels of the error path of \<open>release_import_memory\<close>.\<close>

definition redo_iomem :: "'w pre_env \<Rightarrow> int \<Rightarrow> obmm_import_region \<Rightarrow> 'w pre_state \<Rightarrow> int \<times> obmm_import_region \<times> 'w pre_state" where
  "redo_iomem env ret i st =
     (let (rollback_ret, i1, st1) = setup_iomem_resource env i st
      in (if rollback_ret \<noteq> 0 then - ENOTRECOVERABLE else ret, i1, st1))"

definition redo_numa :: "'w pre_env \<Rightarrow> int \<Rightarrow> int \<Rightarrow> obmm_import_region \<Rightarrow> 'w pre_state
    \<Rightarrow> (int \<times> obmm_import_region \<times> 'w pre_state) option" where
  "redo_numa env old_numa_id ret i st =
     (if region_numa_remote (i_region i) then
        (case setup_remote_numa env (i\<lparr>i_numa_id := old_numa_id\<rparr>) st of
           None \<Rightarrow> None
         | Some (rollback_ret, i1, st1) \<Rightarrow>
             if rollback_ret \<noteq> 0 then Some (- ENOTRECOVERABLE, i1, st1) else Some (redo_iomem env ret i1 st1))
      else Some (redo_iomem env ret i st))"

definition release_import_memory :: "('k, 'w) obmm_env \<Rightarrow> nat \<Rightarrow> obmm_import_region \<Rightarrow> 'w pre_state
    \<Rightarrow> (int \<times> obmm_import_region \<times> 'w pre_state) option" where
  "release_import_memory env h i st =
     (let (ret, st1) = teardown_iomem_resource i st; old_numa_id = i_numa_id i
      in if ret \<noteq> 0 then Some (ret, i, st1)
         else case (if region_numa_remote (i_region i) then teardown_remote_numa (pre_e env) i False st1 else Some (0, st1)) of
                None \<Rightarrow> None
              | Some (ret1, st2) \<Rightarrow>
                  if ret1 \<noteq> 0 then Some (redo_iomem (pre_e env) ret1 i st2)
                  else case flush_import_region env i 0 (i_size i) OBMM_SHM_CACHE_INVAL (kworld st2) of
                         None \<Rightarrow> None
                       | Some (ret2, w) \<Rightarrow>
                           let st3 = st2\<lparr>kworld := w\<rparr>
                           in if ret2 \<noteq> 0 then redo_numa (pre_e env) old_numa_id ret2 i st3
                              else
                                let (ret3, st4) = teardown_pa (pre_e env) i st3
                                in if ret3 \<noteq> 0 then redo_numa (pre_e env) old_numa_id ret3 i st4
                                   else
                                     let (ret4, st5) = free_addr_range h i st4
                                     in if ret4 = 0 then Some (0, i, st5)
                                        else
                                          let (rollback_ret, i1, st6) = setup_pa (pre_e env) i st5
                                          in if rollback_ret \<noteq> 0 then Some (- ENOTRECOVERABLE, i1, st6)
                                             else redo_numa (pre_e env) old_numa_id ret4 i1 st6)"

section \<open>Checks of a command\<close>

definition validate_pa_range :: "u64 \<Rightarrow> u64 \<Rightarrow> bool" where
  "validate_pa_range pa sz \<longleftrightarrow>
     \<not> (\<not> IS_ALIGNED pa OBMM_BASIC_GRANU \<or> \<not> IS_ALIGNED sz OBMM_BASIC_GRANU) \<and> pa \<noteq> 0 \<and> \<not> pa + sz < pa"

definition validate_import_region :: "obmm_import_region \<Rightarrow> bool" where
  "validate_import_region i \<longleftrightarrow> i_size i \<noteq> 0 \<and> validate_pa_range (i_pa i) (i_size i)"

definition import_to_region_flags :: "u64 \<Rightarrow> int \<times> u64" where
  "import_to_region_flags import_flags =
     (let mmap = (import_flags AND OBMM_IMPORT_FLAG_ALLOW_MMAP \<noteq> 0);
          remote = (import_flags AND OBMM_IMPORT_FLAG_NUMA_REMOTE \<noteq> 0);
          preimport = (import_flags AND OBMM_IMPORT_FLAG_PREIMPORT \<noteq> 0)
      in if import_flags AND NOT OBMM_IMPORT_FLAG_MASK \<noteq> 0 then (- EINVAL, 0)
         else if mmap = remote then (- EINVAL, 0)
         else if preimport \<and> \<not> remote then (- EINVAL, 0)
         else (0, (if mmap then OBMM_REGION_FLAG_ALLOW_MMAP else 0)
                OR (if preimport then OBMM_REGION_FLAG_PREIMPORT else 0)
                OR (if remote then OBMM_REGION_FLAG_NUMA_REMOTE else 0)))"

definition zeroed_i_reg :: obmm_import_region where
  "zeroed_i_reg = \<lparr>i_region = zeroed_region, i_dcna = 0, i_scna = 0, ubmem_res = 0, memdev_res = None, i_pa = 0,
     i_numa_id = 0, i_base_dist = 0, preimport_handle = None, i_deid = replicate 16 0, i_seid = replicate 16 0\<rparr>"

definition init_import_region_from_cmd :: "(u64 \<Rightarrow> nat \<Rightarrow> u8 list option) \<Rightarrow> obmm_cmd_import \<Rightarrow> obmm_import_region
    \<Rightarrow> int \<times> obmm_import_region" where
  "init_import_region_from_cmd copy param i0 =
     (let (ret, flags) = import_to_region_flags (im_flags param);
          i = i0\<lparr>i_region := (i_region i0)\<lparr>mem_size := im_length param, reg_flags := flags\<rparr>\<rparr>
      in if ret \<noteq> 0 then (ret, i)
         else
           let i1 = i\<lparr>i_pa := im_addr param, i_dcna := im_dcna param, i_scna := im_scna param, i_deid := im_deid param,
                      i_seid := im_seid param,
                      i_numa_id := (if region_numa_remote (i_region i) then im_numa_id param else NUMA_NO_NODE)\<rparr>;
               (ret1, reg) = set_obmm_region_priv copy (ucast (im_priv_len param)) (im_priv param) (i_region i1);
               i2 = i1\<lparr>i_region := reg\<rparr>
           in if ret1 \<noteq> 0 then (ret1, i2)
              else if \<not> validate_import_region i2 then (- EINVAL, i2)
              else
                let config_numa_dist = (region_numa_remote (i_region i2) \<and> \<not> region_preimport (i_region i2))
                in if config_numa_dist \<and> \<not> is_numa_base_dist_valid (im_base_dist param) then (- EINVAL, i2)
                   else (0, i2\<lparr>i_base_dist := im_base_dist param\<rparr>))"

section \<open>The requests\<close>

fun as_import :: "any_region \<Rightarrow> obmm_import_region" where
  "as_import (Import i) = i"
| "as_import (Export e) = zeroed_i_reg"

definition set_obj :: "nat \<Rightarrow> any_region \<Rightarrow> ('k, 'w) obmm_state \<Rightarrow> ('k, 'w) obmm_state" where
  "set_obj h r st = st\<lparr>objs := (objs st)(h \<mapsto> r)\<rparr>"

text \<open>The common end of the error path: the region waits for its device and is freed.\<close>

definition free_ireg :: "('k, 'w) obmm_env \<Rightarrow> nat \<Rightarrow> ('k, 'w) obmm_state \<Rightarrow> ('k, 'w) obmm_state option" where
  "free_ireg env h st = map_option (kfree_region h) (wait_until_dev_released env h st)"

definition obmm_import :: "('k, 'w) obmm_env \<Rightarrow> obmm_cmd_import \<Rightarrow> ('k, 'w) obmm_state
    \<Rightarrow> (int \<times> obmm_cmd_import \<times> ('k, 'w) obmm_state) option" where
  "obmm_import env cmd st =
     (let (okay, w) = alloc_ok (pre_e env) (kw st); st0 = set_kw w st
      in if \<not> okay then Some (- ENOMEM, cmd, st0)
         else
           let (h, st1) = kzalloc_region (Import (zeroed_i_reg\<lparr>i_region := zeroed_region\<lparr>device_released := 1\<rparr>\<rparr>)) st0;
               (ret, i) = init_import_region_from_cmd (\<lambda>p n. user_data env p n w) cmd (as_import (the (objs st1 h)));
               st2 = set_obj h (Import i) st1
           in if ret \<noteq> 0 then map_option (\<lambda>s. (ret, cmd, s)) (free_ireg env h st2)
              else
                let (ret1, st3) = init_obmm_region env h st2
                in if ret1 \<noteq> 0 then map_option (\<lambda>s. (ret1, cmd, s)) (free_ireg env h st3)
                   else case prepare_import_memory (pre_e env) h (as_import (the (objs st3 h))) (pre st3) of
                          None \<Rightarrow> None
                        | Some (ret2, i2, ps) \<Rightarrow>
                            let st4 = set_obj h (Import i2) (st3\<lparr>pre := ps\<rparr>)
                            in if ret2 \<noteq> 0
                               then map_option (\<lambda>s. (ret2, cmd, s)) (free_ireg env h (uninit_obmm_region h st4))
                               else
                                 let (ret3, st5) = register_obmm_region env h st4
                                 in if ret3 \<noteq> 0
                                    then (case release_import_memory env h (as_import (the (objs st5 h))) (pre st5) of
                                            None \<Rightarrow> None
                                          | Some (_, i3, ps3) \<Rightarrow>
                                              map_option (\<lambda>s. (ret3, cmd, s))
                                                (free_ireg env h (uninit_obmm_region h (set_obj h (Import i3) (st5\<lparr>pre := ps3\<rparr>)))))
                                    else Some (0, cmd\<lparr>im_numa_id := i_numa_id i2, im_mem_id := word_of_int (regionid (i_region i2))\<rparr>,
                                               activate_obmm_region h st5))"

definition obmm_unimport :: "('k, 'w) obmm_env \<Rightarrow> obmm_cmd_unimport \<Rightarrow> ('k, 'w) obmm_state
    \<Rightarrow> (int \<times> ('k, 'w) obmm_state) option" where
  "obmm_unimport env cmd st =
     (if \<not> validate_obmm_mem_id (um_mem_id cmd) then Some (- ENOENT, st)
      else if um_flags cmd AND NOT OBMM_UNIMPORT_FLAG_MASK \<noteq> 0 then Some (- EINVAL, st)
      else case search_deactivate_obmm_region (uint (um_mem_id cmd)) st of
             (Inl err, st1) \<Rightarrow> Some (err, st1)
           | (Inr h, st1) \<Rightarrow>
               (case objs st1 h of
                  None \<Rightarrow> None
                | Some (Export _) \<Rightarrow> Some (- EINVAL, activate_obmm_region h st1)
                | Some (Import i) \<Rightarrow>
                    (case release_import_memory env h i (pre st1) of
                       None \<Rightarrow> None
                     | Some (ret, i1, ps) \<Rightarrow>
                         let st2 = set_obj h (Import i1) (st1\<lparr>pre := ps\<rparr>)
                         in if ret \<noteq> 0 then Some (ret, activate_obmm_region h st2)
                            else map_option (\<lambda>s. (0, s)) (free_ireg env h (uninit_obmm_region h (deregister_obmm_region env h st2))))))"

section \<open>Mapping and queries\<close>

definition map_import_region :: "mm_config \<Rightarrow> 'k map_env \<Rightarrow> vm_area \<Rightarrow> obmm_import_region \<Rightarrow> obmm_mmap_granu \<Rightarrow> 'k \<Rightarrow> int \<times> 'k" where
  "map_import_region c env vma i mg k =
     (let sz = vm_end vma - vm_start vma; pfn = drop_bit (PAGE_SHIFT c) (i_pa i) + vm_pgoff vma
      in case mg of
           OBMM_MMAP_GRANU_PAGE \<Rightarrow> remap_pfn_range env vma (vm_start vma) pfn sz (vm_page_prot vma) k
         | OBMM_MMAP_GRANU_PMD \<Rightarrow> remap_pfn_range_try_pmd env vma (vm_start vma) pfn sz (vm_page_prot vma) k
         | OBMM_MMAP_GRANU_NONE \<Rightarrow> (- EINVAL, k))"

definition get_pa_detail_import :: "obmm_import_region \<Rightarrow> u64 \<Rightarrow> obmm_ext_addr \<Rightarrow> int \<times> obmm_ext_addr" where
  "get_pa_detail_import i pa ext =
     (if pa < i_pa i \<or> pa \<ge> i_pa i + i_size i then (- EFAULT, ext)
      else (0, ext\<lparr>ext_region_type := OBMM_IMPORT_REGION, ext_regionid := word_of_int (regionid (i_region i)),
                   ext_offset := pa - i_pa i, ext_tid := 0, ext_uba := 0, ext_numa_id := i_numa_id i, ext_pa := pa\<rparr>))"

definition get_offset_detail_import :: "obmm_import_region \<Rightarrow> u64 \<Rightarrow> obmm_ext_addr \<Rightarrow> int \<times> obmm_ext_addr" where
  "get_offset_detail_import i off ext =
     (if off \<ge> i_size i then (- EINVAL, ext)
      else (0, ext\<lparr>ext_region_type := OBMM_IMPORT_REGION, ext_regionid := word_of_int (regionid (i_region i)),
                   ext_offset := off, ext_tid := 0, ext_uba := 0, ext_pa := i_pa i + off, ext_numa_id := i_numa_id i\<rparr>))"

section \<open>What the steps leave alone\<close>

text \<open>The register of ranges and the pre-imported ranges: the books of who owns which address.\<close>

definition same_books :: "'w pre_state \<Rightarrow> 'w pre_state \<Rightarrow> bool" where
  "same_books st st' \<longleftrightarrow> checker st' = checker st \<and> pprs st' = pprs st"

text \<open>The books after the addresses of an import are taken, and how they are given back.\<close>

definition taken :: "'w pre_env \<Rightarrow> nat \<Rightarrow> obmm_import_region \<Rightarrow> 'w pre_state \<Rightarrow> 'w pre_state \<Rightarrow> bool" where
  "taken env h i st st' \<longleftrightarrow>
     (if region_preimport (i_region i)
      then checker st' = checker st
         \<and> (\<exists>nd g dp stc. preimport_commit_prefilled env (i_pa i) (i_pa i + i_size i - 1) dp st = (0, Some (nd, g), stc)
              \<and> preimport_handle i = Some g \<and> pprs st' = pprs stc)
      else pprs st' = pprs st \<and> (\<exists>al. occupy_pa_range al (import_pa_range h i) (checker st) = (0, checker st')))"

text \<open>What an import keeps of its region while it is being prepared.\<close>

definition same_import :: "obmm_import_region \<Rightarrow> obmm_import_region \<Rightarrow> bool" where
  "same_import i i' \<longleftrightarrow> i_pa i' = i_pa i \<and> i_size i' = i_size i \<and> reg_flags (i_region i') = reg_flags (i_region i)"

definition demo_ireg :: obmm_import_region where
  "demo_ireg = zeroed_i_reg\<lparr>i_region := zeroed_region\<lparr>mem_size := 0x200000, reg_flags := OBMM_REGION_FLAG_ALLOW_MMAP\<rparr>,
     i_pa := 0x40000000, i_scna := 1, i_numa_id := NUMA_NO_NODE\<rparr>"

text \<open>A platform whose address decoder does not know the range, and one that needs no cache maintenance.\<close>

definition demo_refusing_env :: "unit pre_env" where
  "demo_refusing_env = demo_pre_env\<lparr>ub_memory_validate_pa := (\<lambda>_ _ _ _. False)\<rparr>"

definition demo_coherent_env :: "(u64 list \<times> u64 list, unit) obmm_env" where
  "demo_coherent_env = demo_obmm_env\<lparr>cache_e := \<lparr>skip_cache_maintain = True, hisi_soc_cache_maintain = (\<lambda>x sz ty w. (0, w))\<rparr>\<rparr>"

definition demo_imported :: obmm_import_region where
  "demo_imported = demo_ireg\<lparr>i_region := (i_region demo_ireg)\<lparr>mem_cap := 3\<rparr>, ubmem_res := 0,
     memdev_res := Some (Resource 0x40000000 0x401fffff (memdev_name 0) [])\<rparr>"

definition demo_import_state :: "unit pre_state" where
  "demo_import_state = snd (snd (the (prepare_import_memory demo_pre_env 7 demo_ireg (sys_st (pre_start ())))))"

lemma same_books_refl [simp]: "same_books st st"
  by (simp add: same_books_def)

lemma same_books_trans: "same_books st st1 \<Longrightarrow> same_books st1 st2 \<Longrightarrow> same_books st st2"
  by (simp add: same_books_def)

lemma same_books_upd [simp]: "same_books st (st1\<lparr>ubmems := u\<rparr>) = same_books st st1"
  "same_books st (st1\<lparr>kworld := w\<rparr>) = same_books st st1" "same_books st (st1\<lparr>next_ptr := n\<rparr>) = same_books st st1"
  by (simp_all add: same_books_def)

lemma ireg_self [simp]: "\<exists>nd. i = i\<lparr>i_numa_id := nd\<rparr>" "\<exists>m. i = i\<lparr>memdev_res := m\<rparr>"
  by (rule exI [of _ "i_numa_id i"], simp) (rule exI [of _ "memdev_res i"], simp)

lemma hotplug_books:
  "add_memory_remote env nd a sz fl u st = (ret, st') \<Longrightarrow> same_books st st'"
  "remove_memory_remote env nd a sz u st = (ret, st') \<Longrightarrow> same_books st st'"
  by (auto simp: add_memory_remote_def remove_memory_remote_def Let_def split: prod.splits)

lemma recover_books: "recover_resource u ret st = Some (ret', st') \<Longrightarrow> same_books st st'"
  by (auto simp: recover_resource_def)

lemma teardown_numa_books:
  assumes "teardown_remote_numa env i force st = Some (ret, st')"
  shows "same_books st st'"
proof -
  let ?u = "ubmem_res i"
  obtain r ub where l: "lock_save_memdev_descendents (the (ubmems st ?u)) = Some (r, ub)"
    using assms by (auto simp: teardown_remote_numa_def Let_def split: option.splits)
  let ?st1 = "st\<lparr>ubmems := (ubmems st)(?u \<mapsto> ub)\<rparr>"
  obtain r2 st2 where m: "remove_memory_remote env (i_numa_id i) (i_pa i) (i_size i) ?u ?st1 = (r2, st2)" by fastforce
  obtain r3 st3 where a: "add_memory_remote env (i_numa_id i) (i_pa i) (i_size i) MEMORY_KEEP_ISOLATED ?u st2 = (r3, st3)" by fastforce
  have 2: "same_books st st2" using hotplug_books(2) [OF m] by (simp add: same_books_def)
  have 3: "same_books st st3" by (rule same_books_trans [OF 2 hotplug_books(1) [OF a]])
  show ?thesis using assms l m a 2 3
    by (auto simp: teardown_remote_numa_def Let_def split: if_splits dest!: recover_books intro: same_books_trans)
qed

lemma setup_numa_books:
  assumes "setup_remote_numa env i st = Some (ret, i', st')"
  shows "same_books st st'" "\<exists>nd. i' = i\<lparr>i_numa_id := nd\<rparr>"
proof -
  let ?fl = "if region_preimport (i_region i) then MEMORY_NO_FLAGS else MEMORY_DIRECT_ONLINE"
  obtain r1 st1 where a: "add_memory_remote env (i_numa_id i) (i_pa i) (i_size i) ?fl (ubmem_res i) st = (r1, st1)" by fastforce
  obtain r2 w where d: "obmm_set_numa_distance env (i_scna i) r1 (i_base_dist i) (kworld st1) = (r2, w)" by fastforce
  have 1: "same_books st st1" by (rule hotplug_books(1) [OF a])
  have t: "same_books st st3" if "teardown_remote_numa env j True (st1\<lparr>kworld := w\<rparr>) = Some (r, st3)" for j r st3
    using teardown_numa_books [OF that] 1 by (simp add: same_books_def)
  show "same_books st st'" "\<exists>nd. i' = i\<lparr>i_numa_id := nd\<rparr>"
    using assms a d 1 by (auto simp: setup_remote_numa_def Let_def split: if_splits dest!: t)
qed

lemma setup_iomem_books:
  assumes "setup_iomem_resource env i st = (ret, i', st')"
  shows "same_books st st'" "\<exists>m. i' = i\<lparr>memdev_res := m\<rparr>"
  using assms by (auto simp: setup_iomem_resource_def Let_def split: prod.splits sum.splits)

lemma teardown_iomem_books: "teardown_iomem_resource i st = (ret, st') \<Longrightarrow> same_books st st'"
  by (auto simp: teardown_iomem_resource_def Let_def split: prod.splits)

section \<open>Taking and giving back addresses\<close>

lemma commit_fail_pprs:
  assumes reg: "reg_inv (memory_block_size_bytes env) st"
    and c: "preimport_commit_prefilled env a b dp st = (ret, out, st')" "ret \<noteq> 0"
  shows "same_books st st'"
proof -
  obtain r ho st1 where g: "get_ppr a st = (r, ho, st1)" by (metis prod_cases3)
  show ?thesis
  proof (cases "r = 0")
    case False
    then have "st1 = st" using g by (auto simp: get_ppr_def Let_def split: prod.splits if_splits)
    then show ?thesis using c g False by (simp add: preimport_commit_prefilled_def)
  next
    case True
    obtain mo where m: "get_pa_mapping a st = (0, mo)"
      using g True by (auto simp: get_ppr_def Let_def split: prod.splits if_splits)
    obtain k p where k: "mo = Some k" "pprs st k = Some p" using get_pa_mappingD [OF reg m] by blast
    have "get_ppr a st = (0, Some k, set_ppr k (p\<lparr>pr := (pr p)\<lparr>use_count := use_count (pr p) + 1\<rparr>\<rparr>) st)"
      using m k by (simp add: get_ppr_def Let_def)
    then have "st' = put_ppr k (set_ppr k (p\<lparr>pr := (pr p)\<lparr>use_count := use_count (pr p) + 1\<rparr>\<rparr>) st)"
      using c by (auto simp: preimport_commit_prefilled_def Let_def split: if_splits prod.splits)
    then show ?thesis using k(2) by (simp add: same_books_def put_ppr_def set_ppr_def Let_def fun_upd_idem)
  qed
qed

text \<open>A validated import has a range that does not wrap.\<close>

lemma validated_range:
  assumes "validate_import_region i"
  shows "i_pa i \<le> i_pa i + i_size i - 1"
proof -
  have s: "i_size i \<noteq> 0" and le: "i_pa i \<le> i_pa i + i_size i"
    using assms by (auto simp: validate_import_region_def validate_pa_range_def not_less)
  have "unat (i_pa i + i_size i) = unat (i_pa i) + unat (i_size i)"
    using le u64_lt [of "i_size i"] by (simp add: word_le_nat_alt unat_plus_if_size word_size split: if_splits)
  moreover have "0 < unat (i_size i)" using s by (simp add: unat_gt_0)
  moreover have "unat (i_pa i + i_size i - 1) = unat (i_pa i + i_size i) - 1"
    using calculation by (subst unat_minus_one) auto
  ultimately show ?thesis by (simp add: word_le_nat_alt)
qed

lemma taken_books: "taken env h i st st1 \<Longrightarrow> same_books st1 st2 \<Longrightarrow> taken env h i st st2"
  by (auto simp: taken_def same_books_def)

lemma undo_taken:
  assumes reg: "reg_inv (memory_block_size_bytes env) st" and v: "i_pa i \<le> i_pa i + i_size i - 1" and t: "taken env h i st st1"
    and tp: "teardown_pa env i st1 = (ret, st2)" and fr: "free_addr_range h i st2 = (ret', st3)"
  shows "covering (checker st3) = covering (checker st) \<and> pprs st3 = pprs st \<and> ret' = 0"
proof (cases "region_preimport (i_region i)")
  case True
  then obtain nd g dp stc where c: "preimport_commit_prefilled env (i_pa i) (i_pa i + i_size i - 1) dp st = (0, Some (nd, g), stc)"
    "preimport_handle i = Some g" "pprs st1 = pprs stc" "checker st1 = checker st"
    using t by (auto simp: taken_def)
  then have "st2 = st1\<lparr>pprs := pprs st\<rparr>"
    using commit_undo(2) [OF reg v c(1,3)] tp True by (simp add: teardown_pa_def)
  then show ?thesis using fr True c(4) by (auto simp: free_addr_range_def)
next
  case False
  then obtain al where o: "occupy_pa_range al (import_pa_range h i) (checker st) = (0, checker st1)" "pprs st1 = pprs st"
    using t by (auto simp: taken_def)
  have b: "same_books st1 st2" using tp False by (auto simp: teardown_pa_def Let_def split: prod.splits)
  then have "(ret', checker st3) = free_pa_range (import_pa_range h i) (checker st1)" "pprs st3 = pprs st1"
    using fr False by (auto simp: free_addr_range_def free_range_def same_books_def Let_def split: prod.splits)
  moreover have "fst (free_pa_range (import_pa_range h i) (checker st1)) = 0
      \<and> covering (snd (free_pa_range (import_pa_range h i) (checker st1))) = covering (checker st)"
    using pa.occ_rel [OF reg_invD(1) [OF reg] o(1)] by blast
  ultimately show ?thesis using o(2) by (metis fst_conv snd_conv)
qed

lemma same_import_validated: "same_import i i' \<Longrightarrow> validate_import_region i \<Longrightarrow> i_pa i' \<le> i_pa i' + i_size i' - 1"
  using validated_range [of i] by (simp add: same_import_def)

lemma occupy_setup_taken:
  assumes reg: "reg_inv (memory_block_size_bytes env) st" and v: "validate_import_region i"
    and o: "occupy_addr_range env h i st = (0, st1)"
    and s: "setup_pa env i st1 = (ret, i1, st2)"
  shows "same_import i i1" "ret = 0 \<Longrightarrow> taken env h i1 st st2"
    "ret \<noteq> 0 \<Longrightarrow> free_addr_range h i1 st2 = (ret', st3) \<Longrightarrow>
       ret' = 0 \<and> covering (checker st3) = covering (checker st) \<and> pprs st3 = pprs st"
proof -
  show si: "same_import i i1"
    using s by (auto simp: setup_pa_def Let_def same_import_def split: if_splits prod.splits sum.splits)
  then have pre: "region_preimport (i_region i1) = region_preimport (i_region i)"
    by (simp add: region_preimport_def same_import_def)
  have pr: "import_pa_range h i1 = import_pa_range h i" using si by (simp add: import_pa_range_def same_import_def)
  show "taken env h i1 st st2" if r: "ret = 0"
  proof (cases "region_preimport (i_region i)")
    case True
    let ?b = "i_pa i + i_size i - 1" and ?dp = "set_import_region_datapath (i\<lparr>i_region := (i_region i)\<lparr>mem_cap := get_pa_range_mem_cap env (i_scna i) (i_pa i) (i_size i)\<rparr>\<rparr>)"
    obtain rt out where c: "preimport_commit_prefilled env (i_pa i) ?b ?dp st = (rt, out, st2)" and rt: "rt = 0"
      and hd: "preimport_handle i1 = Some (snd (the out))"
      using o s r True by (auto simp: occupy_addr_range_def setup_pa_def Let_def region_preimport_def split: if_splits prod.splits)
    obtain nd g where out: "out = Some (nd, g)"
      using c rt by (auto simp: preimport_commit_prefilled_def Let_def split: if_splits prod.splits)
    have b: "i_pa i \<le> ?b" by (rule validated_range [OF v])
    have "checker st2 = checker st"
      using commit_undo(1) [OF reg b c [unfolded rt out]] by (metis pre_state.select_convs(1) pre_state.surjective pre_state.update_convs(2))
    then show ?thesis using True pre si c rt out hd by (auto simp: taken_def same_import_def)
  next
    case False
    have "same_books st1 st2" using s False
      by (auto simp: setup_pa_def Let_def region_preimport_def split: if_splits prod.splits sum.splits)
    then show ?thesis using o False pre pr
      by (auto simp: taken_def occupy_addr_range_def occupy_range_def same_books_def Let_def split: prod.splits)
  qed
  show "ret' = 0 \<and> covering (checker st3) = covering (checker st) \<and> pprs st3 = pprs st"
    if r: "ret \<noteq> 0" and f: "free_addr_range h i1 st2 = (ret', st3)"
  proof (cases "region_preimport (i_region i)")
    case True
    have "same_books st st2" using o s r True commit_fail_pprs [OF reg]
      by (fastforce simp: occupy_addr_range_def setup_pa_def Let_def region_preimport_def split: if_splits prod.splits)
    then show ?thesis using f True pre by (auto simp: free_addr_range_def same_books_def)
  next
    case False
    have b: "same_books st1 st2" using s False
      by (auto simp: setup_pa_def Let_def region_preimport_def split: if_splits prod.splits sum.splits)
    obtain al where "occupy_pa_range al (import_pa_range h i) (checker st) = (0, checker st1)" "pprs st1 = pprs st"
      using o False by (auto simp: occupy_addr_range_def occupy_range_def Let_def split: prod.splits)
    then show ?thesis using f False pre pr b pa.occ_rel [OF reg_invD(1) [OF reg]]
      by (fastforce simp: free_addr_range_def free_range_def same_books_def Let_def split: prod.splits)
  qed
qed

lemma numa_step_books:
  assumes "(if region_numa_remote (i_region i) then setup_remote_numa env i st else Some (0, i\<lparr>i_numa_id := NUMA_NO_NODE\<rparr>, st))
      = Some (ret, i', st')"
  shows "same_books st st'" "\<exists>nd. i' = i\<lparr>i_numa_id := nd\<rparr>"
  using assms setup_numa_books [of env i st ret i' st'] by (auto split: if_splits)

lemma taken_numa [simp]: "taken env h (i\<lparr>i_numa_id := nd\<rparr>) st st' = taken env h i st st'"
  "taken env h (i\<lparr>memdev_res := m\<rparr>) st st' = taken env h i st st'"
  by (simp_all add: taken_def import_pa_range_def)

lemma same_import_numa [simp]: "same_import i (i'\<lparr>i_numa_id := nd\<rparr>) = same_import i i'"
  "same_import i (i'\<lparr>memdev_res := m\<rparr>) = same_import i i'"
  by (simp_all add: same_import_def)

lemma undo_pa_restores:
  assumes reg: "reg_inv (memory_block_size_bytes env) st" and v: "validate_import_region i" "same_import i i1"
    and t: "taken env h i1 st st1" and u: "undo_pa env h ret i1 st1 = (ret', i2, st2)" and r: "ret \<noteq> 0"
  shows "ret' \<noteq> 0 \<and> covering (checker st2) = covering (checker st) \<and> pprs st2 = pprs st"
proof -
  obtain r1 sa where a: "teardown_pa env i1 st1 = (r1, sa)" by fastforce
  obtain r2 sb where b: "free_addr_range h i1 sa = (r2, sb)" by fastforce
  show ?thesis using undo_taken [OF reg same_import_validated [OF v(2,1)] t a b] u r a b
    by (auto simp: undo_pa_def undo_addr_range_def Let_def split: if_splits)
qed

lemma prepare_books:
  assumes reg: "reg_inv (memory_block_size_bytes env) st" and v: "validate_import_region i"
    and p: "prepare_import_memory env h i st = Some (ret, i', st')"
  shows "ret = 0 \<Longrightarrow> taken env h i' st st' \<and> same_import i i'"
    and "ret \<noteq> 0 \<Longrightarrow> covering (checker st') = covering (checker st) \<and> pprs st' = pprs st"
proof -
  let ?fail = "ret \<noteq> 0 \<and> covering (checker st') = covering (checker st) \<and> pprs st' = pprs st"
  let ?good = "ret = 0 \<and> taken env h i' st st' \<and> same_import i i'"
  obtain r0 st1 where o: "occupy_addr_range env h i st = (r0, st1)" by fastforce
  obtain r1 i1 st2 where s: "setup_pa env i st1 = (r1, i1, st2)" by (metis prod_cases3)
  have "?fail \<or> ?good"
  proof (cases "validate_scna env (i_scna i) \<and> r0 = 0")
    case False
    have "r0 \<noteq> 0 \<Longrightarrow> same_books st st1"
      using o pa.occ_err by (fastforce simp: occupy_addr_range_def occupy_range_def same_books_def Let_def split: if_splits prod.splits)
    then show ?thesis using False p o
      by (cases "validate_scna env (i_scna i)") (auto simp: prepare_import_memory_def same_books_def)
  next
    case True
    note os = occupy_setup_taken [OF reg v o [unfolded conjunct2 [OF True]] s]
    show ?thesis
    proof (cases "r1 = 0")
      case False
      obtain rf st3 where f: "free_addr_range h i1 st2 = (rf, st3)" by fastforce
      show ?thesis using os(3) [OF False f] p True o s False f
        by (auto simp: prepare_import_memory_def undo_addr_range_def Let_def)
    next
      case r1: True
      obtain r2 i2 st3 where n: "(if region_numa_remote (i_region i1) then setup_remote_numa env i1 st2
          else Some (0, i1\<lparr>i_numa_id := NUMA_NO_NODE\<rparr>, st2)) = Some (r2, i2, st3)"
        using p True o s r1 by (auto simp: prepare_import_memory_def Let_def split: option.splits)
      note nb = numa_step_books [OF n]
      have t2: "taken env h i2 st st3" "same_import i i2" using os(1,2) r1 nb by (auto intro: taken_books)
      obtain r3 i3 st4 where m: "setup_iomem_resource env i2 st3 = (r3, i3, st4)" by (metis prod_cases3)
      note mb = setup_iomem_books [OF m]
      have t3: "taken env h i3 st st4" "same_import i i3" using t2 mb by (auto intro: taken_books)
      have q: "(if r2 \<noteq> 0 then Some (undo_pa env h r2 i2 st3)
           else if r3 \<noteq> 0 then undo_numa env h r3 i3 st4 else Some (0, i3, st4)) = Some (ret, i', st')"
        using p True o s r1 m n by (simp add: prepare_import_memory_def Let_def cong: if_cong)
      consider (a) "r2 \<noteq> 0" | (b) "r2 = 0" "r3 \<noteq> 0" | (c) "r2 = 0" "r3 = 0" by blast
      then show ?thesis
      proof cases
        case a
        then show ?thesis using q undo_pa_restores [OF reg v t2(2) t2(1)] by auto
      next
        case b
        then have q: "undo_numa env h r3 i3 st4 = Some (ret, i', st')" using q by simp
        show ?thesis
        proof (cases "region_numa_remote (i_region i3)")
          case False
          then show ?thesis using q b undo_pa_restores [OF reg v t3(2) t3(1)] by (auto simp: undo_numa_def)
        next
          case True
          then obtain rr st5 where td: "teardown_remote_numa env i3 True st4 = Some (rr, st5)"
            and u: "undo_pa env h (if rr \<noteq> 0 then - ENOTRECOVERABLE else r3) i3 st5 = (ret, i', st')"
            using q by (auto simp: undo_numa_def)
          show ?thesis using undo_pa_restores [OF reg v t3(2) taken_books [OF t3(1) teardown_numa_books [OF td]] u] b by auto
        qed
      next
        case c
        then show ?thesis using q t3 by simp
      qed
    qed
  qed
  then show "ret = 0 \<Longrightarrow> taken env h i' st st' \<and> same_import i i'"
    and "ret \<noteq> 0 \<Longrightarrow> covering (checker st') = covering (checker st) \<and> pprs st' = pprs st" by auto
qed

lemma redo_iomem_books: "redo_iomem env ret i st = (ret', i', st') \<Longrightarrow> ret \<noteq> 0 \<Longrightarrow> ret' \<noteq> 0 \<and> same_books st st'"
  by (auto simp: redo_iomem_def Let_def split: prod.splits if_splits dest: setup_iomem_books(1))

lemma redo_numa_books:
  assumes "redo_numa env nd ret i st = Some (ret', i', st')" "ret \<noteq> 0"
  shows "ret' \<noteq> 0 \<and> same_books st st'"
  using assms by (auto simp: redo_numa_def split: option.splits if_splits dest!: setup_numa_books(1) redo_iomem_books
    intro: same_books_trans)

lemma teardown_pa_fails:
  assumes reg: "reg_inv (memory_block_size_bytes env) st" and v: "i_pa i \<le> i_pa i + i_size i - 1"
    and t: "taken env h i st st1" and f: "teardown_pa env i st1 = (ret, st2)" "ret \<noteq> 0"
  shows "same_books st1 st2"
proof (cases "region_preimport (i_region i)")
  case True
  then obtain nd g dp stc where c: "preimport_commit_prefilled env (i_pa i) (i_pa i + i_size i - 1) dp st = (0, Some (nd, g), stc)"
    "preimport_handle i = Some g" "pprs st1 = pprs stc"
    using t by (auto simp: taken_def)
  then show ?thesis using commit_undo(2) [OF reg v c(1,3)] f True by (simp add: teardown_pa_def)
next
  case False
  then show ?thesis using f by (auto simp: teardown_pa_def Let_def split: prod.splits)
qed

lemma release_books:
  assumes reg: "reg_inv (memory_block_size_bytes (pre_e env)) st" and v: "i_pa i \<le> i_pa i + i_size i - 1"
    and t: "taken (pre_e env) h i st st1" and r: "release_import_memory env h i st1 = Some (ret, i', st')"
  shows "if ret = 0 then covering (checker st') = covering (checker st) \<and> pprs st' = pprs st else same_books st1 st'"
proof -
  let ?e = "pre_e env"
  obtain r1 s1 where 1: "teardown_iomem_resource i st1 = (r1, s1)" by fastforce
  note b1 = teardown_iomem_books [OF 1]
  show ?thesis
  proof (cases "r1 = 0")
    case False
    then show ?thesis using r 1 b1 by (simp add: release_import_memory_def)
  next
    case r1: True
    obtain r2 s2 where 2: "(if region_numa_remote (i_region i) then teardown_remote_numa ?e i False s1 else Some (0, s1)) = Some (r2, s2)"
      using r 1 r1 by (cases "if region_numa_remote (i_region i) then teardown_remote_numa ?e i False s1 else Some (0, s1)") (auto simp: release_import_memory_def Let_def)
    have b2: "same_books st1 s2" using 2 b1 by (auto split: if_splits dest!: teardown_numa_books intro: same_books_trans)
    show ?thesis
    proof (cases "r2 = 0")
      case False
      then show ?thesis using r 1 r1 2 b2
        by (auto simp: release_import_memory_def Let_def dest!: redo_iomem_books intro: same_books_trans)
    next
      case r2: True
      obtain r3 w where 3: "flush_import_region env i 0 (i_size i) OBMM_SHM_CACHE_INVAL (kworld s2) = Some (r3, w)"
        using r 1 r1 2 r2 by (cases "flush_import_region env i 0 (i_size i) OBMM_SHM_CACHE_INVAL (kworld s2)") (auto simp: release_import_memory_def Let_def)
      let ?s3 = "s2\<lparr>kworld := w\<rparr>"
      have b3: "same_books st1 ?s3" using b2 by simp
      obtain r4 s4 where 4: "teardown_pa ?e i ?s3 = (r4, s4)" by fastforce
      obtain r5 s5 where 5: "free_addr_range h i s4 = (r5, s5)" by fastforce
      note u = undo_taken [OF reg v taken_books [OF t b3] 4 5]
      have q: "(if r3 \<noteq> 0 then redo_numa ?e (i_numa_id i) r3 i ?s3
           else if r4 \<noteq> 0 then redo_numa ?e (i_numa_id i) r4 i s4 else Some (0, i, s5)) = Some (ret, i', st')"
        using r 1 r1 2 r2 3 4 5 u by (simp add: release_import_memory_def Let_def cong: if_cong)
      have b4: "same_books ?s3 s4" if "r4 \<noteq> 0"
        by (rule teardown_pa_fails [OF reg v taken_books [OF t b3] 4 that])
      have redo: "ret \<noteq> 0 \<and> same_books sx st'" if "redo_numa ?e (i_numa_id i) rx i sx = Some (ret, i', st')" "rx \<noteq> 0" for rx sx
        by (rule redo_numa_books [OF that])
      consider "r3 \<noteq> 0" | "r3 = 0" "r4 \<noteq> 0" | "r3 = 0" "r4 = 0" by blast
      then show ?thesis
      proof cases
        case 1
        then show ?thesis using q redo [of r3 ?s3] same_books_trans [OF b3] by simp
      next
        case 2
        then show ?thesis using q redo [of r4 s4] same_books_trans [OF same_books_trans [OF b3 b4 [OF 2(2)]]] by simp
      next
        case 3
        then show ?thesis using q u by simp
      qed
    qed
  qed
qed

text \<open>C5: importing takes its addresses completely or not at all. When preparing an import fails, at whatever
  step and whatever the roll back reports, every address belongs to whom it belonged before and no block of a
  pre-imported range stays taken. When it succeeds, either the blocks are committed, or every address of the range
  was free and now belongs to the import.\<close>

theorem import_all_or_nothing:
  assumes "pre_reachable env s" "validate_import_region i"
    and "prepare_import_memory env h i (sys_st s) = Some (ret, i', st')"
  shows "if ret \<noteq> 0 then covering (checker st') = covering (checker (sys_st s)) \<and> pprs st' = pprs (sys_st s)
    else if region_preimport (i_region i)
    then checker st' = checker (sys_st s)
       \<and> (\<exists>nd g dp stc. preimport_commit_prefilled env (i_pa i) (i_pa i + i_size i - 1) dp (sys_st s) = (0, Some (nd, g), stc)
            \<and> preimport_handle i' = Some g \<and> pprs st' = pprs stc)
    else pprs st' = pprs (sys_st s)
       \<and> covering (checker st') = (\<lambda>x. if i_pa i \<le> x \<and> x \<le> i_pa i + i_size i - 1 then Some (import_pa_range h i)
            else covering (checker (sys_st s)) x)
       \<and> (\<forall>x. i_pa i \<le> x \<longrightarrow> x \<le> i_pa i + i_size i - 1 \<longrightarrow> covering (checker (sys_st s)) x = None)"
proof -
  have reg: "reg_inv (memory_block_size_bytes env) (sys_st s)" using pre_reachable_inv [OF assms(1)] by (simp add: pre_inv_def)
  note p = prepare_books [OF reg assms(2,3)]
  show ?thesis
  proof (cases "ret = 0")
    case False
    then show ?thesis using p(2) by simp
  next
    case True
    then have t: "taken env h i' (sys_st s) st'" and si: "same_import i i'" using p(1) by auto
    have pre: "region_preimport (i_region i') = region_preimport (i_region i)"
      using si by (simp add: region_preimport_def same_import_def)
    have e: "i_pa i' = i_pa i" "i_size i' = i_size i" "import_pa_range h i' = import_pa_range h i"
      using si by (simp_all add: same_import_def import_pa_range_def)
    show ?thesis
    proof (cases "region_preimport (i_region i)")
      case pr: True
      then show ?thesis using t True pre e by (simp add: taken_def)
    next
      case False
      then obtain al where o: "occupy_pa_range al (import_pa_range h i) (checker (sys_st s)) = (0, checker st')" "pprs st' = pprs (sys_st s)"
        using t pre e by (auto simp: taken_def)
      show ?thesis using pa.occ_ok [OF reg_invD(1) [OF reg] o(1)] o(2) True False by (simp add: import_pa_range_def)
    qed
  qed
qed


lemmas demo_import_defs = demo_ireg_def demo_pre_env_def demo_refusing_env_def pre_start_def zeroed_i_reg_def zeroed_region_def
  region_preimport_def region_numa_remote_def

lemma demo_occupied:
  "env = demo_pre_env \<or> env = demo_refusing_env \<Longrightarrow>
   occupy_addr_range env 7 demo_ireg (sys_st (pre_start ())) = (0, sys_st (pre_start ())\<lparr>checker :=
     \<lparr>pa_ranges = [(0x40000000, 0x401fffff, import_pa_range 7 demo_ireg)]\<rparr>\<rparr>)"
  by (auto simp: occupy_addr_range_def demo_import_defs occupy_range_def import_pa_range_def occupy_pa_range_def
    mtree_insert_range_def module_addr_check_init_def)

lemma demo_refused:
  "prepare_import_memory demo_refusing_env 7 demo_ireg (sys_st (pre_start ()))
     = Some (- EINVAL, demo_ireg, sys_st (pre_start ()))"
  by (simp add: prepare_import_memory_def demo_occupied)
    (simp add: demo_import_defs validate_scna_def setup_pa_def get_pa_range_mem_cap_def undo_addr_range_def free_addr_range_def
      free_range_def import_pa_range_def free_pa_range_def mtree_erase_def mt_find_def in_range_def is_same_pa_range_def Let_def
      module_addr_check_init_def)

lemma demo_prepared_import:
  "prepare_import_memory demo_pre_env 7 demo_ireg (sys_st (pre_start ())) = Some (0, demo_imported, demo_import_state)"
  by (simp add: demo_import_state_def prepare_import_memory_def demo_occupied)
    (simp add: demo_import_defs demo_imported_def validate_scna_def setup_pa_def get_pa_range_mem_cap_def
      setup_ubmem_resource_def setup_iomem_resource_def setup_memdev_resource_def request_resource_def Let_def)

lemma demo_ireg_valid: "validate_import_region demo_ireg"
  by (simp add: validate_import_region_def validate_pa_range_def demo_import_defs IS_ALIGNED_def)

theorem import_all_or_nothing_witness:
  "prepare_import_memory demo_refusing_env 7 demo_ireg (sys_st (pre_start ())) = Some (- EINVAL, demo_ireg, sys_st (pre_start ()))
   \<and> prepare_import_memory demo_pre_env 7 demo_ireg (sys_st (pre_start ())) = Some (0, demo_imported, demo_import_state)
   \<and> covering (checker demo_import_state) 0x40001000 = Some (import_pa_range 7 demo_ireg)
   \<and> covering (checker (sys_st (pre_start ()))) 0x40001000 = None"
  using import_all_or_nothing [OF pre_reachable.start demo_ireg_valid demo_refused]
    import_all_or_nothing [OF pre_reachable.start demo_ireg_valid demo_prepared_import] demo_refused demo_prepared_import
  by (simp add: demo_ireg_def zeroed_i_reg_def region_preimport_def fun_eq_iff)

lemma demo_released:
  "\<exists>i st. release_import_memory demo_coherent_env 7 demo_imported demo_import_state = Some (0, i, st)"
  by (simp add: demo_import_state_def prepare_import_memory_def demo_occupied)
    (simp add: demo_import_defs demo_imported_def validate_scna_def setup_pa_def get_pa_range_mem_cap_def
      setup_ubmem_resource_def setup_iomem_resource_def setup_memdev_resource_def request_resource_def Let_def
      release_import_memory_def teardown_iomem_resource_def release_memdev_resource_def release_resource_def
      demo_coherent_env_def demo_obmm_env_def flush_import_region_def flush_cache_by_pa_def teardown_pa_def
      release_ubmem_resource_def free_addr_range_def
      free_range_def import_pa_range_def free_pa_range_def mtree_erase_def mt_find_def in_range_def is_same_pa_range_def)


end
