(* ===== verification/Obmm_Shm_Dev.thy ===== *)
theory Obmm_Shm_Dev
  imports Obmm_Import
begin

abbreviation (input) O_SYNC :: u32 where "O_SYNC \<equiv> 0x101000"

abbreviation (input) FMODE_READ :: u32 where "FMODE_READ \<equiv> 0x1"

abbreviation (input) FMODE_WRITE :: u32 where "FMODE_WRITE \<equiv> 0x2"

abbreviation (input) VM_MAYSHARE :: u64 where "VM_MAYSHARE \<equiv> 0x80"

abbreviation (input) VM_PFNMAP :: u64 where "VM_PFNMAP \<equiv> 0x400"

abbreviation (input) VM_LOCKED :: u64 where "VM_LOCKED \<equiv> 0x2000"

abbreviation (input) VM_IO :: u64 where "VM_IO \<equiv> 0x4000"

abbreviation (input) VM_DONTCOPY :: u64 where "VM_DONTCOPY \<equiv> 0x20000"

abbreviation (input) VM_DONTEXPAND :: u64 where "VM_DONTEXPAND \<equiv> 0x40000"

abbreviation (input) VM_FAULT_SIGBUS :: u32 where "VM_FAULT_SIGBUS \<equiv> 0x2"

abbreviation (input) OBMM_UPDATE_VM_FLAGS_MASK :: u64 where
  "OBMM_UPDATE_VM_FLAGS_MASK \<equiv> VM_READ OR VM_WRITE OR VM_MAYREAD OR VM_MAYWRITE"

text \<open>The entries of the two lowest levels of a page table: absent, a page (frame, protection, the
  \<open>special\<close> mark), or at the upper level a table of pages.\<close>

datatype pte_entry = Pte_None | Pte_Page u64 pgprot bool

datatype pmd_entry = Pmd_None | Pmd_Leaf u64 pgprot bool | Pmd_Table

text \<open>The kernel services that this file uses in addition: the page table walk, which applies the two
  given functions to the entries of an address range (the upper one also tells whether to go on
  below it), the memory for a split, the table lookups of a single address, temporary kernel mappings,
  and the invalidation of translations.\<close>

record ('k, 'w) shm_env =
  core_e :: "('k, 'w) obmm_env"
  map_e :: "'w map_env"
  walk_page_range :: "u64 \<Rightarrow> u64 \<Rightarrow> (pmd_entry \<Rightarrow> pmd_entry \<times> bool) \<Rightarrow> (pte_entry \<Rightarrow> pte_entry) \<Rightarrow> 'w \<Rightarrow> int \<times> 'w"
  split_alloc :: "'w \<Rightarrow> int \<times> 'w"
  upper_tables_ok :: "u64 \<Rightarrow> 'w \<Rightarrow> bool"
  pmd_at :: "u64 \<Rightarrow> 'w \<Rightarrow> pmd_entry"
  pmd_usable :: "u64 \<Rightarrow> 'w \<Rightarrow> bool"
  follow_pte :: "u64 \<Rightarrow> 'w \<Rightarrow> u64 option"
  pfn_valid :: "u64 \<Rightarrow> bool"
  kernel_map :: "obmm_region_type \<Rightarrow> u64 \<Rightarrow> 'w \<Rightarrow> bool \<times> 'w"
  copy_mc :: "bool \<Rightarrow> u64 \<Rightarrow> nat \<Rightarrow> 'w \<Rightarrow> nat \<times> 'w"
  kernel_unmap :: "'w \<Rightarrow> 'w"
  obmm_flush_tlb :: "'w \<Rightarrow> 'w"

abbreviation scfg :: "('k, 'w) shm_env \<Rightarrow> mm_config" where "scfg env \<equiv> cfg (core_e env)"

abbreviation o_sync_file :: "shm_file \<Rightarrow> bool" where "o_sync_file f \<equiv> f_flags f AND O_SYNC \<noteq> 0"

text \<open>The region behind a mapping, its file's \<open>private_data\<close>.\<close>

abbreviation vma_region :: "vm_area \<Rightarrow> nat" where "vma_region v \<equiv> private_data (the (vm_file v))"

fun type_of :: "any_region \<Rightarrow> obmm_region_type" where
  "type_of (Import i) = OBMM_IMPORT_REGION"
| "type_of (Export e) = OBMM_EXPORT_REGION"

definition obmm_region_flush_range :: "('k, 'w) obmm_env \<Rightarrow> any_region \<Rightarrow> u64 \<Rightarrow> u64 \<Rightarrow> u8 \<Rightarrow> 'w \<Rightarrow> (int \<times> 'w) option" where
  "obmm_region_flush_range env r off len cache_ops w =
     (let reg = region_of r
      in if \<not> obmm_is_valid_cache_ops (ucast cache_ops) then Some (- EINVAL, w)
         else if off \<ge> mem_size reg \<or> len > mem_size reg - off
              \<or> \<not> IS_ALIGNED off (PAGE_SIZE (cfg env)) \<or> \<not> IS_ALIGNED len (PAGE_SIZE (cfg env)) then Some (- EINVAL, w)
         else if cache_ops = OBMM_SHM_CACHE_NONE then Some (0, w)
         else case r of Import i \<Rightarrow> flush_import_region env i off len (ucast cache_ops) w
                      | Export e \<Rightarrow> flush_export_region (cache_e env) e off len (ucast cache_ops) w)"

definition obmm_vma_open :: "vm_area \<Rightarrow> ('k, 'w) obmm_state \<Rightarrow> ('k, 'w) obmm_state" where
  "obmm_vma_open vma st = upd_reg (vma_region vma) (\<lambda>r. r\<lparr>mmap_count := mmap_count r + 1\<rparr>) st"

definition obmm_vma_close :: "('k, 'w) shm_env \<Rightarrow> vm_area \<Rightarrow> ('k, 'w) obmm_state \<Rightarrow> ('k, 'w) obmm_state option" where
  "obmm_vma_close env vma st =
     (let h = vma_region vma;
          access = vm_flags_to_access (vm_flags vma);
          region_pgoff = vm_pgoff vma;
          npages = drop_bit (PAGE_SHIFT (scfg env)) (vm_end vma - vm_start vma)
      in case update_vma_perm_count (scfg env) (reg_at st h) region_pgoff npages access OBMM_SHM_MEM_NO_ACCESS of
           None \<Rightarrow> None
         | Some (cache_ops, reg1) \<Rightarrow>
             let st1 = upd_reg h (\<lambda>_. reg1) st
             in case (if cache_ops \<noteq> OBMM_SHM_CACHE_NONE \<and> mmap_mode reg1 = OBMM_MMAP_NORMAL
                      then map_option snd (obmm_region_flush_range (core_e env) (the (objs st1 h))
                             (push_bit (PAGE_SHIFT (scfg env)) region_pgoff) (push_bit (PAGE_SHIFT (scfg env)) npages) cache_ops (kw st1))
                      else Some (kw st1)) of
                  None \<Rightarrow> None
                | Some w \<Rightarrow>
                    Some (upd_reg h (\<lambda>r. let n = mmap_count r - 1
                                         in r\<lparr>mmap_count := n, mmap_mode := (if n = 0 then OBMM_MMAP_INIT else mmap_mode r)\<rparr>)
                            (set_kw w st1)))"

definition obmm_vma_may_split :: "('k, 'w) shm_env \<Rightarrow> vm_area \<Rightarrow> u64 \<Rightarrow> ('k, 'w) obmm_state \<Rightarrow> int" where
  "obmm_vma_may_split env vma x st = (if \<not> obmm_is_aligned (scfg env) (reg_at st (vma_region vma)) x then - EINVAL else 0)"

definition obmm_vma_mremap :: "vm_area \<Rightarrow> int" where
  "obmm_vma_mremap vma = - EOPNOTSUPP"

definition obmm_vma_mprotect :: "vm_area \<Rightarrow> u64 \<Rightarrow> u64 \<Rightarrow> u64 \<Rightarrow> int" where
  "obmm_vma_mprotect vma start stop newflags = - EOPNOTSUPP"

definition obmm_vma_fault :: "u32" where
  "obmm_vma_fault = VM_FAULT_SIGBUS"

definition obmm_pagesize :: "('k, 'w) shm_env \<Rightarrow> vm_area \<Rightarrow> ('k, 'w) obmm_state \<Rightarrow> u64" where
  "obmm_pagesize env vma st =
     (if mmap_granu (reg_at st (vma_region vma)) = OBMM_MMAP_GRANU_PMD then PMD_SIZE (scfg env) else PAGE_SIZE (scfg env))"

text \<open>The kernel's split of a mapping at an address: it asks the driver, needs memory, and opens the new part.
  The two parts are the one below the address and the one from it on.\<close>

definition split_vma :: "('k, 'w) shm_env \<Rightarrow> vm_area \<Rightarrow> u64 \<Rightarrow> ('k, 'w) obmm_state
    \<Rightarrow> int \<times> vm_area \<times> vm_area \<times> ('k, 'w) obmm_state" where
  "split_vma env v x st =
     (let ret = obmm_vma_may_split env v x st
      in if ret \<noteq> 0 then (ret, v, v, st)
         else let (ret1, w) = split_alloc env (kw st); st1 = set_kw w st
              in if ret1 \<noteq> 0 then (ret1, v, v, st1)
                 else (0, v\<lparr>vm_end := x\<rparr>,
                       v\<lparr>vm_start := x, vm_pgoff := vm_pgoff v + drop_bit (PAGE_SHIFT (scfg env)) (x - vm_start v)\<rparr>,
                       obmm_vma_open v st1))"

definition obmm_lookup_pfn :: "('k, 'w) shm_env \<Rightarrow> u64 \<Rightarrow> 'w \<Rightarrow> int + u64" where
  "obmm_lookup_pfn env x w =
     (if \<not> upper_tables_ok env x w then Inl (- EINVAL)
      else case pmd_at env x w of
             Pmd_Leaf pfn prot special \<Rightarrow>
               (if \<not> pmd_usable env x w then Inl (- EINVAL)
                else Inr (pfn + drop_bit (PAGE_SHIFT (scfg env)) (take_bit (PMD_SHIFT (scfg env)) x)))
           | Pmd_None \<Rightarrow> Inl (- EINVAL)
           | Pmd_Table \<Rightarrow>
               (if \<not> pmd_usable env x w then Inl (- EINVAL)
                else case follow_pte env x w of None \<Rightarrow> Inl (- EINVAL) | Some pfn \<Rightarrow> Inr pfn))"

text \<open>The result is the number of bytes copied or an error; the second component tells how far a write went.\<close>

definition obmm_vma_access :: "('k, 'w) shm_env \<Rightarrow> vm_area \<Rightarrow> u64 \<Rightarrow> int \<Rightarrow> bool \<Rightarrow> ('k, 'w) obmm_state
    \<Rightarrow> int \<times> ('k, 'w) obmm_state" where
  "obmm_vma_access env vma x len0 write st =
     (let off = uint (take_bit (PAGE_SHIFT (scfg env)) x)
      in if vm_flags vma AND (VM_IO OR VM_PFNMAP) = 0 then (- EINVAL, st)
         else if vm_flags vma AND (VM_READ OR VM_WRITE) = 0 then (- EINVAL, st)
         else if write \<and> vm_flags vma AND VM_WRITE = 0 then (- EINVAL, st)
         else case obmm_lookup_pfn env x (kw st) of
                Inl _ \<Rightarrow> (- EINVAL, st)
              | Inr pfn \<Rightarrow>
                  let len = min len0 (uint (PAGE_SIZE (scfg env)) - off);
                      ty = type_of (the (objs st (vma_region vma)))
                  in if ty = OBMM_EXPORT_REGION \<and> \<not> pfn_valid env pfn then (- EINVAL, st)
                     else
                       let (mapped, w1) = kernel_map env ty pfn (kw st)
                       in if \<not> mapped then (- ENOMEM, set_kw w1 st)
                          else let (rest, w2) = copy_mc env write (push_bit (PAGE_SHIFT (scfg env)) pfn + word_of_int off) (nat len) w1
                               in (if rest \<noteq> 0 then - EFAULT else len, set_kw (kernel_unmap env w2) st))"

definition obmm_shm_fops_open :: "shm_file \<Rightarrow> ('k, 'w) obmm_state \<Rightarrow> int \<times> ('k, 'w) obmm_state" where
  "obmm_shm_fops_open f st =
     (let reg = reg_at st (private_data f); cacheable = (\<not> o_sync_file f)
      in if cacheable \<and> mem_cap reg AND OBMM_MEM_ALLOW_CACHEABLE_MMAP = 0 then (- EPERM, st)
         else if \<not> cacheable \<and> mem_cap reg AND OBMM_MEM_ALLOW_NONCACHEABLE_MMAP = 0 then (- EPERM, st)
         else let (got, st1) = try_get_obmm_region (Some (private_data f)) st
              in if got = None then (- EAGAIN, st1) else (0, st1))"

definition obmm_shm_fops_flush :: "shm_file \<Rightarrow> int" where
  "obmm_shm_fops_flush f = 0"

definition obmm_shm_fops_release :: "shm_file \<Rightarrow> ('k, 'w) obmm_state \<Rightarrow> int \<times> ('k, 'w) obmm_state" where
  "obmm_shm_fops_release f st = (0, put_obmm_region (Some (private_data f)) st)"

definition map_obmm_region :: "('k, 'w) shm_env \<Rightarrow> vm_area \<Rightarrow> any_region \<Rightarrow> obmm_mmap_granu \<Rightarrow> 'w \<Rightarrow> int \<times> 'w" where
  "map_obmm_region env vma r mg w =
     (case r of Import i \<Rightarrow> map_import_region (scfg env) (map_e env) vma i mg w
              | Export e \<Rightarrow> map_export_region (scfg env) (map_e env) vma e mg w)"

definition mem_state_to_pgprot :: "u8 \<Rightarrow> pgprot" where
  "mem_state_to_pgprot mem_state =
     \<lparr>access_of = (let a = mem_state AND OBMM_SHM_MEM_ACCESS_MASK
                   in if a = OBMM_SHM_MEM_READONLY then PAGE_READONLY
                      else if a = OBMM_SHM_MEM_READEXEC then PAGE_READONLY_EXEC
                      else if a = OBMM_SHM_MEM_READWRITE then PAGE_SHARED_WRITE
                      else PAGE_NONE),
      cache_of = (let c = mem_state AND OBMM_SHM_MEM_CACHE_MASK
                  in if c = OBMM_SHM_MEM_NORMAL_NC then PROT_NORMAL_NC
                     else if c = OBMM_SHM_MEM_DEVICE then PROT_DEVICE
                     else PROT_NORMAL)\<rparr>"

definition validate_perm :: "shm_file \<Rightarrow> u64 \<Rightarrow> bool" where
  "validate_perm f flags \<longleftrightarrow>
     \<not> ((flags AND VM_READ \<noteq> 0 \<and> f_mode f AND FMODE_READ = 0)
      \<or> (flags AND VM_WRITE \<noteq> 0 \<and> f_mode f AND FMODE_WRITE = 0)
      \<or> (flags AND VM_EXEC \<noteq> 0 \<and> f_mode f AND FMODE_READ = 0))"

definition vm_flags_set :: "u64 \<Rightarrow> vm_area \<Rightarrow> vm_area" where
  "vm_flags_set m v = v\<lparr>vm_flags := vm_flags v OR m\<rparr>"

definition vm_flags_clear :: "u64 \<Rightarrow> vm_area \<Rightarrow> vm_area" where
  "vm_flags_clear m v = v\<lparr>vm_flags := vm_flags v AND NOT m\<rparr>"

text \<open>The two allocations of \<open>init_ownership_info\<close>, made only when the array is not there yet.\<close>

definition init_ownership :: "('k, 'w) shm_env \<Rightarrow> nat \<Rightarrow> ('k, 'w) obmm_state \<Rightarrow> int \<times> ('k, 'w) obmm_state" where
  "init_ownership env h st =
     (let reg = reg_at st h;
          needed = (ownership_info reg = None \<and> mmap_granu reg \<noteq> OBMM_MMAP_GRANU_NONE);
          (ok1, w1) = (if needed then alloc_ok (pre_e (core_e env)) (kw st) else (False, kw st));
          (ok2, w2) = (if needed \<and> ok1 then alloc_ok (pre_e (core_e env)) w1 else (False, w1));
          (ret, reg1) = init_ownership_info (scfg env) ok1 ok2 reg
      in (ret, upd_reg h (\<lambda>_. reg1) (set_kw w2 st)))"

text \<open>The part of \<open>obmm_shm_fops_mmap\<close> under the region's lock, with the label that takes the mode back.\<close>

definition reset_cur_osync :: "nat \<Rightarrow> obmm_mmap_mode \<Rightarrow> ('k, 'w) obmm_state \<Rightarrow> ('k, 'w) obmm_state" where
  "reset_cur_osync h old_mmap_mode st =
     (if old_mmap_mode = OBMM_MMAP_INIT then upd_reg h (\<lambda>r. r\<lparr>mmap_mode := OBMM_MMAP_INIT\<rparr>) st else st)"

definition mmap_locked :: "('k, 'w) shm_env \<Rightarrow> shm_file \<Rightarrow> vm_area \<Rightarrow> obmm_mmap_granu \<Rightarrow> ('k, 'w) obmm_state
    \<Rightarrow> (int \<times> ('k, 'w) obmm_state) option" where
  "mmap_locked env f vma mg st =
     (let h = private_data f; o_sync = o_sync_file f; old_mmap_mode = mmap_mode (reg_at st h);
          inc = upd_reg h (\<lambda>r. r\<lparr>mmap_count := mmap_count r + 1\<rparr>)
      in if (o_sync \<and> old_mmap_mode = OBMM_MMAP_NORMAL) \<or> (\<not> o_sync \<and> old_mmap_mode = OBMM_MMAP_OSYNC) then Some (- EPERM, st)
         else
           let st1 = (if old_mmap_mode = OBMM_MMAP_INIT
                      then upd_reg h (\<lambda>r. r\<lparr>mmap_mode := (if o_sync then OBMM_MMAP_OSYNC else OBMM_MMAP_NORMAL)\<rparr>) st else st)
           in if mmap_mode (reg_at st1 h) = OBMM_MMAP_NORMAL then
                let (ret, st2) = init_ownership env h st1
                in if ret \<noteq> 0 then Some (ret, reset_cur_osync h old_mmap_mode st2)
                   else
                     let (ret1, w) = map_obmm_region env vma (the (objs st2 h)) mg (kw st2); st3 = set_kw w st2
                     in if ret1 \<noteq> 0 then Some (ret1, reset_cur_osync h old_mmap_mode st3)
                        else case update_vma_perm_count (scfg env) (reg_at st3 h) (vm_pgoff vma)
                                    (drop_bit (PAGE_SHIFT (scfg env)) (vm_end vma - vm_start vma))
                                    OBMM_SHM_MEM_NO_ACCESS (vm_flags_to_access (vm_flags vma)) of
                               None \<Rightarrow> None
                             | Some (_, reg1) \<Rightarrow> Some (0, inc (upd_reg h (\<lambda>_. reg1) st3))
              else
                let (ret1, w) = map_obmm_region env vma (the (objs st1 h)) mg (kw st1); st3 = set_kw w st1
                in if ret1 \<noteq> 0 then Some (ret1, reset_cur_osync h old_mmap_mode st3)
                   else Some (0, inc st3))"

definition obmm_shm_fops_mmap :: "('k, 'w) shm_env \<Rightarrow> shm_file \<Rightarrow> vm_area \<Rightarrow> ('k, 'w) obmm_state
    \<Rightarrow> (int \<times> vm_area \<times> ('k, 'w) obmm_state) option" where
  "obmm_shm_fops_mmap env f vma st =
     (let h = private_data f; reg = reg_at st h; c = scfg env
      in if vm_flags vma AND VM_MAYSHARE = 0 then Some (- EINVAL, vma, st)
         else if \<not> region_allow_mmap reg then Some (- EPERM, vma, st)
         else if \<not> validate_perm f (vm_flags vma) then Some (- EPERM, vma, st)
         else
           let sz = vm_end vma - vm_start vma;
               off0 = push_bit (PAGE_SHIFT c) (vm_pgoff vma);
               huge = (off0 AND OBMM_MMAP_FLAG_HUGETLB_PMD \<noteq> 0);
               off = (if huge then off0 AND NOT OBMM_MMAP_FLAG_HUGETLB_PMD else off0);
               mg = (if huge then OBMM_MMAP_GRANU_PMD else OBMM_MMAP_GRANU_PAGE);
               init_mmap_granu = mmap_granu reg;
               err_reset_mmap_granu = upd_reg h (\<lambda>r. r\<lparr>mmap_granu := init_mmap_granu\<rparr>)
           in if huge \<and> (\<not> IS_ALIGNED (vm_start vma) (PMD_SIZE c) \<or> \<not> IS_ALIGNED (vm_end vma) (PMD_SIZE c)) then Some (- EINVAL, vma, st)
              else if huge \<and> \<not> IS_ALIGNED off (PMD_SIZE c) then Some (- EINVAL, vma, st)
              else if init_mmap_granu \<noteq> OBMM_MMAP_GRANU_NONE \<and> init_mmap_granu \<noteq> mg then Some (- EPERM, vma, err_reset_mmap_granu st)
              else
                let st1 = (if init_mmap_granu = OBMM_MMAP_GRANU_NONE then upd_reg h (\<lambda>r. r\<lparr>mmap_granu := mg\<rparr>) st else st);
                    vma1 = vma\<lparr>vm_pgoff := drop_bit (PAGE_SHIFT c) off\<rparr>
                in if off \<ge> mem_size reg \<or> sz > mem_size reg - off then Some (- EINVAL, vma1, err_reset_mmap_granu st1)
                   else
                     let vma2 = vm_flags_set (VM_DONTCOPY OR VM_DONTEXPAND OR VM_LOCKED OR VM_PFNMAP) vma1;
                         mem_state = vm_flags_to_mem_state (vm_flags vma2) (\<not> o_sync_file f);
                         vma3 = vma2\<lparr>vm_page_prot := mem_state_to_pgprot mem_state\<rparr>
                     in case mmap_locked env f vma3 mg st1 of
                          None \<Rightarrow> None
                        | Some (ret, st2) \<Rightarrow>
                            if ret \<noteq> 0 then Some (ret, vma3, err_reset_mmap_granu st2)
                            else Some (0, vma3\<lparr>vm_ops := True\<rparr>, st2))"

record obmm_cmd_update_range =
  ur_start :: u64
  ur_end :: u64
  ur_mem_state :: u8
  ur_cache_ops :: u8

definition validate_update_info :: "mm_config \<Rightarrow> obmm_region \<Rightarrow> obmm_cmd_update_range \<Rightarrow> bool \<Rightarrow> bool" where
  "validate_update_info c reg u cacheable \<longleftrightarrow>
     (if \<not> cacheable then False
      else if ownership_info reg = None then False
      else if ur_start u \<ge> ur_end u then False
      else if \<not> obmm_is_aligned c reg (ur_start u) \<or> \<not> obmm_is_aligned c reg (ur_end u) then False
      else True)"

definition validate_state :: "u8 \<Rightarrow> bool" where
  "validate_state mem_state \<longleftrightarrow>
     (let cache = mem_state AND OBMM_SHM_MEM_CACHE_MASK; access = mem_state AND OBMM_SHM_MEM_ACCESS_MASK
      in if mem_state AND NOT (OBMM_SHM_MEM_CACHE_MASK OR OBMM_SHM_MEM_ACCESS_MASK) \<noteq> 0 then False
         else if cache = OBMM_SHM_MEM_CACHE_RESV then False
         else if access = OBMM_SHM_MEM_READEXEC \<and> (cache = OBMM_SHM_MEM_DEVICE \<or> cache = OBMM_SHM_MEM_NORMAL_NC) then False
         else if cache = OBMM_SHM_MEM_NORMAL_NC \<and> access \<noteq> OBMM_SHM_MEM_NO_ACCESS then False
         else True)"

definition validate_ownership_perm :: "shm_file \<Rightarrow> obmm_cmd_update_range \<Rightarrow> bool" where
  "validate_ownership_perm f u =
     (let access_param = ur_mem_state u AND OBMM_SHM_MEM_ACCESS_MASK
      in validate_perm f ((if access_param = OBMM_SHM_MEM_READONLY then VM_READ else 0)
           OR (if access_param = OBMM_SHM_MEM_READWRITE then VM_READ OR VM_WRITE else 0)
           OR (if access_param = OBMM_SHM_MEM_READEXEC then VM_READ OR VM_EXEC else 0)))"

text \<open>The functions that the walk applies to the entries; a page of the upper level is marked special, one of
  the lower level keeps its mark, and below a page of the upper level there is nothing to walk.\<close>

fun update_pmd_entry :: "pgprot \<Rightarrow> pmd_entry \<Rightarrow> pmd_entry \<times> bool" where
  "update_pmd_entry newprot Pmd_None = (Pmd_None, True)"
| "update_pmd_entry newprot (Pmd_Leaf pfn prot special) = (Pmd_Leaf pfn newprot True, False)"
| "update_pmd_entry newprot Pmd_Table = (Pmd_Table, True)"

fun update_pte_entry :: "pgprot \<Rightarrow> pte_entry \<Rightarrow> pte_entry" where
  "update_pte_entry newprot Pte_None = Pte_None"
| "update_pte_entry newprot (Pte_Page pfn prot special) = Pte_Page pfn newprot special"

definition update_vma_page_range :: "('k, 'w) shm_env \<Rightarrow> vm_area \<Rightarrow> u8 \<Rightarrow> 'w \<Rightarrow> int \<times> 'w" where
  "update_vma_page_range env vma mem_state w =
     (let prot = mem_state_to_pgprot mem_state
      in walk_page_range env (vm_start vma) (vm_end vma) (update_pmd_entry prot) (update_pte_entry prot) w)"

text \<open>The body of the loop of \<open>obmm_shm_update_range\<close> for a mapping that lies in the range (lines 769 to 814).\<close>

definition update_vma :: "('k, 'w) shm_env \<Rightarrow> nat \<Rightarrow> obmm_cmd_update_range \<Rightarrow> vm_area \<Rightarrow> ('k, 'w) obmm_state
    \<Rightarrow> (int \<times> vm_area \<times> ('k, 'w) obmm_state) option" where
  "update_vma env h u vma st =
     (let c = scfg env;
          new_access = ur_mem_state u AND OBMM_SHM_MEM_ACCESS_MASK;
          old_access = vm_flags_to_access (vm_flags vma);
          region_pgoff = vm_pgoff vma;
          npages = drop_bit (PAGE_SHIFT c) (vm_end vma - vm_start vma);
          vma1 = vma\<lparr>vm_private_data := vm_flags vma\<rparr>
      in case update_vma_perm_count c (reg_at st h) region_pgoff npages old_access new_access of
           None \<Rightarrow> None
         | Some (cache_ops, reg1) \<Rightarrow>
             let st1 = upd_reg h (\<lambda>_. reg1) st;
                 vma2 = vm_flags_set (access_to_vm_flags new_access AND OBMM_UPDATE_VM_FLAGS_MASK)
                          (vm_flags_clear OBMM_UPDATE_VM_FLAGS_MASK vma1);
                 vma3 = vma2\<lparr>vm_page_prot := mem_state_to_pgprot (ur_mem_state u)\<rparr>;
                 flush_op = (if ur_cache_ops u \<noteq> OBMM_SHM_CACHE_INFER then ur_cache_ops u
                             else if cache_ops \<noteq> OBMM_SHM_CACHE_NONE \<and> mmap_mode reg1 = OBMM_MMAP_NORMAL then cache_ops
                             else OBMM_SHM_CACHE_NONE)
             in case (if flush_op \<noteq> OBMM_SHM_CACHE_NONE
                      then obmm_region_flush_range (core_e env) (the (objs st1 h)) (push_bit (PAGE_SHIFT c) region_pgoff)
                             (push_bit (PAGE_SHIFT c) npages) flush_op (kw st1)
                      else Some (0, kw st1)) of
                  None \<Rightarrow> None
                | Some (ret, w) \<Rightarrow>
                    if ret \<noteq> 0 then Some (ret, vma3, set_kw w st1)
                    else let (ret1, w1) = update_vma_page_range env vma3 (ur_mem_state u) w
                         in Some (ret1, vma3, set_kw w1 st1))"

text \<open>The splits at the two ends of the range, where a mapping sticks out.\<close>

definition split_below :: "('k, 'w) shm_env \<Rightarrow> u64 \<Rightarrow> vm_area \<Rightarrow> ('k, 'w) obmm_state
    \<Rightarrow> int \<times> vm_area list \<times> vm_area \<times> ('k, 'w) obmm_state" where
  "split_below env cursor v st =
     (if vm_start v < cursor then let (r, lo, hi, s) = split_vma env v cursor st in (r, [lo], hi, s) else (0, [], v, st))"

definition split_above :: "('k, 'w) shm_env \<Rightarrow> u64 \<Rightarrow> vm_area \<Rightarrow> ('k, 'w) obmm_state
    \<Rightarrow> int \<times> vm_area \<times> vm_area list \<times> ('k, 'w) obmm_state" where
  "split_above env stop v st =
     (if vm_end v > stop then let (r, lo, hi, s) = split_vma env v stop st in (r, lo, [hi], s) else (0, v, [], st))"

text \<open>The loop over the mappings from the start of the range on.  The result is the error, the cursor, the end of
  what has been modified, and the mappings.  A part split off above starts at the end of the range, where the
  iteration stops.\<close>

fun update_loop :: "('k, 'w) shm_env \<Rightarrow> nat \<Rightarrow> obmm_cmd_update_range \<Rightarrow> u64 \<Rightarrow> u64 \<Rightarrow> vm_area list \<Rightarrow> ('k, 'w) obmm_state
    \<Rightarrow> (int \<times> u64 \<times> u64 \<times> vm_area list \<times> ('k, 'w) obmm_state) option" where
  "update_loop env h u cursor modified_end [] st = Some (0, cursor, modified_end, [], st)"
| "update_loop env h u cursor modified_end (v # vs) st =
     (if vm_start v \<ge> ur_end u then Some (0, cursor, modified_end, v # vs, st)
      else if vm_start v > cursor then Some (- EFAULT, cursor, modified_end, v # vs, st)
      else if \<not> vm_ops v \<or> vm_file v = None \<or> vma_region v \<noteq> h then Some (- EFAULT, cursor, modified_end, v # vs, st)
      else
        let (ret, below, v1, st1) = split_below env cursor v st
        in if ret \<noteq> 0 then Some (ret, cursor, modified_end, v # vs, st1)
           else
             let (ret1, v2, above, st2) = split_above env (ur_end u) v1 st1
             in if ret1 \<noteq> 0 then Some (ret1, cursor, modified_end, below @ v1 # vs, st2)
                else case update_vma env h u v2 st2 of
                       None \<Rightarrow> None
                     | Some (ret2, v3, st3) \<Rightarrow>
                         if ret2 \<noteq> 0 then Some (ret2, cursor, vm_end v3, below @ v3 # above @ vs, st3)
                         else if above \<noteq> [] then Some (0, vm_end v3, vm_end v3, below @ v3 # above @ vs, st3)
                         else map_option (\<lambda>(r, cur, m, ws, s). (r, cur, m, below @ v3 # ws, s))
                                (update_loop env h u (vm_end v3) (vm_end v3) vs st3))"

text \<open>The kernel's lookup of the first mapping that ends after an address.\<close>

fun find_vma :: "vm_area list \<Rightarrow> u64 \<Rightarrow> nat option" where
  "find_vma [] x = None"
| "find_vma (v # vs) x = (if x < vm_end v then Some 0 else map_option Suc (find_vma vs x))"

definition rollback_vma :: "('k, 'w) shm_env \<Rightarrow> nat \<Rightarrow> obmm_cmd_update_range \<Rightarrow> vm_area \<Rightarrow> ('k, 'w) obmm_state
    \<Rightarrow> (vm_area \<times> ('k, 'w) obmm_state) option" where
  "rollback_vma env h u vma st =
     (let c = scfg env;
          new_access = ur_mem_state u AND OBMM_SHM_MEM_ACCESS_MASK;
          old_vm_flags = vm_private_data vma;
          old_access = vm_flags_to_access old_vm_flags;
          npages = drop_bit (PAGE_SHIFT c) (vm_end vma - vm_start vma)
      in case update_vma_perm_count c (reg_at st h) (vm_pgoff vma) npages new_access old_access of
           None \<Rightarrow> None
         | Some (_, reg1) \<Rightarrow>
             let st1 = upd_reg h (\<lambda>_. reg1) st;
                 vma1 = vm_flags_set (old_vm_flags AND OBMM_UPDATE_VM_FLAGS_MASK) (vm_flags_clear OBMM_UPDATE_VM_FLAGS_MASK vma);
                 old_mem_state = old_access OR (ur_mem_state u AND OBMM_SHM_MEM_CACHE_MASK);
                 vma2 = vma1\<lparr>vm_page_prot := mem_state_to_pgprot old_mem_state\<rparr>;
                 (_, w) = update_vma_page_range env vma2 old_mem_state (kw st1)
             in Some (vma2, set_kw w st1))"

function rollback :: "('k, 'w) shm_env \<Rightarrow> nat \<Rightarrow> obmm_cmd_update_range \<Rightarrow> u64 \<Rightarrow> u64 \<Rightarrow> vm_area list \<Rightarrow> ('k, 'w) obmm_state
    \<Rightarrow> (vm_area list \<times> ('k, 'w) obmm_state) option" where
  "rollback env h u modified_end cursor mm st =
     (if \<not> cursor < modified_end then Some (mm, st)
      else case find_vma mm cursor of
             None \<Rightarrow> Some (mm, st)
           | Some k \<Rightarrow>
               if vm_start (mm ! k) > cursor then Some (mm, st)
               else case rollback_vma env h u (mm ! k) st of
                      None \<Rightarrow> None
                    | Some (v, st1) \<Rightarrow> rollback env h u modified_end (vm_end (mm ! k)) (mm[k := v]) st1)"
  by pat_completeness auto

termination
proof (relation "measure (\<lambda>(env, h, u, m, cursor, mm, st). 2 ^ 64 - unat cursor)", simp)
  have "find_vma mm x = Some k \<Longrightarrow> x < vm_end (mm ! k)" for mm x k
    by (induction mm x arbitrary: k rule: find_vma.induct) (auto split: if_splits)
  then show "((env, h, u, m, vm_end (mm ! k), mm[k := v], st1), (env, h, u, m, cursor, mm, st))
      \<in> measure (\<lambda>(env, h, u, m, cursor, mm, st). 2 ^ 64 - unat cursor)"
    if "find_vma mm cursor = Some k" for env :: "('k, 'w) shm_env" and h u m cursor mm and st st1 :: "('k, 'w) obmm_state" and k v
    using that u64_lt [of cursor] by (auto simp: word_less_nat_alt intro!: diff_less_mono2)
qed

definition obmm_shm_update_range :: "('k, 'w) shm_env \<Rightarrow> shm_file \<Rightarrow> obmm_cmd_update_range \<Rightarrow> vm_area list \<Rightarrow> ('k, 'w) obmm_state
    \<Rightarrow> (int \<times> vm_area list \<times> ('k, 'w) obmm_state) option" where
  "obmm_shm_update_range env f u mm st =
     (let h = private_data f; cacheable = (\<not> o_sync_file f)
      in if \<not> validate_update_info (scfg env) (reg_at st h) u cacheable then Some (- EINVAL, mm, st)
         else if \<not> validate_ownership_perm f u then Some (- EPERM, mm, st)
         else if \<not> validate_state (ur_mem_state u) then Some (- EINVAL, mm, st)
         else if ur_cache_ops u \<noteq> OBMM_SHM_CACHE_INFER \<and> \<not> obmm_is_valid_cache_ops (ucast (ur_cache_ops u)) then Some (- EINVAL, mm, st)
         else
           let before = takeWhile (\<lambda>v. vm_end v \<le> ur_start u) mm;
               rest = dropWhile (\<lambda>v. vm_end v \<le> ur_start u) mm
           in case update_loop env h u (ur_start u) (ur_start u) rest st of
                None \<Rightarrow> None
              | Some (ret, cursor, modified_end, rest1, st1) \<Rightarrow>
                  let ret1 = (if ret \<noteq> 0 then ret else if cursor < ur_end u then - EFAULT else 0);
                      mm1 = before @ rest1
                  in if ret1 = 0 then Some (0, mm1, set_kw (obmm_flush_tlb env (kw st1)) st1)
                     else case rollback env h u modified_end (ur_start u) mm1 st1 of
                            None \<Rightarrow> None
                          | Some (mm2, st2) \<Rightarrow> Some (ret1, mm2, set_kw (obmm_flush_tlb env (kw st2)) st2))"

text \<open>The ioctl of the device; \<open>arg\<close> is the command if it can be read from user memory.\<close>

definition obmm_shm_fops_ioctl :: "('k, 'w) shm_env \<Rightarrow> shm_file \<Rightarrow> bool \<Rightarrow> obmm_cmd_update_range option \<Rightarrow> vm_area list
    \<Rightarrow> ('k, 'w) obmm_state \<Rightarrow> (int \<times> vm_area list \<times> ('k, 'w) obmm_state) option" where
  "obmm_shm_fops_ioctl env f is_update_range arg mm st =
     (if is_update_range then
        (case arg of None \<Rightarrow> Some (- EFAULT, mm, st) | Some u \<Rightarrow> obmm_shm_update_range env f u mm st)
      else Some (- ENOTTY, mm, st))"

text \<open>The driver's state and the address spaces of the processes.  A step maps the device, splits or removes a
  mapping, changes access rights, or is one of a process that does not concern the driver.  A child does not
  inherit mappings of the driver (\<open>VM_DONTCOPY\<close>), so a new address space has none.\<close>

record ('k, 'w) shm_sys =
  sst :: "('k, 'w) obmm_state"
  mms :: "vm_area list list"

inductive shm_step :: "('k, 'w) shm_env \<Rightarrow> ('k, 'w) shm_sys \<Rightarrow> ('k, 'w) shm_sys \<Rightarrow> bool" for env where
  mmap: "p < length (mms s) \<Longrightarrow> mms s ! p = xs @ ys \<Longrightarrow> vm_file v = Some f \<Longrightarrow> objs (sst s) (private_data f) \<noteq> None \<Longrightarrow>
    obmm_shm_fops_mmap env f v (sst s) = Some (0, v', st') \<Longrightarrow>
    shm_step env s \<lparr>sst = st', mms = (mms s)[p := xs @ v' # ys]\<rparr>"
| mmap_error: "vm_file v = Some f \<Longrightarrow> objs (sst s) (private_data f) \<noteq> None \<Longrightarrow> obmm_shm_fops_mmap env f v (sst s) = Some (ret, v', st') \<Longrightarrow> ret \<noteq> 0 \<Longrightarrow>
    shm_step env s (s\<lparr>sst := st'\<rparr>)"
| munmap: "p < length (mms s) \<Longrightarrow> mms s ! p = xs @ v # ys \<Longrightarrow> vm_ops v \<Longrightarrow> obmm_vma_close env v (sst s) = Some st' \<Longrightarrow>
    shm_step env s \<lparr>sst = st', mms = (mms s)[p := xs @ ys]\<rparr>"
| split: "p < length (mms s) \<Longrightarrow> mms s ! p = xs @ v # ys \<Longrightarrow> vm_ops v \<Longrightarrow> split_vma env v x (sst s) = (ret, lo, hi, st') \<Longrightarrow>
    shm_step env s \<lparr>sst = st', mms = (if ret = 0 then (mms s)[p := xs @ lo # hi # ys] else mms s)\<rparr>"
| update_range: "p < length (mms s) \<Longrightarrow> objs (sst s) (private_data f) \<noteq> None \<Longrightarrow>
    obmm_shm_update_range env f u (mms s ! p) (sst s) = Some (ret, mm', st') \<Longrightarrow>
    shm_step env s \<lparr>sst = st', mms = (mms s)[p := mm']\<rparr>"
| other_map: "p < length (mms s) \<Longrightarrow> mms s ! p = xs @ ys \<Longrightarrow> \<not> vm_ops v \<Longrightarrow>
    shm_step env s (s\<lparr>mms := (mms s)[p := xs @ v # ys]\<rparr>)"
| other_unmap: "p < length (mms s) \<Longrightarrow> mms s ! p = xs @ v # ys \<Longrightarrow> \<not> vm_ops v \<Longrightarrow>
    shm_step env s (s\<lparr>mms := (mms s)[p := xs @ ys]\<rparr>)"
| new_process: "shm_step env s (s\<lparr>mms := mms s @ [[]]\<rparr>)"

text \<open>At the start no region is mapped, as \<open>obmm_shm_dev_add\<close> leaves them.\<close>

inductive shm_reachable :: "('k, 'w) shm_env \<Rightarrow> ('k, 'w) shm_sys \<Rightarrow> bool" for env where
  start: "(\<And>h r. objs st h = Some r \<Longrightarrow> mmap_count (region_of r) = 0 \<and> mmap_mode (region_of r) = OBMM_MMAP_INIT) \<Longrightarrow>
    shm_reachable env \<lparr>sst = st, mms = []\<rparr>"
| step: "shm_reachable env s \<Longrightarrow> shm_step env s s' \<Longrightarrow> shm_reachable env s'"

text \<open>The files behind the mappings of a region.\<close>

definition files_of :: "nat \<Rightarrow> vm_area list \<Rightarrow> shm_file list" where
  "files_of h vs = map (\<lambda>v. the (vm_file v)) (filter (\<lambda>v. vm_ops v \<and> vma_region v = h) vs)"

definition mapped_files :: "nat \<Rightarrow> ('k, 'w) shm_sys \<Rightarrow> shm_file list" where
  "mapped_files h s = files_of h (concat (mms s))"

text \<open>A region agrees with the files through which it is mapped.\<close>

definition region_agrees :: "obmm_region \<Rightarrow> shm_file list \<Rightarrow> bool" where
  "region_agrees reg fs \<longleftrightarrow>
     mmap_count reg = int (length fs)
   \<and> (mmap_mode reg = OBMM_MMAP_INIT \<longleftrightarrow> fs = [])
   \<and> (mmap_mode reg = OBMM_MMAP_NORMAL \<longrightarrow> (\<forall>f \<in> set fs. \<not> o_sync_file f))
   \<and> (mmap_mode reg = OBMM_MMAP_OSYNC \<longrightarrow> (\<forall>f \<in> set fs. o_sync_file f))"

definition shm_inv :: "('k, 'w) shm_sys \<Rightarrow> bool" where
  "shm_inv s \<longleftrightarrow> (\<forall>h r. objs (sst s) h = Some r \<longrightarrow> region_agrees (region_of r) (mapped_files h s))
     \<and> (\<forall>h. objs (sst s) h = None \<longrightarrow> mapped_files h s = [])"

text \<open>Only region \<open>h\<close> changes, its mappings become \<open>n\<close> more, and the mode of mapping stays.\<close>

definition counts :: "nat \<Rightarrow> int \<Rightarrow> ('k, 'w) obmm_state \<Rightarrow> ('k, 'w) obmm_state \<Rightarrow> bool" where
  "counts h n st st' \<longleftrightarrow>
     (\<forall>h'. h' \<noteq> h \<longrightarrow> objs st' h' = objs st h') \<and> (objs st' h = None \<longleftrightarrow> objs st h = None)
   \<and> mmap_count (reg_at st' h) = mmap_count (reg_at st h) + n \<and> mmap_mode (reg_at st' h) = mmap_mode (reg_at st h)"

text \<open>The loop keeps the files of the mappings, up to repetition, and counts the new ones.\<close>

definition same_files :: "nat \<Rightarrow> nat \<Rightarrow> vm_area list \<Rightarrow> vm_area list \<Rightarrow> bool" where
  "same_files h n vs ws \<longleftrightarrow> set (files_of h ws) = set (files_of h vs) \<and> length (files_of h ws) = length (files_of h vs) + n
     \<and> (\<forall>h'. h' \<noteq> h \<longrightarrow> files_of h' ws = files_of h' vs)"

text \<open>Mapping through a file: a failure changes neither the count nor the mode, a success adds one mapping and the mode is
  the file's.\<close>

definition mode_of_file :: "shm_file \<Rightarrow> obmm_mmap_mode" where
  "mode_of_file f = (if o_sync_file f then OBMM_MMAP_OSYNC else OBMM_MMAP_NORMAL)"

definition mapped_more :: "shm_file \<Rightarrow> ('k, 'w) obmm_state \<Rightarrow> ('k, 'w) obmm_state \<Rightarrow> bool" where
  "mapped_more f st st' \<longleftrightarrow>
     (\<forall>h'. h' \<noteq> private_data f \<longrightarrow> objs st' h' = objs st h') \<and> objs st' (private_data f) \<noteq> None
   \<and> mmap_count (reg_at st' (private_data f)) = mmap_count (reg_at st (private_data f)) + 1
   \<and> mmap_mode (reg_at st' (private_data f)) = mode_of_file f
   \<and> (mmap_mode (reg_at st (private_data f)) = OBMM_MMAP_INIT \<or> mmap_mode (reg_at st (private_data f)) = mode_of_file f)"

text \<open>Like \<open>counts\<close>, with the mode free.\<close>

definition counts_mode :: "nat \<Rightarrow> int \<Rightarrow> obmm_mmap_mode \<Rightarrow> ('k, 'w) obmm_state \<Rightarrow> ('k, 'w) obmm_state \<Rightarrow> bool" where
  "counts_mode h n md st st' \<longleftrightarrow>
     (\<forall>h'. h' \<noteq> h \<longrightarrow> objs st' h' = objs st h') \<and> objs st' h \<noteq> None
   \<and> mmap_count (reg_at st' h) = mmap_count (reg_at st h) + n \<and> mmap_mode (reg_at st' h) = md"

text \<open>What a change of access rights does to the counters of a region: a move is a range of entries and the old and the
  new right.\<close>

fun mv :: "nat \<times> nat \<times> u8 \<times> u8 \<Rightarrow> obmm_page_state list \<Rightarrow> obmm_page_state list" where
  "mv (i, n, a, b) ps = upd_range i n (page_count_update a b) ps"

fun mv_back :: "nat \<times> nat \<times> u8 \<times> u8 \<Rightarrow> nat \<times> nat \<times> u8 \<times> u8" where
  "mv_back (i, n, a, b) = (i, n, b, a)"

definition shifted :: "(nat \<times> nat \<times> u8 \<times> u8) list \<Rightarrow> obmm_region \<Rightarrow> obmm_region" where
  "shifted ms reg = reg\<lparr>ownership_info := map_option (\<lambda>ow. ow\<lparr>page_states := fold mv ms (page_states ow)\<rparr>) (ownership_info reg)\<rparr>"

definition vma_move :: "mm_config \<Rightarrow> obmm_mmap_granu \<Rightarrow> obmm_cmd_update_range \<Rightarrow> vm_area \<Rightarrow> nat \<times> nat \<times> u8 \<times> u8" where
  "vma_move c g u v = (unat (ownership_pgoff_to_index c (zeroed_region\<lparr>mmap_granu := g\<rparr>) (vm_pgoff v)),
     unat (ownership_size_to_nentries c (zeroed_region\<lparr>mmap_granu := g\<rparr>)
       (push_bit (PAGE_SHIFT c) (drop_bit (PAGE_SHIFT c) (vm_end v - vm_start v)))),
     vm_flags_to_access (vm_private_data v), ur_mem_state u AND OBMM_SHM_MEM_ACCESS_MASK)"

definition small_info :: "obmm_region \<Rightarrow> bool" where
  "small_info reg \<longleftrightarrow> (\<forall>ow. ownership_info reg = Some ow \<longrightarrow> length (page_states ow) < 2 ^ 64)"

text \<open>From one state to the next, region \<open>h\<close> got \<open>n\<close> more mappings and the moves \<open>ms\<close>.\<close>

definition moved :: "nat \<Rightarrow> nat \<Rightarrow> (nat \<times> nat \<times> u8 \<times> u8) list \<Rightarrow> ('k, 'w) obmm_state \<Rightarrow> ('k, 'w) obmm_state \<Rightarrow> bool" where
  "moved h n ms st st' \<longleftrightarrow> objs st' = objs (upd_reg h (\<lambda>r. (shifted ms r)\<lparr>mmap_count := mmap_count r + int n\<rparr>) st)"

text \<open>A well-formed address space: mappings are not empty, in order, and apart.\<close>

fun sorted_vmas :: "vm_area list \<Rightarrow> bool" where
  "sorted_vmas [] \<longleftrightarrow> True"
| "sorted_vmas (v # vs) \<longleftrightarrow> vm_start v < vm_end v \<and> (\<forall>w \<in> set vs. vm_end v \<le> vm_start w) \<and> sorted_vmas vs"

text \<open>What a process sees at an address: the flags of the mapping and what is mapped.\<close>

fun view :: "vm_area list \<Rightarrow> u64 \<Rightarrow> (u64 \<times> shm_file option \<times> bool) option" where
  "view [] x = None"
| "view (v # vs) x = (if vm_start v \<le> x \<and> x < vm_end v then Some (vm_flags v, vm_file v, vm_ops v) else view vs x)"

text \<open>Mappings that follow each other without a gap from one address to another.\<close>

fun chain :: "u64 \<Rightarrow> vm_area list \<Rightarrow> u64 \<Rightarrow> bool" where
  "chain x [] y \<longleftrightarrow> x = y"
| "chain x (v # vs) y \<longleftrightarrow> vm_start v = x \<and> x < vm_end v \<and> chain (vm_end v) vs y"

definition restore :: "vm_area \<Rightarrow> vm_area" where
  "restore v = v\<lparr>vm_flags := vm_private_data v\<rparr>"

text \<open>The saved flags differ from the current ones only where an update may write.\<close>

definition saved :: "vm_area \<Rightarrow> bool" where
  "saved v \<longleftrightarrow> vm_flags v AND NOT OBMM_UPDATE_VM_FLAGS_MASK = vm_private_data v AND NOT OBMM_UPDATE_VM_FLAGS_MASK"

text \<open>The state of a run of the loop over mappings that all start at the cursor or later: the first part of the result is
  what was modified, and undoing the flags there gives back what processes see.\<close>

definition loop_result :: "('k, 'w) shm_env \<Rightarrow> nat \<Rightarrow> obmm_cmd_update_range \<Rightarrow> u64 \<Rightarrow> vm_area list \<Rightarrow> ('k, 'w) obmm_state
    \<Rightarrow> u64 \<Rightarrow> vm_area list \<Rightarrow> ('k, 'w) obmm_state \<Rightarrow> bool" where
  "loop_result env h u cursor vs st m ws st' \<longleftrightarrow>
     (\<exists>mods post n. ws = mods @ post \<and> chain cursor mods m \<and> list_all saved mods \<and> view (map restore mods @ post) = view vs
        \<and> moved h n (map (vma_move (scfg env) (mmap_granu (reg_at st h)) u) mods) st st')"

text \<open>A mapped region of a given size, a platform on which huge mappings fail, and one on which the page
  table cannot be walked.\<close>

definition demo_shm_region :: "u64 \<Rightarrow> obmm_region" where
  "demo_shm_region sz = zeroed_region\<lparr>regionid := 1, reg_flags := OBMM_REGION_FLAG_ALLOW_MMAP, refcnt := 1, mem_size := sz, mem_cap := 3\<rparr>"

definition demo_shm_state :: "u64 \<Rightarrow> (u64 list \<times> u64 list, unit) obmm_state" where
  "demo_shm_state sz = (rst (reg_start demo_mempool (sys_st (pre_start ()))))\<lparr>objs := [0 \<mapsto> Import (zeroed_i_reg\<lparr>i_region := demo_shm_region sz, i_pa := 0x40000000\<rparr>)],
     next_obj := 1\<rparr>"

definition demo_shm_env :: "int \<Rightarrow> (u64 list \<times> u64 list, unit) shm_env" where
  "demo_shm_env walk_ret =
     \<lparr>core_e = demo_coherent_env\<lparr>cfg := demo_cfg4k\<rparr>,
      map_e = \<lparr>remap_pfn_range = (\<lambda>v x p sz prot w. (0, w)), remap_pfn_range_try_pmd = (\<lambda>v x p sz prot w. (- ENOMEM, w))\<rparr>,
      walk_page_range = (\<lambda>a b f g w. (walk_ret, w)), split_alloc = (\<lambda>w. (0, w)), upper_tables_ok = (\<lambda>x w. True),
      pmd_at = (\<lambda>x w. Pmd_Table), pmd_usable = (\<lambda>x w. True), follow_pte = (\<lambda>x w. None), pfn_valid = (\<lambda>p. True),
      kernel_map = (\<lambda>t p w. (False, w)), copy_mc = (\<lambda>b x n w. (0, w)), kernel_unmap = (\<lambda>w. w), obmm_flush_tlb = (\<lambda>w. w)\<rparr>"

definition demo_cc_file :: shm_file where
  "demo_cc_file = \<lparr>f_flags = 2, f_mode = 3, private_data = 0\<rparr>"

definition demo_nc_file :: shm_file where
  "demo_nc_file = \<lparr>f_flags = 0x101002, f_mode = 3, private_data = 0\<rparr>"

text \<open>The first huge page, or the third page, of the region.\<close>

definition demo_vma :: "shm_file \<Rightarrow> bool \<Rightarrow> bool \<Rightarrow> vm_area" where
  "demo_vma f huge writable = \<lparr>vm_start = 0x10000000, vm_end = (if huge then 0x10200000 else 0x10001000),
     vm_flags = VM_READ OR (if writable then VM_WRITE else 0) OR VM_MAYSHARE OR VM_MAYREAD OR VM_MAYWRITE,
     vm_pgoff = (if huge then 0x8000000000000 else 2),
     vm_page_prot = \<lparr>access_of = PAGE_NONE, cache_of = PROT_NORMAL\<rparr>, vm_private_data = 0, vm_file = Some f, vm_ops = False\<rparr>"

definition demo_cc_mapped :: "vm_area \<times> (u64 list \<times> u64 list, unit) obmm_state" where
  "demo_cc_mapped = snd (the (obmm_shm_fops_mmap (demo_shm_env 0) demo_cc_file (demo_vma demo_cc_file False False) (demo_shm_state 0x4000)))"

text \<open>A region whose array exists and that is not mapped, as a cacheable mapping leaves it.\<close>

definition demo_idle_state :: "(u64 list \<times> u64 list, unit) obmm_state" where
  "demo_idle_state = the (obmm_vma_close (demo_shm_env 0) (fst demo_cc_mapped) (snd demo_cc_mapped))"

definition demo_nc_mapped :: "vm_area \<times> (u64 list \<times> u64 list, unit) obmm_state" where
  "demo_nc_mapped = snd (the (obmm_shm_fops_mmap (demo_shm_env 0) demo_nc_file (demo_vma demo_nc_file False True) demo_idle_state))"

definition demo_nc_own :: obmm_ownership_info where
  "demo_nc_own = the (ownership_info (reg_at demo_idle_state 0))"

definition demo_update :: obmm_cmd_update_range where
  "demo_update = \<lparr>ur_start = 0x10000000, ur_end = 0x10001000, ur_mem_state = OBMM_SHM_MEM_READWRITE OR OBMM_SHM_MEM_NORMAL, ur_cache_ops = OBMM_SHM_CACHE_NONE\<rparr>"

text \<open>
  The device of a region (\<^verbatim>\<open>drivers/ub/obmm/obmm_shm_dev.c\<close> and \<^verbatim>\<open>obmm_region_flush_range\<close> of
  \<^verbatim>\<open>obmm_cache.c\<close>): opening it, mapping it into a process, the life of the mappings (split, close), and the
  request that changes the access rights of a range of mappings.  An address space is the list of
  its mappings in address order.  The lemmas show that the state of a region always agrees with
  its live mappings, that cacheable and non-cacheable mappings of a region never coexist, that a
  failed change of access rights is rolled back, and two situations in which the counters of a
  region no longer agree with its mappings.
\<close>

unbundle bit_operations_syntax

section \<open>Constants and environment\<close>

section \<open>Cache flush of a region\<close>

section \<open>Life of a mapping\<close>

section \<open>Access by a debugger\<close>

section \<open>Opening the device\<close>

section \<open>Mapping the device\<close>

section \<open>Changing access rights\<close>

lemma find_vma_end: "find_vma mm x = Some k \<Longrightarrow> k < length mm \<and> x < vm_end (mm ! k)"
  by (induction mm x arbitrary: k rule: find_vma.induct) (auto split: if_splits)

declare rollback.simps [simp del]

section \<open>Address spaces over time\<close>

section \<open>Counting mappings\<close>

lemma objs_upd_reg: "objs (upd_reg h f st) x = (if x = h then map_option (map_region f) (objs st h) else objs st x)"
  by (simp add: upd_reg_def)

lemma counts_refl [simp]: "counts h 0 st st"
  by (simp add: counts_def)

lemma counts_trans: "counts h n st st1 \<Longrightarrow> counts h m st1 st2 \<Longrightarrow> counts h (n + m) st st2"
  by (simp add: counts_def)

lemma counts_set_kw [simp]: "counts h n st (set_kw w st') = counts h n st st'"
  by (simp add: counts_def set_kw_def reg_at_def)

lemma counts_upd:
  assumes "objs st h \<noteq> None" "mmap_count (f (reg_at st h)) = mmap_count (reg_at st h) + n" "mmap_mode (f (reg_at st h)) = mmap_mode (reg_at st h)"
  shows "counts h n st (upd_reg h f st)"
  using assms by (auto simp: counts_def reg_at_upd live_def objs_upd_reg)

lemma counts_live: "counts h n st st' \<Longrightarrow> (objs st' h = None) = (objs st h = None)"
  by (simp add: counts_def)

lemma region_self [simp]: "\<exists>x. reg = reg\<lparr>ownership_info := x\<rparr>"
  by (rule exI [of _ "ownership_info reg"]) simp

lemma perm_count_keeps:
  assumes "update_vma_perm_count c reg pgoff npages a b = Some (ops, reg')"
  shows "\<exists>x. reg' = reg\<lparr>ownership_info := x\<rparr>"
  using assms region_self [of reg] by (auto simp: update_vma_perm_count_def Let_def split: option.splits)

lemma counts_perm:
  assumes "update_vma_perm_count c (reg_at st h) pgoff npages a b = Some (ops, reg')" "objs st h \<noteq> None"
  shows "counts h 0 st (upd_reg h (\<lambda>_. reg') st)"
  using perm_count_keeps [OF assms(1)] assms(2) by (auto intro!: counts_upd)

lemma split_counts:
  assumes "split_vma env v x st = (ret, lo, hi, st')" "objs st (vma_region v) \<noteq> None"
  shows "counts (vma_region v) (if ret = 0 then 1 else 0) st st'"
    "ret = 0 \<Longrightarrow> vm_ops lo = vm_ops v \<and> vm_file lo = vm_file v \<and> vm_ops hi = vm_ops v \<and> vm_file hi = vm_file v"
  using assms by (auto simp: split_vma_def Let_def obmm_vma_open_def split: if_splits prod.splits intro!: counts_upd)
    (auto simp: counts_def reg_at_upd live_def objs_upd_reg set_kw_def reg_at_def)

lemma update_vma_eq:
  assumes "update_vma env h u v st = Some (ret, v', st')"
  obtains ops reg1 w where
    "update_vma_perm_count (scfg env) (reg_at st h) (vm_pgoff v) (drop_bit (PAGE_SHIFT (scfg env)) (vm_end v - vm_start v))
       (vm_flags_to_access (vm_flags v)) (ur_mem_state u AND OBMM_SHM_MEM_ACCESS_MASK) = Some (ops, reg1)"
    "st' = set_kw w (upd_reg h (\<lambda>_. reg1) st)"
    "v' = v\<lparr>vm_private_data := vm_flags v, vm_flags := (vm_flags v AND NOT OBMM_UPDATE_VM_FLAGS_MASK)
       OR (access_to_vm_flags (ur_mem_state u AND OBMM_SHM_MEM_ACCESS_MASK) AND OBMM_UPDATE_VM_FLAGS_MASK),
       vm_page_prot := mem_state_to_pgprot (ur_mem_state u)\<rparr>"
  using assms by (force simp: update_vma_def Let_def vm_flags_set_def vm_flags_clear_def split: option.splits if_splits prod.splits)

lemma update_vma_counts:
  assumes "update_vma env h u v st = Some (ret, v', st')" "objs st h \<noteq> None"
  shows "counts h 0 st st'" "vm_ops v' = vm_ops v" "vm_file v' = vm_file v"
proof -
  obtain ops reg1 w where e: "update_vma_perm_count (scfg env) (reg_at st h) (vm_pgoff v) (drop_bit (PAGE_SHIFT (scfg env)) (vm_end v - vm_start v))
       (vm_flags_to_access (vm_flags v)) (ur_mem_state u AND OBMM_SHM_MEM_ACCESS_MASK) = Some (ops, reg1)"
    "st' = set_kw w (upd_reg h (\<lambda>_. reg1) st)"
    and v: "vm_ops v' = vm_ops v" "vm_file v' = vm_file v"
    by (rule update_vma_eq [OF assms(1)]) simp
  show "counts h 0 st st'" using counts_perm [OF e(1) assms(2)] e(2) by simp
  show "vm_ops v' = vm_ops v" "vm_file v' = vm_file v" by (fact v)+
qed

lemma files_of_append [simp]: "files_of h (xs @ ys) = files_of h xs @ files_of h ys"
  by (simp add: files_of_def)

lemma files_of_Cons: "files_of h (v # vs) = (if vm_ops v \<and> vma_region v = h then the (vm_file v) # files_of h vs else files_of h vs)"
  by (simp add: files_of_def)

lemma files_of_Nil [simp]: "files_of h [] = []"
  by (simp add: files_of_def)

lemma same_files_refl [simp]: "same_files h 0 vs vs"
  by (simp add: same_files_def)

lemma same_files_trans: "same_files h n us vs \<Longrightarrow> same_files h m vs ws \<Longrightarrow> same_files h (n + m) us ws"
  by (simp add: same_files_def)

lemma same_files_append: "same_files h n vs ws \<Longrightarrow> same_files h n (xs @ vs @ ys) (xs @ ws @ ys)"
  by (auto simp: same_files_def)

lemma split_files:
  assumes "split_vma env v x st = (ret, lo, hi, st')" "objs st (vma_region v) \<noteq> None" "vm_ops v"
  shows "\<exists>n. counts (vma_region v) (int n) st st' \<and> (ret = 0 \<longrightarrow> same_files (vma_region v) n [v] [lo, hi]) \<and> (ret \<noteq> 0 \<longrightarrow> n = 0)"
  using split_counts [OF assms(1,2)] assms(3)
  by (intro exI [of _ "if ret = 0 then 1 else 0"]) (auto simp: same_files_def files_of_Cons)

lemma split_below_files:
  assumes "split_below env x v st = (ret, lo, v1, st')" "objs st (vma_region v) \<noteq> None" "vm_ops v"
  shows "\<exists>n. counts (vma_region v) (int n) st st' \<and> (ret = 0 \<longrightarrow> same_files (vma_region v) n [v] (lo @ [v1])
      \<and> vm_ops v1 \<and> vm_file v1 = vm_file v) \<and> (ret \<noteq> 0 \<longrightarrow> n = 0)"
proof (cases "vm_start v < x")
  case False
  then show ?thesis using assms by (intro exI [of _ 0]) (simp add: split_below_def)
next
  case True
  then obtain l where s: "split_vma env v x st = (ret, l, v1, st')" "lo = [l]"
    using assms(1) by (auto simp: split_below_def split: prod.splits)
  show ?thesis using split_files [OF s(1) assms(2,3)] split_counts(2) [OF s(1) assms(2)] s(2) assms(3) by auto
qed

lemma split_above_files:
  assumes "split_above env x v st = (ret, v1, hi, st')" "objs st (vma_region v) \<noteq> None" "vm_ops v"
  shows "\<exists>n. counts (vma_region v) (int n) st st' \<and> (ret = 0 \<longrightarrow> same_files (vma_region v) n [v] (v1 # hi)
      \<and> vm_ops v1 \<and> vm_file v1 = vm_file v) \<and> (ret \<noteq> 0 \<longrightarrow> n = 0)"
proof (cases "x < vm_end v")
  case False
  then show ?thesis using assms by (intro exI [of _ 0]) (auto simp: split_above_def)
next
  case True
  then obtain l where s: "split_vma env v x st = (ret, v1, l, st')" "hi = [l]"
    using assms(1) by (auto simp: split_above_def split: prod.splits)
  show ?thesis using split_files [OF s(1) assms(2,3)] split_counts(2) [OF s(1) assms(2)] s(2) assms(3) by auto
qed

lemma same_files_vma:
  assumes "vm_ops v' = vm_ops v" "vm_file v' = vm_file v"
  shows "same_files h 0 (xs @ v # ys) (xs @ v' # ys)"
  using assms by (simp add: same_files_def files_of_Cons)

lemma update_loop_counts:
  assumes "update_loop env h u cursor m vs st = Some (ret, cur, m', ws, st')" "objs st h \<noteq> None"
  shows "\<exists>n. counts h (int n) st st' \<and> same_files h n vs ws"
  using assms
proof (induction vs arbitrary: cursor m st ret cur m' ws st')
  case Nil
  then show ?case by (intro exI [of _ 0]) simp
next
  case (Cons v vs)
  note eq = Cons.prems(1)
  show ?case
  proof (cases "vm_start v \<ge> ur_end u \<or> vm_start v > cursor \<or> \<not> vm_ops v \<or> vm_file v = None \<or> vma_region v \<noteq> h")
    case True
    then show ?thesis using eq by (intro exI [of _ 0]) (auto split: if_splits)
  next
    case False
    then have h: "vma_region v = h" "vm_ops v" by auto
    obtain r1 below v1 st1 where s1: "split_below env cursor v st = (r1, below, v1, st1)" by (metis prod_cases4)
    obtain r2 v2 above st2 where s2: "split_above env (ur_end u) v1 st1 = (r2, v2, above, st2)" by (metis prod_cases4)
    obtain n1 where n1: "counts h (int n1) st st1" "r1 \<noteq> 0 \<Longrightarrow> n1 = 0"
      "r1 = 0 \<Longrightarrow> same_files h n1 [v] (below @ [v1])" "r1 = 0 \<Longrightarrow> vm_ops v1 \<and> vm_file v1 = vm_file v"
      using split_below_files [OF s1] h Cons.prems(2) by blast
    show ?thesis
    proof (cases "r1 = 0")
      case r1: False
      then have "ws = v # vs" "st' = st1" using eq False s1 by (auto split: if_splits)
      then show ?thesis using n1(1,2) r1 by (intro exI [of _ n1]) simp
    next
      case r1: True
      have l1: "objs st1 (vma_region v1) \<noteq> None" "vma_region v1 = h" "vm_ops v1"
        using n1 r1 h counts_live [OF n1(1)] Cons.prems(2) by auto
      obtain n2 where n2: "counts h (int n2) st1 st2" "r2 \<noteq> 0 \<Longrightarrow> n2 = 0"
        "r2 = 0 \<Longrightarrow> same_files h n2 [v1] (v2 # above)" "r2 = 0 \<Longrightarrow> vm_ops v2 \<and> vm_file v2 = vm_file v1"
        using split_above_files [OF s2 l1(1,3)] l1(2) by blast
      have f1: "same_files h n1 (v # vs) (below @ v1 # vs)"
        using same_files_append [OF n1(3) [OF r1], of "[]" vs] by simp
      note c2 = counts_trans [OF n1(1) n2(1)]
      show ?thesis
      proof (cases "r2 = 0")
        case r2: False
        then have "ws = below @ v1 # vs" "st' = st2" using eq False s1 r1 s2 by (auto split: if_splits)
        then show ?thesis using f1 c2 n2(2) r2 by (intro exI [of _ n1]) simp
      next
        case r2: True
        have f2: "same_files h (n1 + n2) (v # vs) (below @ v2 # above @ vs)"
          using same_files_trans [OF f1] same_files_append [OF n2(3) [OF r2], of below vs] by simp
        obtain r3 v3 st3 where u: "update_vma env h u v2 st2 = Some (r3, v3, st3)"
          using eq False s1 r1 s2 r2 by (auto split: if_splits option.splits)
        have l2: "objs st2 h \<noteq> None" using counts_live [OF n2(1)] l1 by simp
        note uv = update_vma_counts [OF u l2]
        have f3: "same_files h (n1 + n2) (v # vs) (below @ v3 # above @ vs)"
          using same_files_trans [OF f2 same_files_vma [OF uv(2,3)]] by simp
        have c3: "counts h (int (n1 + n2)) st st3" using counts_trans [OF c2 uv(1)] by simp
        show ?thesis
        proof (cases "r3 \<noteq> 0 \<or> above \<noteq> []")
          case True
          then have "ws = below @ v3 # above @ vs" "st' = st3" using eq False s1 r1 s2 r2 u by (auto split: if_splits)
          then show ?thesis using f3 c3 by blast
        next
          case r3: False
          then obtain ws1 where loop: "update_loop env h u (vm_end v3) (vm_end v3) vs st3 = Some (ret, cur, m', ws1, st')"
            and ws: "ws = below @ v3 # ws1"
            using eq False s1 r1 s2 r2 u by (auto split: if_splits)
          have l3: "objs st3 h \<noteq> None" using counts_live [OF uv(1)] l2 by simp
          obtain n4 where n4: "counts h (int n4) st3 st'" "same_files h n4 vs ws1" using Cons.IH [OF loop l3] by blast
          have "same_files h (n1 + n2 + n4) (v # vs) ws"
            using same_files_trans [OF f3] same_files_append [OF n4(2), of "below @ [v3]" "[]"] r3 ws by simp
          moreover have "counts h (int (n1 + n2 + n4)) st st'" using counts_trans [OF c3 n4(1)] by simp
          ultimately show ?thesis by blast
        qed
      qed
    qed
  qed
qed

lemma rollback_vma_eq:
  assumes "rollback_vma env h u v st = Some (v', st')"
  obtains ops reg1 w where
    "update_vma_perm_count (scfg env) (reg_at st h) (vm_pgoff v) (drop_bit (PAGE_SHIFT (scfg env)) (vm_end v - vm_start v))
       (ur_mem_state u AND OBMM_SHM_MEM_ACCESS_MASK) (vm_flags_to_access (vm_private_data v)) = Some (ops, reg1)"
    "st' = set_kw w (upd_reg h (\<lambda>_. reg1) st)"
    "v' = v\<lparr>vm_flags := (vm_flags v AND NOT OBMM_UPDATE_VM_FLAGS_MASK) OR (vm_private_data v AND OBMM_UPDATE_VM_FLAGS_MASK),
       vm_page_prot := mem_state_to_pgprot (vm_flags_to_access (vm_private_data v) OR (ur_mem_state u AND OBMM_SHM_MEM_CACHE_MASK))\<rparr>"
  using assms by (force simp: rollback_vma_def Let_def vm_flags_set_def vm_flags_clear_def split: option.splits prod.splits)

lemma rollback_counts:
  assumes "rollback env h u m cursor mm st = Some (mm', st')" "objs st h \<noteq> None"
  shows "counts h 0 st st' \<and> same_files h 0 mm mm'"
  using assms
proof (induction env h u m cursor mm st arbitrary: mm' st' rule: rollback.induct)
  case (1 env h u m cursor mm st)
  show ?case
  proof (cases "cursor < m \<and> (\<exists>k. find_vma mm cursor = Some k \<and> \<not> vm_start (mm ! k) > cursor)")
    case False
    then show ?thesis using "1.prems"(1) by (subst (asm) rollback.simps) (auto split: if_splits option.splits)
  next
    case True
    then obtain k where k: "cursor < m" "find_vma mm cursor = Some k" "\<not> vm_start (mm ! k) > cursor" by blast
    obtain v st1 where r: "rollback_vma env h u (mm ! k) st = Some (v, st1)"
      and rb: "rollback env h u m (vm_end (mm ! k)) (mm[k := v]) st1 = Some (mm', st')"
      using "1.prems"(1) k by (subst (asm) rollback.simps) (auto split: option.splits)
    obtain ops reg1 w where e: "update_vma_perm_count (scfg env) (reg_at st h) (vm_pgoff (mm ! k)) (drop_bit (PAGE_SHIFT (scfg env)) (vm_end (mm ! k) - vm_start (mm ! k)))
       (ur_mem_state u AND OBMM_SHM_MEM_ACCESS_MASK) (vm_flags_to_access (vm_private_data (mm ! k))) = Some (ops, reg1)"
      "st1 = set_kw w (upd_reg h (\<lambda>_. reg1) st)" and f: "vm_ops v = vm_ops (mm ! k)" "vm_file v = vm_file (mm ! k)"
      by (rule rollback_vma_eq [OF r]) simp
    have c: "counts h 0 st st1" using counts_perm [OF e(1) "1.prems"(2)] e(2) by simp
    have len: "k < length mm" using find_vma_end [OF k(2)] by simp
    have s: "same_files h 0 mm (mm[k := v])"
      using same_files_vma [OF f, of h "take k mm" "drop (Suc k) mm"] len by (simp add: upd_conv_take_nth_drop id_take_nth_drop [symmetric])
    have "counts h 0 st1 st' \<and> same_files h 0 (mm[k := v]) mm'"
      using "1.IH" [OF _ k(2,3) r refl rb] k(1) counts_live [OF c] "1.prems"(2) by simp
    then show ?thesis using counts_trans [OF c] same_files_trans [OF s] by fastforce
  qed
qed

lemma update_range_counts:
  assumes "obmm_shm_update_range env f u mm st = Some (ret, mm', st')" "objs st (private_data f) \<noteq> None"
  shows "\<exists>n. counts (private_data f) (int n) st st' \<and> same_files (private_data f) n mm mm'"
proof -
  let ?h = "private_data f" and ?P = "\<lambda>v. vm_end v \<le> ur_start u"
  show ?thesis
  proof (cases "mm' = mm \<and> st' = st")
    case True
    then show ?thesis by (intro exI [of _ 0]) simp
  next
    case False
    obtain r cur m ws st1 where loop: "update_loop env ?h u (ur_start u) (ur_start u) (dropWhile ?P mm) st = Some (r, cur, m, ws, st1)"
      and tl: "let ret1 = (if r \<noteq> 0 then r else if cur < ur_end u then - EFAULT else 0); mm1 = takeWhile ?P mm @ ws
        in (if ret1 = 0 then Some (0, mm1, set_kw (obmm_flush_tlb env (kw st1)) st1)
            else case rollback env ?h u m (ur_start u) mm1 st1 of None \<Rightarrow> None
              | Some (mm2, st2) \<Rightarrow> Some (ret1, mm2, set_kw (obmm_flush_tlb env (kw st2)) st2)) = Some (ret, mm', st')"
      using assms(1) False by (auto simp: obmm_shm_update_range_def Let_def split: if_splits option.splits)
    obtain n where n: "counts ?h (int n) st st1" "same_files ?h n (dropWhile ?P mm) ws"
      using update_loop_counts [OF loop assms(2)] by blast
    have s: "same_files ?h n mm (takeWhile ?P mm @ ws)"
      using same_files_append [OF n(2), of "takeWhile ?P mm" "[]"] by simp
    have l: "objs st1 ?h \<noteq> None" using counts_live [OF n(1)] assms(2) by simp
    show ?thesis
    proof (cases "mm' = takeWhile ?P mm @ ws \<and> (\<exists>w. st' = set_kw w st1)")
      case True
      then show ?thesis using n s by (intro exI [of _ n]) auto
    next
      case False
      then obtain st2 w where "rollback env ?h u m (ur_start u) (takeWhile ?P mm @ ws) st1 = Some (mm', st2)" "st' = set_kw w st2"
        using tl by (auto simp: Let_def split: if_splits option.splits)
      then have "counts ?h 0 st1 st'" "same_files ?h 0 (takeWhile ?P mm @ ws) mm'"
        using rollback_counts [OF _ l] by auto
      then show ?thesis using counts_trans [OF n(1)] same_files_trans [OF s] by (intro exI [of _ n]) fastforce
    qed
  qed
qed

section \<open>Mapping and unmapping\<close>

lemma init_ownership_counts:
  assumes "init_ownership env h st = (ret, st')" "objs st h \<noteq> None"
  shows "counts h 0 st st'"
proof -
  obtain ok1 ok2 reg1 w where i: "init_ownership_info (scfg env) ok1 ok2 (reg_at st h) = (ret, reg1)" and s: "st' = upd_reg h (\<lambda>_. reg1) (set_kw w st)"
    using assms(1) by (auto simp: init_ownership_def Let_def split: prod.splits)
  have "mmap_count reg1 = mmap_count (reg_at st h)" "mmap_mode reg1 = mmap_mode (reg_at st h)"
    using i by (auto simp: init_ownership_info_def Let_def split: if_splits)
  then have "counts h 0 (set_kw w st) st'" using assms(2) s by (auto intro!: counts_upd simp: set_kw_def reg_at_def)
  then show ?thesis by (simp add: counts_def set_kw_def reg_at_def)
qed

lemma counts_mode_eq: "objs st h \<noteq> None \<Longrightarrow> counts h n st st' \<longleftrightarrow> counts_mode h n (mmap_mode (reg_at st h)) st st'"
  by (auto simp: counts_def counts_mode_def)

lemma counts_mode_trans: "counts_mode h n md st st1 \<Longrightarrow> counts h m st1 st2 \<Longrightarrow> counts_mode h (n + m) md st st2"
  by (auto simp: counts_def counts_mode_def)

lemma counts_mode_kw [simp]: "counts_mode h n md st (set_kw w st') = counts_mode h n md st st'"
  by (simp add: counts_mode_def set_kw_def reg_at_def)

lemma reset_counts:
  assumes "counts_mode h 0 md st st'" "objs st h \<noteq> None" "mmap_mode (reg_at st h) \<noteq> OBMM_MMAP_INIT \<Longrightarrow> md = mmap_mode (reg_at st h)"
  shows "counts h 0 st (reset_cur_osync h (mmap_mode (reg_at st h)) st')"
  using assms by (auto simp: reset_cur_osync_def counts_def counts_mode_def reg_at_upd live_def objs_upd_reg)

lemma inc_counts:
  assumes "counts_mode h n md st st'"
  shows "counts_mode h (n + 1) md st (upd_reg h (\<lambda>r. r\<lparr>mmap_count := mmap_count r + 1\<rparr>) st')"
  using assms by (auto simp: counts_mode_def reg_at_upd live_def objs_upd_reg)

lemma mmap_locked_counts:
  assumes m: "mmap_locked env f v mg st = Some (ret, st')" and l: "objs st (private_data f) \<noteq> None"
  shows "if ret = 0 then mapped_more f st st' else counts (private_data f) 0 st st'"
proof -
  let ?h = "private_data f" and ?old = "mmap_mode (reg_at st (private_data f))"
  let ?md = "if ?old = OBMM_MMAP_INIT then mode_of_file f else ?old"
  let ?st1 = "if ?old = OBMM_MMAP_INIT then upd_reg ?h (\<lambda>r. r\<lparr>mmap_mode := mode_of_file f\<rparr>) st else st"
  show ?thesis
  proof (cases "(o_sync_file f \<and> ?old = OBMM_MMAP_NORMAL) \<or> (\<not> o_sync_file f \<and> ?old = OBMM_MMAP_OSYNC)")
    case True
    then show ?thesis using m by (auto simp: mmap_locked_def)
  next
    case False
    then have md: "?md = mode_of_file f" by (cases ?old) (auto simp: mode_of_file_def)
    have c1: "counts_mode ?h 0 ?md st ?st1" using l by (auto simp: counts_mode_def reg_at_upd live_def objs_upd_reg)
    have l1: "objs ?st1 ?h \<noteq> None" using c1 by (simp add: counts_mode_def)
    have reset: "counts ?h 0 st (reset_cur_osync ?h ?old s)" if "counts ?h 0 ?st1 s" for s
      using reset_counts [OF counts_mode_trans [OF c1 that, simplified] l] by auto
    have inc: "mapped_more f st (upd_reg ?h (\<lambda>r. r\<lparr>mmap_count := mmap_count r + 1\<rparr>) s)" if "counts ?h 0 ?st1 s" for s
      using inc_counts [OF counts_mode_trans [OF c1 that, simplified]] md by (auto simp: mapped_more_def counts_mode_def split: if_splits)
    show ?thesis
    proof (cases "o_sync_file f")
      case True
      then have "mmap_mode (reg_at ?st1 ?h) \<noteq> OBMM_MMAP_NORMAL" using c1 md by (simp add: counts_mode_def mode_of_file_def)
      then have "(let (ret1, w) = map_obmm_region env v (the (objs ?st1 ?h)) mg (kw ?st1); st3 = set_kw w ?st1
          in if ret1 \<noteq> 0 then Some (ret1, reset_cur_osync ?h ?old st3) else Some (0, upd_reg ?h (\<lambda>r. r\<lparr>mmap_count := mmap_count r + 1\<rparr>) st3))
          = Some (ret, st')"
        using m False True by (simp add: mmap_locked_def mode_of_file_def Let_def cong: if_cong)
      then show ?thesis using reset inc by (auto simp: Let_def split: prod.splits if_splits)
    next
      case sync: False
      then have nm: "mmap_mode (reg_at ?st1 ?h) = OBMM_MMAP_NORMAL" using c1 md by (simp add: counts_mode_def mode_of_file_def)
      obtain r1 st2 where i: "init_ownership env ?h ?st1 = (r1, st2)" by fastforce
      note ci = init_ownership_counts [OF i l1]
      have l2: "objs st2 ?h \<noteq> None" using counts_live [OF ci] l1 by simp
      obtain r2 w where mo: "map_obmm_region env v (the (objs st2 ?h)) mg (kw st2) = (r2, w)" by fastforce
      let ?st3 = "set_kw w st2"
      have c3: "counts ?h 0 ?st1 ?st3" using ci by simp
      have q: "(if r1 \<noteq> 0 then Some (r1, reset_cur_osync ?h ?old st2) else if r2 \<noteq> 0 then Some (r2, reset_cur_osync ?h ?old ?st3)
          else case update_vma_perm_count (scfg env) (reg_at ?st3 ?h) (vm_pgoff v)
                 (drop_bit (PAGE_SHIFT (scfg env)) (vm_end v - vm_start v)) OBMM_SHM_MEM_NO_ACCESS (vm_flags_to_access (vm_flags v)) of
               None \<Rightarrow> None | Some (_, reg1) \<Rightarrow> Some (0, upd_reg ?h (\<lambda>r. r\<lparr>mmap_count := mmap_count r + 1\<rparr>) (upd_reg ?h (\<lambda>_. reg1) ?st3)))
          = Some (ret, st')"
        using m False sync nm i mo by (simp add: mmap_locked_def mode_of_file_def Let_def cong: if_cong option.case_cong)
      have pc: "counts ?h 0 ?st1 (upd_reg ?h (\<lambda>_. reg1) ?st3)" if "update_vma_perm_count (scfg env) (reg_at ?st3 ?h) (vm_pgoff v)
                 (drop_bit (PAGE_SHIFT (scfg env)) (vm_end v - vm_start v)) OBMM_SHM_MEM_NO_ACCESS (vm_flags_to_access (vm_flags v)) = Some (ops, reg1)" for ops reg1
        using counts_trans [OF c3 counts_perm [OF that]] l2 by (simp add: set_kw_def)
      show ?thesis using q reset [OF ci] reset [OF c3] inc [OF pc] by (auto split: if_splits option.splits)
    qed
  qed
qed

lemma mmap_granu_counts: "objs st h \<noteq> None \<Longrightarrow> counts h 0 st (upd_reg h (\<lambda>r. r\<lparr>mmap_granu := g\<rparr>) st)"
  by (rule counts_upd) simp_all

lemma mapped_more_granu:
  assumes "mapped_more f st st'" "counts (private_data f) 0 st0 st"
  shows "mapped_more f st0 st'"
  using assms by (auto simp: mapped_more_def counts_def)

text \<open>Either the request is refused, and at most the granularity was written, or the part under the lock runs.\<close>

lemma fops_mmap_cases:
  assumes "obmm_shm_fops_mmap env f v st = Some (ret, v', st')" "objs st (private_data f) \<noteq> None"
  shows "(ret \<noteq> 0 \<and> counts (private_data f) 0 st st')
    \<or> (\<exists>mg v3 st1 st2. counts (private_data f) 0 st st1 \<and> ownership_info (reg_at st1 (private_data f)) = ownership_info (reg_at st (private_data f))
        \<and> mmap_locked env f v3 mg st1 = Some (ret, st2) \<and> vm_file v3 = vm_file v
        \<and> (if ret \<noteq> 0 then st' = upd_reg (private_data f) (\<lambda>r. r\<lparr>mmap_granu := mmap_granu (reg_at st (private_data f))\<rparr>) st2
            else st' = st2 \<and> v' = v3\<lparr>vm_ops := True\<rparr>))"
proof -
  let ?h = "private_data f" and ?c = "scfg env"
  let ?g = "mmap_granu (reg_at st ?h)" and ?off0 = "push_bit (PAGE_SHIFT (scfg env)) (vm_pgoff v)"
  let ?granu = "\<lambda>g. upd_reg ?h (\<lambda>r. r\<lparr>mmap_granu := g\<rparr>)"
  define huge where "huge = (?off0 AND OBMM_MMAP_FLAG_HUGETLB_PMD \<noteq> 0)"
  define off where "off = (if huge then ?off0 AND NOT OBMM_MMAP_FLAG_HUGETLB_PMD else ?off0)"
  define mg where "mg = (if huge then OBMM_MMAP_GRANU_PMD else OBMM_MMAP_GRANU_PAGE)"
  define bad1 where "bad1 \<longleftrightarrow> huge \<and> (\<not> IS_ALIGNED (vm_start v) (PMD_SIZE ?c) \<or> \<not> IS_ALIGNED (vm_end v) (PMD_SIZE ?c))"
  define bad2 where "bad2 \<longleftrightarrow> off \<ge> mem_size (reg_at st ?h) \<or> vm_end v - vm_start v > mem_size (reg_at st ?h) - off"
  define st1 where "st1 = (if ?g = OBMM_MMAP_GRANU_NONE then ?granu mg st else st)"
  define v2 where "v2 = vm_flags_set (VM_DONTCOPY OR VM_DONTEXPAND OR VM_LOCKED OR VM_PFNMAP) (v\<lparr>vm_pgoff := drop_bit (PAGE_SHIFT ?c) off\<rparr>)"
  define v3 where "v3 = v2\<lparr>vm_page_prot := mem_state_to_pgprot (vm_flags_to_mem_state (vm_flags v2) (\<not> o_sync_file f))\<rparr>"
  have c1: "counts ?h 0 st st1" using mmap_granu_counts [OF assms(2)] by (simp add: st1_def)
  have c2: "counts ?h 0 st (?granu ?g st1)"
    using counts_trans [OF c1 mmap_granu_counts] counts_live [OF c1] assms(2) by simp
  have f3: "vm_file v3 = vm_file v" by (simp add: v3_def v2_def vm_flags_set_def)
  have o1: "ownership_info (reg_at st1 ?h) = ownership_info (reg_at st ?h)" by (simp add: st1_def reg_at_upd)
  have eq: "(if vm_flags v AND VM_MAYSHARE = 0 then Some (- EINVAL, v, st)
      else if \<not> region_allow_mmap (reg_at st ?h) then Some (- EPERM, v, st)
      else if \<not> validate_perm f (vm_flags v) then Some (- EPERM, v, st)
      else if bad1 then Some (- EINVAL, v, st)
      else if huge \<and> \<not> IS_ALIGNED off (PMD_SIZE ?c) then Some (- EINVAL, v, st)
      else if ?g \<noteq> OBMM_MMAP_GRANU_NONE \<and> ?g \<noteq> mg then Some (- EPERM, v, ?granu ?g st)
      else if bad2 then Some (- EINVAL, v\<lparr>vm_pgoff := drop_bit (PAGE_SHIFT ?c) off\<rparr>, ?granu ?g st1)
      else case mmap_locked env f v3 mg st1 of None \<Rightarrow> None
         | Some (r, st2) \<Rightarrow> if r \<noteq> 0 then Some (r, v3, ?granu ?g st2) else Some (0, v3\<lparr>vm_ops := True\<rparr>, st2)) = Some (ret, v', st')"
    using assms(1) unfolding obmm_shm_fops_mmap_def Let_def bad1_def bad2_def huge_def [symmetric] off_def [symmetric] mg_def [symmetric]
      st1_def [symmetric] v2_def [symmetric] v3_def [symmetric] by simp
  define refused where "refused \<longleftrightarrow> vm_flags v AND VM_MAYSHARE = 0 \<or> \<not> region_allow_mmap (reg_at st ?h) \<or> \<not> validate_perm f (vm_flags v) \<or> bad1
      \<or> (huge \<and> \<not> IS_ALIGNED off (PMD_SIZE ?c)) \<or> (?g \<noteq> OBMM_MMAP_GRANU_NONE \<and> ?g \<noteq> mg) \<or> bad2"
  show ?thesis
  proof (cases refused)
    case True
    then show ?thesis using eq c2 mmap_granu_counts [OF assms(2)] by (auto simp: refused_def split: if_splits)
  next
    case False
    then obtain r st2 where lk: "mmap_locked env f v3 mg st1 = Some (r, st2)"
      and e: "(if r \<noteq> 0 then Some (r, v3, ?granu ?g st2) else Some (0, v3\<lparr>vm_ops := True\<rparr>, st2)) = Some (ret, v', st')"
      using eq by (auto simp: refused_def split: option.splits)
    show ?thesis using lk e c1 f3 o1 by (intro disjI2 exI [of _ mg] exI [of _ v3] exI [of _ st1] exI [of _ st2]) (auto split: if_splits)
  qed
qed

lemma fops_mmap_counts:
  assumes m: "obmm_shm_fops_mmap env f v st = Some (ret, v', st')" and l: "objs st (private_data f) \<noteq> None"
  shows "if ret = 0 then mapped_more f st st' \<and> vm_ops v' \<and> vm_file v' = vm_file v else counts (private_data f) 0 st st'"
proof (cases "counts (private_data f) 0 st st' \<and> ret \<noteq> 0")
  case True
  then show ?thesis by simp
next
  case False
  let ?h = "private_data f"
  let ?granu = "\<lambda>g. upd_reg ?h (\<lambda>r. r\<lparr>mmap_granu := g\<rparr>)"
  obtain mg v3 st2 st1 where lk: "mmap_locked env f v3 mg st1 = Some (ret, st2)" and c1: "counts ?h 0 st st1"
    and e: "if ret \<noteq> 0 then st' = ?granu (mmap_granu (reg_at st ?h)) st2 else st' = st2 \<and> v' = v3\<lparr>vm_ops := True\<rparr>" "vm_file v3 = vm_file v"
    using fops_mmap_cases [OF m l] False by blast
  have l1: "objs st1 ?h \<noteq> None" using counts_live [OF c1] l by simp
  note r = mmap_locked_counts [OF lk l1]
  show ?thesis
  proof (cases "ret = 0")
    case True
    then show ?thesis using r e mapped_more_granu [OF _ c1] by auto
  next
    case r0: False
    then have c2: "counts ?h 0 st1 st2" using r by simp
    have "objs st2 ?h \<noteq> None" using counts_live [OF c2] l1 by simp
    then show ?thesis using counts_trans [OF c1 counts_trans [OF c2 mmap_granu_counts]] r0 e by auto
  qed
qed

lemma close_counts:
  assumes "obmm_vma_close env v st = Some st'" "objs st (vma_region v) \<noteq> None"
  shows "counts_mode (vma_region v) (- 1)
    (if mmap_count (reg_at st (vma_region v)) = 1 then OBMM_MMAP_INIT else mmap_mode (reg_at st (vma_region v))) st st'"
proof -
  let ?h = "vma_region v"
  obtain ops reg1 w where p: "update_vma_perm_count (scfg env) (reg_at st ?h) (vm_pgoff v)
      (drop_bit (PAGE_SHIFT (scfg env)) (vm_end v - vm_start v)) (vm_flags_to_access (vm_flags v)) OBMM_SHM_MEM_NO_ACCESS = Some (ops, reg1)"
    and s: "st' = upd_reg ?h (\<lambda>r. let n = mmap_count r - 1
        in r\<lparr>mmap_count := n, mmap_mode := (if n = 0 then OBMM_MMAP_INIT else mmap_mode r)\<rparr>) (set_kw w (upd_reg ?h (\<lambda>_. reg1) st))"
    using assms(1) by (auto simp: obmm_vma_close_def Let_def split: option.splits)
  have "counts ?h 0 st (set_kw w (upd_reg ?h (\<lambda>_. reg1) st))" using counts_perm [OF p assms(2)] by simp
  then show ?thesis using assms(2) unfolding s
    by (auto simp: counts_def counts_mode_def reg_at_upd live_def objs_upd_reg Let_def)
qed

section \<open>Regions agree with their mappings\<close>

lemma mapped_files_upd:
  fixes s :: "('k, 'w) shm_sys"
  assumes "p < length (mms s)" "mms s ! p = mm"
  shows "\<exists>as bs. mapped_files h s = as @ files_of h mm @ bs \<and> (\<forall>(st :: ('k, 'w) obmm_state) mm'. mapped_files h \<lparr>sst = st, mms = (mms s)[p := mm']\<rparr> = as @ files_of h mm' @ bs)"
proof -
  have e: "mms s = take p (mms s) @ mm # drop (Suc p) (mms s)" using id_take_nth_drop [OF assms(1)] assms(2) by simp
  have f: "mapped_files h \<lparr>sst = st, mms = (mms s)[p := mm']\<rparr>
      = files_of h (concat (take p (mms s))) @ files_of h mm' @ files_of h (concat (drop (Suc p) (mms s)))" for st :: "('k, 'w) obmm_state" and mm'
    using assms(1) by (simp add: mapped_files_def upd_conv_take_nth_drop)
  have "mapped_files h s = files_of h (concat (take p (mms s))) @ files_of h mm @ files_of h (concat (drop (Suc p) (mms s)))"
    by (subst mapped_files_def, subst e) simp
  then show ?thesis using f by blast
qed

lemma shm_inv_live: "shm_inv s \<Longrightarrow> p < length (mms s) \<Longrightarrow> v \<in> set (mms s ! p) \<Longrightarrow> vm_ops v \<Longrightarrow> objs (sst s) (vma_region v) \<noteq> None"
proof
  assume a: "shm_inv s" "p < length (mms s)" "v \<in> set (mms s ! p)" "vm_ops v" "objs (sst s) (vma_region v) = None"
  have "v \<in> set (concat (mms s))" using a(2,3) by (auto intro: nth_mem)
  then have "mapped_files (vma_region v) s \<noteq> []" using a(4) by (auto simp: mapped_files_def files_of_def filter_empty_conv)
  then show False using a(1,5) by (auto simp: shm_inv_def)
qed

lemma shm_inv_agrees: "shm_inv s \<Longrightarrow> objs (sst s) h \<noteq> None \<Longrightarrow> region_agrees (reg_at (sst s) h) (mapped_files h s)"
  by (auto simp: shm_inv_def reg_at_def)

text \<open>It suffices to look at the region that a step changes.\<close>

lemma shm_inv_step:
  assumes "shm_inv s" "\<And>x. x \<noteq> h \<Longrightarrow> objs st' x = objs (sst s) x" "\<And>x. x \<noteq> h \<Longrightarrow> mapped_files x \<lparr>sst = st', mms = ms\<rparr> = mapped_files x s"
    and "objs st' h \<noteq> None" "region_agrees (reg_at st' h) (mapped_files h \<lparr>sst = st', mms = ms\<rparr>)"
  shows "shm_inv \<lparr>sst = st', mms = ms\<rparr>"
  unfolding shm_inv_def
proof (intro conjI allI impI)
  fix x r
  assume "objs (sst \<lparr>sst = st', mms = ms\<rparr>) x = Some r"
  then show "region_agrees (region_of r) (mapped_files x \<lparr>sst = st', mms = ms\<rparr>)"
    using assms by (cases "x = h") (auto simp: shm_inv_def reg_at_def)
next
  fix x
  assume "objs (sst \<lparr>sst = st', mms = ms\<rparr>) x = None"
  then show "mapped_files x \<lparr>sst = st', mms = ms\<rparr> = []"
    using assms by (cases "x = h") (auto simp: shm_inv_def)
qed

lemma agrees_counts:
  assumes "region_agrees (reg_at st h) fs" "counts h (int n) st st'" "set gs = set fs" "length gs = length fs + n"
  shows "region_agrees (reg_at st' h) gs"
  using assms by (auto simp: region_agrees_def counts_def)

lemma shm_inv_counts:
  assumes inv: "shm_inv s" and p: "p < length (mms s)" and c: "counts h (int n) (sst s) st'" and f: "same_files h n (mms s ! p) mm'"
    and l: "objs (sst s) h \<noteq> None"
  shows "shm_inv \<lparr>sst = st', mms = (mms s)[p := mm']\<rparr>"
proof (rule shm_inv_step [OF inv])
  show "objs st' x = objs (sst s) x" if "x \<noteq> h" for x using c that by (simp add: counts_def)
  show "mapped_files x \<lparr>sst = st', mms = (mms s)[p := mm']\<rparr> = mapped_files x s" if "x \<noteq> h" for x
    using mapped_files_upd [OF p refl, of x] f that by (auto simp: same_files_def)
  show "objs st' h \<noteq> None" using counts_live [OF c] l by simp
  obtain as bs where ab: "mapped_files h s = as @ files_of h (mms s ! p) @ bs"
    "mapped_files h \<lparr>sst = st', mms = (mms s)[p := mm']\<rparr> = as @ files_of h mm' @ bs"
    using mapped_files_upd [OF p refl, of h] by blast
  show "region_agrees (reg_at st' h) (mapped_files h \<lparr>sst = st', mms = (mms s)[p := mm']\<rparr>)"
    using f by (intro agrees_counts [OF shm_inv_agrees [OF inv l] c]) (auto simp: ab same_files_def)
qed

lemma shm_inv_same_maps:
  assumes inv: "shm_inv s" and c: "counts h 0 (sst s) st'" and l: "objs (sst s) h \<noteq> None"
  shows "shm_inv \<lparr>sst = st', mms = mms s\<rparr>"
proof (rule shm_inv_step [OF inv])
  show "objs st' x = objs (sst s) x" if "x \<noteq> h" for x using c that by (simp add: counts_def)
  show "mapped_files x \<lparr>sst = st', mms = mms s\<rparr> = mapped_files x s" for x by (simp add: mapped_files_def)
  show "objs st' h \<noteq> None" using counts_live [OF c] l by simp
  show "region_agrees (reg_at st' h) (mapped_files h \<lparr>sst = st', mms = mms s\<rparr>)"
    by (rule agrees_counts [OF shm_inv_agrees [OF inv l], where n = 0]) (use c in \<open>simp_all add: mapped_files_def\<close>)
qed

lemma shm_inv_mmap:
  assumes inv: "shm_inv s" and p: "p < length (mms s)" "mms s ! p = xs @ ys" and m: "mapped_more f (sst s) st'"
    and v: "vm_ops v'" "vm_file v' = Some f" and l: "objs (sst s) (private_data f) \<noteq> None"
  shows "shm_inv \<lparr>sst = st', mms = (mms s)[p := xs @ v' # ys]\<rparr>"
proof (rule shm_inv_step [OF inv])
  let ?h = "private_data f"
  show "objs st' x = objs (sst s) x" if "x \<noteq> ?h" for x using m that by (simp add: mapped_more_def)
  show "mapped_files x \<lparr>sst = st', mms = (mms s)[p := xs @ v' # ys]\<rparr> = mapped_files x s" if "x \<noteq> ?h" for x
    using mapped_files_upd [OF p, of x] v that by (auto simp: files_of_Cons)
  show "objs st' ?h \<noteq> None" using m by (simp add: mapped_more_def)
  obtain as bs where ab: "mapped_files ?h s = as @ bs" "mapped_files ?h \<lparr>sst = st', mms = (mms s)[p := xs @ v' # ys]\<rparr> = as @ f # bs"
  proof -
    obtain as bs where "mapped_files ?h s = as @ files_of ?h (xs @ ys) @ bs"
      "mapped_files ?h \<lparr>sst = st', mms = (mms s)[p := xs @ v' # ys]\<rparr> = as @ files_of ?h (xs @ v' # ys) @ bs"
      using mapped_files_upd [OF p, of ?h] by blast
    then show thesis using that [of "as @ files_of ?h xs" "files_of ?h ys @ bs"] v by (simp add: files_of_Cons)
  qed
  show "region_agrees (reg_at st' ?h) (mapped_files ?h \<lparr>sst = st', mms = (mms s)[p := xs @ v' # ys]\<rparr>)"
    using shm_inv_agrees [OF inv l] m unfolding ab by (auto simp: region_agrees_def mapped_more_def mode_of_file_def split: if_splits)
qed

lemma shm_inv_munmap:
  assumes inv: "shm_inv s" and p: "p < length (mms s)" "mms s ! p = xs @ v # ys" and v: "vm_ops v"
    and c: "obmm_vma_close env v (sst s) = Some st'"
  shows "shm_inv \<lparr>sst = st', mms = (mms s)[p := xs @ ys]\<rparr>"
proof (rule shm_inv_step [OF inv])
  let ?h = "vma_region v"
  have l: "objs (sst s) ?h \<noteq> None" using shm_inv_live [OF inv p(1) _ v] p(2) by simp
  note m = close_counts [OF c l]
  show "objs st' x = objs (sst s) x" if "x \<noteq> ?h" for x using m that by (simp add: counts_mode_def)
  show "mapped_files x \<lparr>sst = st', mms = (mms s)[p := xs @ ys]\<rparr> = mapped_files x s" if "x \<noteq> ?h" for x
    using mapped_files_upd [OF p, of x] that by (auto simp: files_of_Cons)
  show "objs st' ?h \<noteq> None" using m by (simp add: counts_mode_def)
  obtain as bs where ab: "mapped_files ?h s = as @ the (vm_file v) # bs" "mapped_files ?h \<lparr>sst = st', mms = (mms s)[p := xs @ ys]\<rparr> = as @ bs"
  proof -
    obtain as bs where "mapped_files ?h s = as @ files_of ?h (xs @ v # ys) @ bs"
      "mapped_files ?h \<lparr>sst = st', mms = (mms s)[p := xs @ ys]\<rparr> = as @ files_of ?h (xs @ ys) @ bs"
      using mapped_files_upd [OF p, of ?h] by blast
    then show thesis using that [of "as @ files_of ?h xs" "files_of ?h ys @ bs"] v by (simp add: files_of_Cons)
  qed
  have e: "int (length as) + int (length bs) = 0 \<longleftrightarrow> as = [] \<and> bs = []"
    by (metis add_nonneg_eq_0_iff length_0_conv of_nat_0_le_iff of_nat_eq_0_iff)
  show "region_agrees (reg_at st' ?h) (mapped_files ?h \<lparr>sst = st', mms = (mms s)[p := xs @ ys]\<rparr>)"
    using shm_inv_agrees [OF inv l] m e unfolding ab by (auto simp: region_agrees_def counts_mode_def split: if_splits)
qed

lemma shm_inv_preserved:
  assumes "shm_step env s s'" "shm_inv s"
  shows "shm_inv s'"
  using assms
proof (induction rule: shm_step.induct)
  case (mmap p s xs ys v f v' st')
  then show ?case using fops_mmap_counts [OF mmap.hyps(5,4)] by (intro shm_inv_mmap) auto
next
  case (mmap_error v f s ret v' st')
  have "shm_inv \<lparr>sst = st', mms = mms s\<rparr>"
    using fops_mmap_counts [OF mmap_error.hyps(3,2)] mmap_error by (intro shm_inv_same_maps) auto
  then show ?case by (simp add: shm_inv_def mapped_files_def)
next
  case (munmap p s xs v ys st')
  then show ?case by (intro shm_inv_munmap)
next
  case (split p s xs v ys x ret lo hi st')
  have l: "objs (sst s) (vma_region v) \<noteq> None"
    using shm_inv_live [OF split.prems split.hyps(1) _ split.hyps(3)] split.hyps(2) by simp
  note sp = split_files [OF split.hyps(4) l split.hyps(3)]
  show ?case
  proof (cases "ret = 0")
    case True
    then obtain n where n: "counts (vma_region v) (int n) (sst s) st'" "same_files (vma_region v) n [v] [lo, hi]" using sp by blast
    have "same_files (vma_region v) n (mms s ! p) (xs @ lo # hi # ys)"
      using same_files_append [OF n(2), of xs ys] split.hyps(2) by simp
    then show ?thesis using shm_inv_counts [OF split.prems split.hyps(1) n(1) _ l] True by simp
  next
    case False
    then show ?thesis using sp shm_inv_same_maps [OF split.prems _ l] by auto
  qed
next
  case (update_range p s f u ret mm' st')
  then show ?case using update_range_counts [OF update_range.hyps(3,2)] shm_inv_counts by blast
next
  case (other_map p s xs ys v)
  have "mapped_files h (s\<lparr>mms := (mms s)[p := xs @ v # ys]\<rparr>) = mapped_files h s" for h
    using mapped_files_upd [OF other_map.hyps(1,2), of h] other_map.hyps(3) by (auto simp: files_of_Cons mapped_files_def)
  then show ?case using other_map.prems by (simp add: shm_inv_def)
next
  case (other_unmap p s xs v ys)
  have "mapped_files h (s\<lparr>mms := (mms s)[p := xs @ ys]\<rparr>) = mapped_files h s" for h
    using mapped_files_upd [OF other_unmap.hyps(1,2), of h] other_unmap.hyps(3) by (auto simp: files_of_Cons mapped_files_def)
  then show ?case using other_unmap.prems by (simp add: shm_inv_def)
next
  case (new_process s)
  then show ?case by (simp add: shm_inv_def mapped_files_def)
qed

lemma shm_inv_reachable: "shm_reachable env s \<Longrightarrow> shm_inv s"
proof (induction rule: shm_reachable.induct)
  case (start st)
  then show ?case by (auto simp: shm_inv_def mapped_files_def region_agrees_def)
next
  case (step s s')
  then show ?case by (blast intro: shm_inv_preserved)
qed

text \<open>C4: whatever processes map, split, unmap and change, in any order, the state of a region agrees with its mappings:
  its count is the number of mappings, the mode is reset exactly when the last one goes, and cacheable and
  non-cacheable mappings of a region never coexist.\<close>

theorem mappings_agree:
  assumes "shm_reachable env s" "objs (sst s) h = Some r"
  shows "mmap_count (region_of r) = int (length (mapped_files h s))
    \<and> (mmap_mode (region_of r) = OBMM_MMAP_INIT \<longleftrightarrow> mapped_files h s = [])
    \<and> (\<forall>f \<in> set (mapped_files h s). mmap_mode (region_of r) = (if o_sync_file f then OBMM_MMAP_OSYNC else OBMM_MMAP_NORMAL))"
proof -
  have a: "region_agrees (region_of r) (mapped_files h s)"
    using shm_inv_reachable [OF assms(1)] assms(2) by (simp add: shm_inv_def)
  then show ?thesis by (cases "mmap_mode (region_of r)") (auto simp: region_agrees_def)
qed

section \<open>Rolling back\<close>

lemma page_count_commute: "page_count_update a b (page_count_update c d p) = page_count_update c d (page_count_update a b p)"
  by (rule obmm_page_state.equality) (simp_all add: page_count_fields)

lemma mv_commute: "mv x (mv y ps) = mv y (mv x ps)"
  by (cases x; cases y) (auto intro!: nth_equalityI simp: upd_range_nth page_count_commute)

lemma mv_back_mv: "mv (mv_back x) (mv x ps) = ps"
  by (cases x) (simp add: upd_range_inverse page_count_round_trip)

lemma mv_length [simp]: "length (mv x ps) = length ps"
  by (cases x) simp

lemma fold_mv_length [simp]: "length (fold mv ms ps) = length ps"
  by (induction ms arbitrary: ps) simp_all

lemma fold_mv_commute: "fold mv ms (mv x ps) = mv x (fold mv ms ps)"
proof (induction ms arbitrary: ps)
  case (Cons y ms)
  have "fold mv (y # ms) (mv x ps) = fold mv ms (mv x (mv y ps))" using mv_commute [of y x ps] by simp
  then show ?case using Cons.IH by simp
qed simp

lemma fold_mv_back: "fold mv (map mv_back ms) (fold mv ms ps) = ps"
proof (induction ms arbitrary: ps)
  case (Cons x ms)
  have "fold mv (map mv_back (x # ms)) (fold mv (x # ms) ps) = fold mv (map mv_back ms) (mv (mv_back x) (mv x (fold mv ms ps)))"
    by (simp add: fold_mv_commute)
  then show ?case using Cons.IH by (simp add: mv_back_mv)
qed simp

lemma shifted_shifted: "shifted ns (shifted ms reg) = shifted (ms @ ns) reg"
  by (cases "ownership_info reg") (simp_all add: shifted_def)

lemma shifted_Nil: "shifted [] reg = reg"
  by (simp add: shifted_def option.map_ident)

lemma shifted_back: "shifted (ms @ map mv_back ms) reg = reg"
  by (cases "ownership_info reg") (simp_all add: shifted_def fold_mv_back)

lemma small_shifted [simp]: "small_info (shifted ms reg) = small_info reg"
  by (auto simp: small_info_def shifted_def)

lemma shifted_fields [simp]: "mmap_granu (shifted ms reg) = mmap_granu reg" "mmap_count (shifted ms reg) = mmap_count reg"
  "shifted ms (reg\<lparr>mmap_count := n\<rparr>) = (shifted ms reg)\<lparr>mmap_count := n\<rparr>" "small_info (reg\<lparr>mmap_count := n\<rparr>) = small_info reg"
  by (simp_all add: shifted_def small_info_def)

lemma moved_refl: "objs st' = objs st \<Longrightarrow> moved h 0 [] st st'"
proof -
  have "(\<lambda>r. (shifted [] r)\<lparr>mmap_count := mmap_count r + int 0\<rparr>) = (\<lambda>r. r)"
    by (rule ext) (simp add: shifted_def option.map_ident)
  moreover have "map_region (\<lambda>r. r) = (\<lambda>x. x)" by (rule ext, case_tac x) simp_all
  ultimately show "objs st' = objs st \<Longrightarrow> ?thesis" by (simp add: moved_def upd_reg_def option.map_ident del: of_nat_0)
qed

lemma map_region_comp: "map_region f (map_region g x) = map_region (\<lambda>r. f (g r)) x"
  by (cases x) simp_all

lemma moved_trans:
  assumes "moved h n ms st st1" "moved h n' ns st1 st2"
  shows "moved h (n + n') (ms @ ns) st st2"
proof (cases "objs st h")
  case None
  then show ?thesis using assms by (simp add: moved_def upd_reg_def)
next
  case (Some x)
  then show ?thesis using assms by (simp add: moved_def upd_reg_def map_region_comp shifted_shifted add.assoc)
qed

lemma moved_facts:
  assumes "moved h n ms st st'" "objs st h \<noteq> None"
  shows "objs st' h \<noteq> None" "reg_at st' h = (shifted ms (reg_at st h))\<lparr>mmap_count := mmap_count (reg_at st h) + int n\<rparr>"
  using assms by (auto simp: moved_def upd_reg_def reg_at_def)

lemma perm_count_shift:
  assumes p: "update_vma_perm_count c reg pgoff npages a b = Some (ops, reg')" and s: "small_info reg"
  shows "reg' = shifted [(unat (ownership_pgoff_to_index c (zeroed_region\<lparr>mmap_granu := mmap_granu reg\<rparr>) pgoff),
    unat (ownership_size_to_nentries c (zeroed_region\<lparr>mmap_granu := mmap_granu reg\<rparr>) (push_bit (PAGE_SHIFT c) npages)), a, b)] reg"
proof (cases "ownership_info reg")
  case None
  then show ?thesis using p by (simp add: update_vma_perm_count_def shifted_def)
next
  case (Some ow)
  let ?i = "ownership_pgoff_to_index c reg pgoff" and ?n = "ownership_size_to_nentries c reg (push_bit (PAGE_SHIFT c) npages)"
  obtain ow1 where l: "perm_count_loop ow ?i (unat ?n) a b OBMM_SHM_CACHE_NONE = Some (ops, ow1)" "reg' = reg\<lparr>ownership_info := Some ow1\<rparr>"
    using p Some by (auto simp: update_vma_perm_count_def Let_def split: option.splits)
  have len: "length (page_states ow) < 2 ^ 64" using s Some by (simp add: small_info_def)
  have "ow1 = ow\<lparr>page_states := upd_range (unat ?i) (unat ?n) (page_count_update a b) (page_states ow)\<rparr>"
  proof (cases "unat ?n = 0")
    case True
    then show ?thesis using l(1) by simp
  next
    case False
    then have "unat ?i + unat ?n \<le> length (page_states ow)" using perm_count_loop_in_range [OF l(1) len] by simp
    from perm_count_loop_eq [OF this len, of a b OBMM_SHM_CACHE_NONE] show ?thesis using l(1) by auto
  qed
  moreover have "?i = ownership_pgoff_to_index c (zeroed_region\<lparr>mmap_granu := mmap_granu reg\<rparr>) pgoff"
    "?n = ownership_size_to_nentries c (zeroed_region\<lparr>mmap_granu := mmap_granu reg\<rparr>) (push_bit (PAGE_SHIFT c) npages)"
    by (simp_all add: ownership_pgoff_to_index_def ownership_size_to_nentries_def)
  ultimately show ?thesis using l(2) Some by (simp add: shifted_def)
qed

lemma moved_perm:
  assumes "update_vma_perm_count c (reg_at st h) pgoff npages a b = Some (ops, reg')" "small_info (reg_at st h)" "objs st h \<noteq> None"
  shows "moved h 0 [(unat (ownership_pgoff_to_index c (zeroed_region\<lparr>mmap_granu := mmap_granu (reg_at st h)\<rparr>) pgoff),
    unat (ownership_size_to_nentries c (zeroed_region\<lparr>mmap_granu := mmap_granu (reg_at st h)\<rparr>) (push_bit (PAGE_SHIFT c) npages)), a, b)]
    st (set_kw w (upd_reg h (\<lambda>_. reg') st))"
proof -
  obtain x where x: "objs st h = Some x" using assms(3) by auto
  then have "map_region (\<lambda>_. reg') x = map_region (\<lambda>r. (shifted ms r)\<lparr>mmap_count := mmap_count r + int 0\<rparr>) x"
    if "reg' = shifted ms (reg_at st h)" for ms
    using that by (cases x) (simp_all add: reg_at_def shifted_def)
  then show ?thesis using perm_count_shift [OF assms(1,2)] x by (simp add: moved_def upd_reg_def set_kw_def)
qed

lemma split_moved:
  assumes "split_vma env v x st = (ret, lo, hi, st')" "objs st (vma_region v) \<noteq> None"
  shows "moved (vma_region v) (if ret = 0 then 1 else 0) [] st st'"
    "ret = 0 \<Longrightarrow> lo = v\<lparr>vm_end := x\<rparr> \<and> hi = v\<lparr>vm_start := x, vm_pgoff := vm_pgoff v + drop_bit (PAGE_SHIFT (scfg env)) (x - vm_start v)\<rparr>"
proof -
  have id: "shifted [] r = r" for r by (simp add: shifted_def option.map_ident)
  show "moved (vma_region v) (if ret = 0 then 1 else 0) [] st st'"
    using assms moved_refl [of "set_kw w st" st "vma_region v" for w]
    by (auto simp: split_vma_def Let_def obmm_vma_open_def id moved_def upd_reg_def set_kw_def split: if_splits prod.splits)
  show "ret = 0 \<Longrightarrow> lo = v\<lparr>vm_end := x\<rparr> \<and> hi = v\<lparr>vm_start := x, vm_pgoff := vm_pgoff v + drop_bit (PAGE_SHIFT (scfg env)) (x - vm_start v)\<rparr>"
    using assms(1) by (auto simp: split_vma_def Let_def split: if_splits prod.splits)
qed

lemma saved_update: "saved (v\<lparr>vm_private_data := f, vm_flags := (f AND NOT OBMM_UPDATE_VM_FLAGS_MASK) OR (g AND OBMM_UPDATE_VM_FLAGS_MASK), vm_page_prot := p\<rparr>)"
proof -
  have "((f AND NOT m) OR (g AND m)) AND NOT m = f AND NOT m" for m :: u64
    by (rule bit_eqI) (auto simp: bit_simps)
  from this [of OBMM_UPDATE_VM_FLAGS_MASK] show ?thesis by (simp add: saved_def)
qed

lemma update_vma_moved:
  assumes "update_vma env h u v st = Some (ret, v', st')" "objs st h \<noteq> None" "small_info (reg_at st h)"
  shows "moved h 0 [vma_move (scfg env) (mmap_granu (reg_at st h)) u v'] st st'" "saved v'"
    "vm_start v' = vm_start v" "vm_end v' = vm_end v" "vm_file v' = vm_file v" "vm_ops v' = vm_ops v" "vm_private_data v' = vm_flags v"
proof -
  obtain ops reg1 w where e: "update_vma_perm_count (scfg env) (reg_at st h) (vm_pgoff v) (drop_bit (PAGE_SHIFT (scfg env)) (vm_end v - vm_start v))
       (vm_flags_to_access (vm_flags v)) (ur_mem_state u AND OBMM_SHM_MEM_ACCESS_MASK) = Some (ops, reg1)"
    and s: "st' = set_kw w (upd_reg h (\<lambda>_. reg1) st)"
    and v: "v' = v\<lparr>vm_private_data := vm_flags v, vm_flags := (vm_flags v AND NOT OBMM_UPDATE_VM_FLAGS_MASK)
       OR (access_to_vm_flags (ur_mem_state u AND OBMM_SHM_MEM_ACCESS_MASK) AND OBMM_UPDATE_VM_FLAGS_MASK),
       vm_page_prot := mem_state_to_pgprot (ur_mem_state u)\<rparr>"
    by (rule update_vma_eq [OF assms(1)])
  show "moved h 0 [vma_move (scfg env) (mmap_granu (reg_at st h)) u v'] st st'"
    using moved_perm [OF e assms(3,2), of w] by (simp add: vma_move_def v s)
  show "saved v'" unfolding v by (rule saved_update)
  show "vm_start v' = vm_start v" "vm_end v' = vm_end v" "vm_file v' = vm_file v" "vm_ops v' = vm_ops v" "vm_private_data v' = vm_flags v"
    by (simp_all add: v)
qed

lemma view_append: "view (xs @ ys) a = (case view xs a of None \<Rightarrow> view ys a | Some r \<Rightarrow> Some r)"
  by (induction xs) (auto split: option.splits)

lemma view_split:
  assumes "vm_start v \<le> x" "x \<le> vm_end v"
  shows "view (v\<lparr>vm_end := x\<rparr> # v\<lparr>vm_start := x, vm_pgoff := n\<rparr> # vs) = view (v # vs)"
  using assms by (auto simp: fun_eq_iff not_less dest: order_less_le_trans)

lemma view_like:
  assumes "vm_start v' = vm_start v" "vm_end v' = vm_end v" "vm_flags v' = vm_flags v" "vm_file v' = vm_file v" "vm_ops v' = vm_ops v"
    "view vs' = view vs"
  shows "view (v' # vs') = view (v # vs)"
  using assms by (auto simp: fun_eq_iff)

lemma split_above_view:
  assumes "split_above env x v st = (ret, v1, his, st')" "objs st (vma_region v) \<noteq> None" "vm_start v < vm_end v" "vm_start v < x"
  shows "moved (vma_region v) (if ret = 0 then length his else 0) [] st st'
    \<and> (ret = 0 \<longrightarrow> vm_start v1 = vm_start v \<and> vm_start v < vm_end v1 \<and> view (v1 # his @ vs) = view (v # vs))
    \<and> (ret = 0 \<longrightarrow> his = [] \<longrightarrow> v1 = v)"
proof (cases "x < vm_end v")
  case False
  then show ?thesis using assms moved_refl [of st st] by (auto simp: split_above_def)
next
  case True
  then obtain l where s: "split_vma env v x st = (ret, v1, l, st')" "his = [l]"
    using assms(1) by (auto simp: split_above_def split: prod.splits)
  note sp = split_moved [OF s(1) assms(2)]
  show ?thesis using sp s(2) view_split [of v x] assms(4) True by (auto simp del: view.simps)
qed

lemma update_loop_result:
  assumes "update_loop env h u cursor cursor vs st = Some (ret, cur, m, ws, st')" "sorted_vmas vs" "\<forall>v \<in> set vs. cursor \<le> vm_start v"
    "objs st h \<noteq> None" "small_info (reg_at st h)"
  shows "loop_result env h u cursor vs st m ws st'"
  using assms
proof (induction vs arbitrary: cursor st ret cur m ws st')
  case Nil
  then show ?case using moved_refl by (auto simp: loop_result_def)
next
  case (Cons v vs)
  note eq = Cons.prems(1)
  let ?mv = "vma_move (scfg env) (mmap_granu (reg_at st h)) u"
  have idle: "loop_result env h u cursor (v # vs) st cursor (v # vs) s" if "moved h 0 [] st s" for s
    using that unfolding loop_result_def by (intro exI [of _ "[]"] exI [of _ "v # vs"] exI [of _ "0 :: nat"]) simp
  show ?case
  proof (cases "vm_start v \<ge> ur_end u \<or> vm_start v > cursor \<or> \<not> vm_ops v \<or> vm_file v = None \<or> vma_region v \<noteq> h")
    case True
    then have e: "ws = v # vs" "m = cursor" "st' = st" using eq by (auto split: if_splits)
    have "moved h 0 [] st st" by (rule moved_refl) simp
    then show ?thesis unfolding e by (rule idle)
  next
    case False
    then have v: "vma_region v = h" "vm_ops v" "vm_start v = cursor" "cursor < ur_end u" using Cons.prems(3) by auto
    have s1: "split_below env cursor v st = (0, [], v, st)" using v by (simp add: split_below_def)
    obtain r2 v2 his st2 where s2: "split_above env (ur_end u) v st = (r2, v2, his, st2)" by (metis prod_cases4)
    have a: "moved h (if r2 = 0 then length his else 0) [] st st2"
      "r2 = 0 \<Longrightarrow> vm_start v2 = cursor \<and> cursor < vm_end v2 \<and> view (v2 # his @ vs) = view (v # vs)"
      "r2 = 0 \<Longrightarrow> his = [] \<Longrightarrow> v2 = v"
      using split_above_view [OF s2] Cons.prems(2,4) v by auto
    show ?thesis
    proof (cases "r2 = 0")
      case r2: False
      then have "ws = v # vs" "m = cursor" "st' = st2" using eq False s1 s2 by (auto split: if_splits)
      then show ?thesis using idle a(1) r2 by simp
    next
      case r2: True
      have l2: "objs st2 h \<noteq> None" "small_info (reg_at st2 h)" "mmap_granu (reg_at st2 h) = mmap_granu (reg_at st h)"
        using moved_facts [OF a(1) Cons.prems(4)] Cons.prems(5) by simp_all
      obtain r3 v3 st3 where u: "update_vma env h u v2 st2 = Some (r3, v3, st3)"
        using eq False s1 s2 r2 by (auto split: if_splits option.splits)
      note uv = update_vma_moved [OF u l2(1,2)]
      have m3: "moved h (length his) [?mv v3] st st3" using moved_trans [OF a(1) uv(1)] r2 l2(3) by simp
      have w3: "view (restore v3 # his @ vs) = view (v # vs)"
        using view_like [of "restore v3" v2 "his @ vs" "his @ vs"] uv a(2) [OF r2] by (simp add: restore_def)
      show ?thesis
      proof (cases "r3 \<noteq> 0 \<or> his \<noteq> []")
        case True
        then have "ws = v3 # his @ vs" "m = vm_end v3" "st' = st3" using eq False s1 s2 r2 u by (auto split: if_splits)
        then show ?thesis using m3 w3 uv a(2) [OF r2] unfolding loop_result_def
          by (intro exI [of _ "[v3]"] exI [of _ "his @ vs"] exI [of _ "length his"]) simp
      next
        case r3: False
        then obtain ws1 where loop: "update_loop env h u (vm_end v3) (vm_end v3) vs st3 = Some (ret, cur, m, ws1, st')"
          and ws: "ws = v3 # ws1"
          using eq False s1 s2 r2 u by (auto split: if_splits)
        have v2: "v2 = v" using a(3) r2 r3 by simp
        have l3: "objs st3 h \<noteq> None" "small_info (reg_at st3 h)" "mmap_granu (reg_at st3 h) = mmap_granu (reg_at st h)"
          using moved_facts [OF m3 Cons.prems(4)] Cons.prems(5) by simp_all
        have srt: "sorted_vmas vs" "\<forall>w \<in> set vs. vm_end v3 \<le> vm_start w" using Cons.prems(2) uv(4) v2 by auto
        obtain mods post n where i: "ws1 = mods @ post" "chain (vm_end v3) mods m" "list_all saved mods"
          "view (map restore mods @ post) = view vs" "moved h n (map ?mv mods) st3 st'"
          using Cons.IH [OF loop srt l3(1,2)] l3(3) by (auto simp: loop_result_def)
        have "moved h n (map ?mv (v3 # mods)) st st'" using moved_trans [OF m3 i(5)] r3 by simp
        moreover have "view (map restore (v3 # mods) @ post) = view (v # vs)"
          using view_like [of "restore v3" "restore v3" "map restore mods @ post" vs] i(4) w3 r3 by simp
        ultimately show ?thesis using i ws uv a(2) [OF r2] unfolding loop_result_def
          by (intro exI [of _ "v3 # mods"] exI [of _ post] exI [of _ n]) simp
      qed
    qed
  qed
qed

text \<open>A mapping that begins before the range is split off first.\<close>

lemma update_loop_head:
  assumes "vm_start v < cursor" "cursor < ur_end u" "vm_ops v" "vm_file v \<noteq> None" "vma_region v = h"
    "split_vma env v cursor st = (0, lo, hi, st1)"
  shows "update_loop env h u cursor m (v # vs) st
    = map_option (\<lambda>(r, c, m', ws, s). (r, c, m', lo # ws, s)) (update_loop env h u cursor m (hi # vs) st1)"
proof -
  have hi: "vm_start hi = cursor" "vm_ops hi" "vm_file hi \<noteq> None" "vma_region hi = h"
    using assms by (auto simp: split_vma_def Let_def split: if_splits prod.splits)
  have b: "split_below env cursor v st = (0, [lo], hi, st1)" "split_below env cursor hi st1 = (0, [], hi, st1)"
    using assms(1,6) hi by (simp_all add: split_below_def)
  obtain r2 v2 his st2 where s2: "split_above env (ur_end u) hi st1 = (r2, v2, his, st2)" by (metis prod_cases4)
  show ?thesis using assms(1-5) hi b s2
    by (cases "update_vma env h u v2 st2") (auto simp: Let_def option.map_comp comp_def case_prod_unfold intro: order.strict_trans)
qed

lemma chain_le: "chain x vs y \<Longrightarrow> x \<le> y"
  by (induction vs arbitrary: x) (auto dest: order.strict_implies_order intro: order.trans)

lemma find_vma_append: "(\<forall>v \<in> set xs. vm_end v \<le> x) \<Longrightarrow> find_vma (xs @ ys) x = map_option (\<lambda>k. length xs + k) (find_vma ys x)"
  by (induction xs) (cases "find_vma ys x"; simp add: not_less)+

lemma restore_flags:
  assumes "saved v"
  shows "(vm_flags v AND NOT OBMM_UPDATE_VM_FLAGS_MASK) OR (vm_private_data v AND OBMM_UPDATE_VM_FLAGS_MASK) = vm_private_data v"
proof -
  have "(f AND NOT m) OR (f AND m) = f" for f m :: u64 by (rule bit_eqI) (auto simp: bit_simps)
  from this [of "vm_private_data v" OBMM_UPDATE_VM_FLAGS_MASK] show ?thesis using assms by (simp add: saved_def)
qed

lemma rollback_vma_moved:
  assumes "rollback_vma env h u v st = Some (v', st')" "objs st h \<noteq> None" "small_info (reg_at st h)" "saved v"
  shows "moved h 0 [mv_back (vma_move (scfg env) (mmap_granu (reg_at st h)) u v)] st st'"
    "vm_start v' = vm_start v" "vm_end v' = vm_end v" "vm_file v' = vm_file v" "vm_ops v' = vm_ops v" "vm_flags v' = vm_private_data v"
proof -
  obtain ops reg1 w where e: "update_vma_perm_count (scfg env) (reg_at st h) (vm_pgoff v) (drop_bit (PAGE_SHIFT (scfg env)) (vm_end v - vm_start v))
       (ur_mem_state u AND OBMM_SHM_MEM_ACCESS_MASK) (vm_flags_to_access (vm_private_data v)) = Some (ops, reg1)"
    and s: "st' = set_kw w (upd_reg h (\<lambda>_. reg1) st)"
    and v: "vm_start v' = vm_start v" "vm_end v' = vm_end v" "vm_file v' = vm_file v" "vm_ops v' = vm_ops v"
      "vm_flags v' = (vm_flags v AND NOT OBMM_UPDATE_VM_FLAGS_MASK) OR (vm_private_data v AND OBMM_UPDATE_VM_FLAGS_MASK)"
    by (rule rollback_vma_eq [OF assms(1)]) simp
  show "moved h 0 [mv_back (vma_move (scfg env) (mmap_granu (reg_at st h)) u v)] st st'"
    using moved_perm [OF e assms(3,2), of w] by (simp add: vma_move_def s)
  show "vm_start v' = vm_start v" "vm_end v' = vm_end v" "vm_file v' = vm_file v" "vm_ops v' = vm_ops v" by (fact v)+
  show "vm_flags v' = vm_private_data v" using v(5) restore_flags [OF assms(4)] by simp
qed

lemma rollback_result:
  assumes "rollback env h u m cursor (pfx @ mods @ post) st = Some (mm', st')" "chain cursor mods m" "\<forall>v \<in> set pfx. vm_end v \<le> cursor"
    "list_all saved mods" "objs st h \<noteq> None" "small_info (reg_at st h)"
  shows "moved h 0 (map (\<lambda>v. mv_back (vma_move (scfg env) (mmap_granu (reg_at st h)) u v)) mods) st st'
    \<and> view mm' = view (pfx @ map restore mods @ post)"
  using assms
proof (induction mods arbitrary: pfx cursor st)
  case Nil
  then show ?case using moved_refl [of st' st] by (simp add: rollback.simps)
next
  case (Cons v mods)
  have c: "cursor < m" using Cons.prems(2) chain_le [of "vm_end v" mods m] by (auto intro: order.strict_trans2)
  have f: "find_vma (pfx @ (v # mods) @ post) cursor = Some (length pfx)" using Cons.prems(2,3) by (simp add: find_vma_append)
  have sv: "saved v" "vm_start v = cursor" using Cons.prems(2,4) by auto
  obtain v' st1 where r: "rollback_vma env h u v st = Some (v', st1)"
    and rb: "rollback env h u m (vm_end v) ((pfx @ [v']) @ mods @ post) st1 = Some (mm', st')"
    using Cons.prems(1) c f sv by (subst (asm) rollback.simps) (auto simp: nth_append list_update_append split: option.splits)
  note rv = rollback_vma_moved [OF r Cons.prems(5,6) sv(1)]
  have l: "objs st1 h \<noteq> None" "small_info (reg_at st1 h)" "mmap_granu (reg_at st1 h) = mmap_granu (reg_at st h)"
    using moved_facts [OF rv(1) Cons.prems(5)] Cons.prems(6) by simp_all
  have p: "\<forall>w \<in> set (pfx @ [v']). vm_end w \<le> vm_end v" using Cons.prems(2,3) rv(3) by (auto intro: order.trans)
  have i: "moved h 0 (map (\<lambda>v. mv_back (vma_move (scfg env) (mmap_granu (reg_at st h)) u v)) mods) st1 st'
      \<and> view mm' = view ((pfx @ [v']) @ map restore mods @ post)"
    using Cons.IH [OF rb _ p _ l(1,2)] Cons.prems(2,4) l(3) by auto
  have "view ((pfx @ [v']) @ map restore mods @ post) = view (pfx @ map restore (v # mods) @ post)"
    using rv by (auto simp: fun_eq_iff view_append restore_def split: option.splits)
  then show ?case using moved_trans [OF rv(1)] i by fastforce
qed

text \<open>The run of the loop from the start of the range, a part split off below included.\<close>

lemma update_range_loop:
  assumes l: "update_loop env h u (ur_start u) (ur_start u) vs st = Some (ret, cur, m, ws, st')"
    and s: "sorted_vmas vs" "\<forall>v \<in> set vs. ur_start u < vm_end v" "ur_start u < ur_end u" and o: "objs st h \<noteq> None" "small_info (reg_at st h)"
  shows "\<exists>pfx mods post n. ws = pfx @ mods @ post \<and> (\<forall>v \<in> set pfx. vm_end v \<le> ur_start u) \<and> chain (ur_start u) mods m
    \<and> list_all saved mods \<and> view (pfx @ map restore mods @ post) = view vs
    \<and> moved h n (map (vma_move (scfg env) (mmap_granu (reg_at st h)) u) mods) st st'"
proof (cases "\<forall>v \<in> set vs. ur_start u \<le> vm_start v")
  case True
  have "loop_result env h u (ur_start u) vs st m ws st'" by (rule update_loop_result [OF l s(1) True o])
  then obtain mods post n where q: "ws = mods @ post" "chain (ur_start u) mods m" "list_all saved mods" "view (map restore mods @ post) = view vs"
    "moved h n (map (vma_move (scfg env) (mmap_granu (reg_at st h)) u) mods) st st'" by (auto simp: loop_result_def)
  show ?thesis using q by (intro exI [of _ "[]"] exI [of _ mods] exI [of _ post] exI [of _ n]) simp
next
  case False
  then obtain v vs' where vs: "vs = v # vs'" by (cases vs) auto
  have v: "vm_start v < ur_start u" "ur_start u < vm_end v" "\<forall>w \<in> set vs'. vm_end v \<le> vm_start w" "sorted_vmas vs'"
    using False s(1,2) vs by (auto simp: not_le dest: order.strict_trans2)
  have idle: ?thesis if "ws = v # vs'" "m = ur_start u" "moved h 0 [] st st'"
    using that vs by (intro exI [of _ "[]"] exI [of _ "v # vs'"] exI [of _ "0 :: nat"]) auto
  show ?thesis
  proof (cases "vm_ops v \<and> vm_file v \<noteq> None \<and> vma_region v = h")
    case False
    then have e: "ws = v # vs'" "m = ur_start u" "st' = st" using l v vs s(3) by (auto split: if_splits)
    moreover have "moved h 0 [] st st" by (rule moved_refl) simp
    ultimately show ?thesis using idle by simp
  next
    case True
    obtain r lo hi st1 where sp: "split_vma env v (ur_start u) st = (r, lo, hi, st1)" by (metis prod_cases4)
    note sm = split_moved [OF sp]
    show ?thesis
    proof (cases "r = 0")
      case False
      then have "ws = v # vs'" "m = ur_start u" "st' = st1" using l v vs s(3) True sp by (auto simp: split_below_def split: if_splits)
      then show ?thesis using idle sm(1) o(1) True False by simp
    next
      case r: True
      have h: "lo = v\<lparr>vm_end := ur_start u\<rparr>"
        "hi = v\<lparr>vm_start := ur_start u, vm_pgoff := vm_pgoff v + drop_bit (PAGE_SHIFT (scfg env)) (ur_start u - vm_start v)\<rparr>"
        "moved h 1 [] st st1" using sm o(1) True r by simp_all
      obtain ws1 where l1: "update_loop env h u (ur_start u) (ur_start u) (hi # vs') st1 = Some (ret, cur, m, ws1, st')" and ws: "ws = lo # ws1"
        using l update_loop_head [OF v(1) s(3) conjunct1 [OF True] conjunct1 [OF conjunct2 [OF True]] conjunct2 [OF conjunct2 [OF True]]
          sp [unfolded r], of "ur_start u" vs'] vs by (auto simp del: update_loop.simps)
      have o1: "objs st1 h \<noteq> None" "small_info (reg_at st1 h)" "mmap_granu (reg_at st1 h) = mmap_granu (reg_at st h)"
        using moved_facts [OF h(3) o(1)] o(2) by simp_all
      have srt: "sorted_vmas (hi # vs')" "\<forall>w \<in> set (hi # vs'). ur_start u \<le> vm_start w"
        using v h(2) by (auto dest: order.strict_trans2 intro: order.strict_implies_order)
      obtain mods post n where q: "ws1 = mods @ post" "chain (ur_start u) mods m" "list_all saved mods"
        "view (map restore mods @ post) = view (hi # vs')"
        "moved h n (map (vma_move (scfg env) (mmap_granu (reg_at st h)) u) mods) st1 st'"
        using update_loop_result [OF l1 srt o1(1,2)] o1(3) by (auto simp: loop_result_def)
      have "view (lo # map restore mods @ post) = view (lo # hi # vs')" using q(4) by (simp add: fun_eq_iff)
      also have "\<dots> = view vs" unfolding h(1,2) vs using view_split v by (simp only: order.strict_implies_order)
      finally show ?thesis using ws q h(1) moved_trans [OF h(3) q(5)]
        by (intro exI [of _ "[lo]"] exI [of _ mods] exI [of _ post] exI [of _ "1 + n"]) simp
    qed
  qed
qed

lemma sorted_dropWhile: "sorted_vmas vs \<Longrightarrow> sorted_vmas (dropWhile P vs)"
  by (induction vs) auto

lemma sorted_mem: "sorted_vmas vs \<Longrightarrow> v \<in> set vs \<Longrightarrow> vm_start v < vm_end v"
  by (induction vs) auto

lemma sorted_ends:
  assumes "sorted_vmas vs" "v \<in> set (dropWhile (\<lambda>v. vm_end v \<le> x) vs)"
  shows "x < vm_end v"
  using assms
proof (induction vs)
  case (Cons w vs)
  show ?case
  proof (cases "vm_end w \<le> x")
    case True
    then show ?thesis using Cons by simp
  next
    case False
    then have "v = w \<or> vm_end w \<le> vm_start v \<and> vm_start v < vm_end v" using Cons.prems sorted_mem by auto
    then show ?thesis using False by (auto simp: not_le)
  qed
qed simp


section \<open>Counters that no longer agree with the mappings\<close>


lemma osync_mmap_untracked:
  assumes m: "obmm_shm_fops_mmap env f v st = Some (0, v', st')" and o: "o_sync_file f" "objs st (private_data f) \<noteq> None"
  shows "ownership_info (reg_at st' (private_data f)) = ownership_info (reg_at st (private_data f))"
proof -
  let ?h = "private_data f"
  obtain mg v3 st1 where lk: "mmap_locked env f v3 mg st1 = Some (0, st')" and c: "counts ?h 0 st st1"
    and i: "ownership_info (reg_at st1 ?h) = ownership_info (reg_at st ?h)"
    using fops_mmap_cases [OF m o(2)] by auto
  have l: "objs st1 ?h \<noteq> None" using counts_live [OF c] o(2) by simp
  have "ownership_info (reg_at st' ?h) = ownership_info (reg_at st1 ?h)"
    using lk l o(1) by (auto simp: mmap_locked_def Let_def reset_cur_osync_def reg_at_upd live_def split: if_splits prod.splits)
  then show ?thesis using i by simp
qed

text \<open>C38: a non-cacheable mapping is not counted when it is made, but it is when it is closed.  If the array that tracks
  access exists, from an earlier cacheable mapping, the counters of a page that no one maps wrap around to 65535;
  the next cacheable writer makes them 0, and when it is closed, although it is the last writer, no write back is
  asked for.\<close>

theorem osync_close_wraps:
  assumes "obmm_shm_fops_mmap env f v st = Some (0, v', st1)" "vm_file v = Some f" "o_sync_file f" "objs st (private_data f) = Some r"
    and "ownership_info (region_of r) = Some own" "length (page_states own) < 2 ^ 64"
    and "vm_flags v' AND VM_WRITE \<noteq> 0" "obmm_vma_close env v' st1 = Some st2"
    and "unat (ownership_pgoff_to_index (scfg env) (reg_at st1 (private_data f)) (vm_pgoff v')) \<le> k"
      "k < unat (ownership_pgoff_to_index (scfg env) (reg_at st1 (private_data f)) (vm_pgoff v'))
         + unat (ownership_size_to_nentries (scfg env) (reg_at st1 (private_data f))
             (push_bit (PAGE_SHIFT (scfg env)) (drop_bit (PAGE_SHIFT (scfg env)) (vm_end v' - vm_start v'))))"
    and "k < length (page_states own)" "page_states own ! k = \<lparr>r_count = 0, w_count = 0\<rparr>"
  shows "\<exists>own' p. ownership_info (reg_at st2 (private_data f)) = Some own' \<and> page_states own' ! k = p
    \<and> p = \<lparr>r_count = 65535, w_count = 65535\<rparr>
    \<and> (let q = page_count_update OBMM_SHM_MEM_NO_ACCESS OBMM_SHM_MEM_READWRITE p
       in page_cache_op q (page_count_update OBMM_SHM_MEM_READWRITE OBMM_SHM_MEM_NO_ACCESS q) = OBMM_SHM_CACHE_NONE)"
proof -
  let ?h = "private_data f" and ?c = "scfg env"
  let ?np = "drop_bit (PAGE_SHIFT ?c) (vm_end v' - vm_start v')"
  let ?i = "unat (ownership_pgoff_to_index ?c (reg_at st1 ?h) (vm_pgoff v'))"
  let ?n = "unat (ownership_size_to_nentries ?c (reg_at st1 ?h) (push_bit (PAGE_SHIFT ?c) ?np))"
  have l: "objs st ?h \<noteq> None" using assms(4) by simp
  have "mapped_more f st st1" "vm_file v' = Some f" using fops_mmap_counts [OF assms(1) l] assms(2) by auto
  then have h: "vma_region v' = ?h" and l1: "objs st1 ?h \<noteq> None" by (auto simp: mapped_more_def)
  have o1: "ownership_info (reg_at st1 ?h) = Some own"
    using osync_mmap_untracked [OF assms(1,3) l] assms(4,5) by (simp add: reg_at_def)
  have acc: "vm_flags_to_access (vm_flags v') = OBMM_SHM_MEM_READWRITE" using assms(7) by (simp add: vm_flags_to_access_def)
  obtain ops reg1 w where p: "update_vma_perm_count ?c (reg_at st1 ?h) (vm_pgoff v') ?np OBMM_SHM_MEM_READWRITE OBMM_SHM_MEM_NO_ACCESS = Some (ops, reg1)"
    and s: "st2 = upd_reg ?h (\<lambda>r. let n = mmap_count r - 1
        in r\<lparr>mmap_count := n, mmap_mode := (if n = 0 then OBMM_MMAP_INIT else mmap_mode r)\<rparr>) (set_kw w (upd_reg ?h (\<lambda>_. reg1) st1))"
    using assms(8) by (auto simp: obmm_vma_close_def h acc Let_def split: option.splits)
  have "small_info (reg_at st1 ?h)" using o1 assms(6) by (simp add: small_info_def)
  then have "reg1 = shifted [(?i, ?n, OBMM_SHM_MEM_READWRITE, OBMM_SHM_MEM_NO_ACCESS)] (reg_at st1 ?h)"
    using perm_count_shift [OF p] by (simp add: ownership_pgoff_to_index_def ownership_size_to_nentries_def)
  then have r1: "ownership_info reg1 = Some (own\<lparr>page_states := upd_range ?i ?n (page_count_update OBMM_SHM_MEM_READWRITE OBMM_SHM_MEM_NO_ACCESS) (page_states own)\<rparr>)"
    using o1 by (simp add: shifted_def)
  have "ownership_info (reg_at st2 ?h) = ownership_info reg1"
    using l1 unfolding s by (auto simp: reg_at_upd live_def objs_upd_reg Let_def)
  moreover have "upd_range ?i ?n (page_count_update OBMM_SHM_MEM_READWRITE OBMM_SHM_MEM_NO_ACCESS) (page_states own) ! k
      = \<lparr>r_count = 65535, w_count = 65535\<rparr>"
    using assms(9-12) by (simp add: upd_range_nth page_count_update_def obmm_access_is_reader_def obmm_access_is_writer_def)
  ultimately show ?thesis using r1
    by (simp add: page_count_update_def page_cache_op_def obmm_access_is_reader_def obmm_access_is_writer_def)
qed

lemma some_pair: "map_option fst x = Some r \<Longrightarrow> x = Some (r, fst (snd (the x)), snd (snd (the x)))"
  by (cases x) auto

lemma demo_cc_mmap: "obmm_shm_fops_mmap (demo_shm_env 0) demo_cc_file (demo_vma demo_cc_file False False) (demo_shm_state 0x4000)
    = Some (0, fst demo_cc_mapped, snd demo_cc_mapped)"
  unfolding demo_cc_mapped_def by (rule some_pair) code_simp

lemma demo_nc_mmap: "obmm_shm_fops_mmap (demo_shm_env 0) demo_nc_file (demo_vma demo_nc_file False True) demo_idle_state
    = Some (0, fst demo_nc_mapped, snd demo_nc_mapped)"
  unfolding demo_nc_mapped_def by (rule some_pair) code_simp

lemma demo_nc_facts:
  "\<not> Option.is_none (objs demo_idle_state 0)" "\<not> Option.is_none (ownership_info (reg_at demo_idle_state 0))"
  "length (page_states demo_nc_own) = 4" "page_states demo_nc_own ! 2 = \<lparr>r_count = 0, w_count = 0\<rparr>"
  "vm_flags (fst demo_nc_mapped) AND VM_WRITE \<noteq> 0" "vm_pgoff (fst demo_nc_mapped) = 2" "vm_end (fst demo_nc_mapped) - vm_start (fst demo_nc_mapped) = 0x1000"
  "mmap_granu (reg_at (snd demo_nc_mapped) 0) = OBMM_MMAP_GRANU_PAGE"
  "\<not> Option.is_none (obmm_vma_close (demo_shm_env 0) (fst demo_nc_mapped) (snd demo_nc_mapped))"
  by code_simp+

lemma demo_scfg [simp]: "scfg (demo_shm_env k) = demo_cfg4k"
  by (simp add: demo_shm_env_def)

theorem osync_close_wraps_witness:
  "\<exists>st2 own'. obmm_vma_close (demo_shm_env 0) (fst demo_nc_mapped) (snd demo_nc_mapped) = Some st2
     \<and> ownership_info (reg_at st2 0) = Some own' \<and> page_states own' ! 2 = \<lparr>r_count = 65535, w_count = 65535\<rparr>"
proof -
  obtain st2 where c: "obmm_vma_close (demo_shm_env 0) (fst demo_nc_mapped) (snd demo_nc_mapped) = Some st2"
    using demo_nc_facts(9) by (auto simp: Option.is_none_def)
  obtain r where r: "objs demo_idle_state 0 = Some r" using demo_nc_facts(1) by (auto simp: Option.is_none_def)
  have o: "ownership_info (region_of r) = Some demo_nc_own"
    using demo_nc_facts(2) r by (auto simp: Option.is_none_def demo_nc_own_def reg_at_def)
  have p: "private_data demo_nc_file = 0" "o_sync_file demo_nc_file" by (simp_all add: demo_nc_file_def)
  have "\<exists>own' p. ownership_info (reg_at st2 (private_data demo_nc_file)) = Some own' \<and> page_states own' ! 2 = p
    \<and> p = \<lparr>r_count = 65535, w_count = 65535\<rparr>
    \<and> (let q = page_count_update OBMM_SHM_MEM_NO_ACCESS OBMM_SHM_MEM_READWRITE p
       in page_cache_op q (page_count_update OBMM_SHM_MEM_READWRITE OBMM_SHM_MEM_NO_ACCESS q) = OBMM_SHM_CACHE_NONE)"
    by (rule osync_close_wraps [OF demo_nc_mmap _ p(2) _ o _ demo_nc_facts(5) c])
      (use demo_nc_facts r p(1) in \<open>simp_all add: demo_vma_def demo_cfg4k_def ownership_pgoff_to_index_def ownership_size_to_nentries_def\<close>)
  then show ?thesis using c p(1) by auto
qed

theorem mappings_agree_witness:
  "shm_reachable (demo_shm_env 0) \<lparr>sst = snd demo_cc_mapped, mms = [[fst demo_cc_mapped]]\<rparr>
   \<and> mmap_count (reg_at (snd demo_cc_mapped) 0) = 1 \<and> mmap_mode (reg_at (snd demo_cc_mapped) 0) = OBMM_MMAP_NORMAL"
proof -
  let ?ini = "\<lparr>sst = demo_shm_state 0x4000, mms = []\<rparr>" and ?emp = "\<lparr>sst = demo_shm_state 0x4000, mms = [[]]\<rparr>"
  let ?s = "\<lparr>sst = snd demo_cc_mapped, mms = [[fst demo_cc_mapped]]\<rparr>"
  have a: "shm_reachable (demo_shm_env 0) ?ini"
    by (rule shm_reachable.start) (auto simp: demo_shm_state_def demo_shm_region_def zeroed_region_def split: if_splits)
  have b: "shm_step (demo_shm_env 0) ?ini ?emp" using shm_step.new_process [of "demo_shm_env 0" ?ini] by simp
  have c: "shm_step (demo_shm_env 0) ?emp ?s"
    using shm_step.mmap [of 0 ?emp "[]" "[]" "demo_vma demo_cc_file False False" demo_cc_file "demo_shm_env 0"]
      demo_cc_mmap by (simp add: demo_vma_def demo_cc_file_def demo_shm_state_def)
  have r: "shm_reachable (demo_shm_env 0) ?s" by (rule shm_reachable.step [OF shm_reachable.step [OF a b] c])
  have l: "\<not> Option.is_none (objs (snd demo_cc_mapped) 0)" "files_of 0 [fst demo_cc_mapped] = [demo_cc_file]"
    "\<not> o_sync_file demo_cc_file" by code_simp+
  obtain x where x: "objs (snd demo_cc_mapped) 0 = Some x" using l(1) by (auto simp: Option.is_none_def)
  show ?thesis using mappings_agree [OF r, of 0 x] x l r by (simp add: mapped_files_def reg_at_def)
qed


end
