(* ===== verification/Obmm_Export_User.thy ===== *)
theory Obmm_Export_User
  imports Obmm_Shm_Dev
begin

text \<open>
  Export of memory of a process (\<^verbatim>\<open>drivers/ub/obmm/obmm_export_from_user.c\<close> and the change of page attributes in
  \<^verbatim>\<open>obmm_cache.c\<close>).  The pages are pinned, counted as pinned in the address space, described by a scatter
  list, taken out of the kernel's linear mapping and made non-cacheable for the process, then flushed
  from the caches.  Tasks, address spaces, page attributes and pins are explicit, so that the balance of
  all references can be stated.  TLB maintenance is left out.
\<close>

section \<open>Data\<close>

text \<open>Tasks are found by their number in the initial name space; an address space is a number in a store.
  A huge page of an address space is an entry with its memory attributes; the pin counter of a page
  is found by its frame number.\<close>

datatype mem_attr = MT_NORMAL | MT_NORMAL_TAGGED | MT_NORMAL_NC | MT_DEVICE

record hugetlb_pte =
  hp_va :: u64
  hp_size :: u64
  hp_present :: bool
  hp_attr :: mem_attr

record mm_struct =
  pinned_vm :: int
  mm_users :: int
  hugetlbs :: "hugetlb_pte list"

record task_struct =
  t_tgid :: int
  t_start_time :: u64
  t_mm :: "nat option"
  t_usage :: int

record procs =
  tasks :: "int \<Rightarrow> task_struct option"
  mms :: "nat \<Rightarrow> mm_struct"
  page_pins :: "u64 \<Rightarrow> int"

record user_page =
  page_pfn :: u64
  page_huge :: bool
  page_nid :: int

record obmm_cmd_export_pid =
  xp_va :: u64
  xp_length :: u64
  xp_flags :: u64
  xp_uba :: u64
  xp_mem_id :: u64
  xp_tokenid :: u32
  xp_pid :: int
  xp_pxm_numa :: int
  xp_priv_len :: u16
  xp_vendor_len :: u16
  xp_deid :: "u8 list"
  xp_seid :: "u8 list"
  xp_vendor_info :: u64
  xp_priv :: u64

record obmm_cmd_unexport =
  ux_mem_id :: u64
  ux_flags :: u64

text \<open>The kernel calls that the export of user memory needs.  Pinning returns how many pages it has pinned,
  or an error, and the pages.\<close>

record ('k, 'w) export_env =
  base_e :: "('k, 'w) obmm_env"
  ummu_invalid_tid :: u32
  current_pid :: int
  pin_user_pages_remote :: "nat \<Rightarrow> u64 \<Rightarrow> u64 \<Rightarrow> 'k \<Rightarrow> int \<times> user_page list \<times> 'k"
  pin_user_pages_fast :: "u64 \<Rightarrow> u32 \<Rightarrow> 'k \<Rightarrow> int \<times> user_page list \<times> 'k"
  sg_alloc_from_pages :: "user_page list \<Rightarrow> u64 \<Rightarrow> 'k \<Rightarrow> int \<times> scatterlist list \<times> 'k"

record ('k, 'w) export_st =
  ecore :: "('k, 'w) obmm_state"
  procs_of :: procs

abbreviation ecfg :: "('k, 'w) export_env \<Rightarrow> mm_config" where "ecfg env \<equiv> cfg (base_e env)"

abbreviation kenv_of :: "('k, 'w) export_env \<Rightarrow> 'k exp_env" where "kenv_of env \<equiv> exp_e (base_e env)"

abbreviation ekmem :: "('k, 'w) export_st \<Rightarrow> 'k" where "ekmem st \<equiv> kmem_of (pool (ecore st))"

definition upd_procs :: "(procs \<Rightarrow> procs) \<Rightarrow> ('k, 'w) export_st \<Rightarrow> ('k, 'w) export_st" where
  "upd_procs f st = st\<lparr>procs_of := f (procs_of st)\<rparr>"

definition set_ekmem :: "'k \<Rightarrow> ('k, 'w) export_st \<Rightarrow> ('k, 'w) export_st" where
  "set_ekmem k st = st\<lparr>ecore := (ecore st)\<lparr>pool := set_kmem k (pool (ecore st))\<rparr>\<rparr>"

definition set_ekw :: "'w \<Rightarrow> ('k, 'w) export_st \<Rightarrow> ('k, 'w) export_st" where
  "set_ekw w st = st\<lparr>ecore := set_kw w (ecore st)\<rparr>"

section \<open>Tasks, address spaces and pins\<close>

definition upd_mm :: "nat \<Rightarrow> (mm_struct \<Rightarrow> mm_struct) \<Rightarrow> procs \<Rightarrow> procs" where
  "upd_mm m f ps = ps\<lparr>mms := (mms ps)(m := f (mms ps m))\<rparr>"

definition add_usage :: "int \<Rightarrow> int \<Rightarrow> procs \<Rightarrow> procs" where
  "add_usage n q ps = ps\<lparr>tasks := (tasks ps)(q := map_option (\<lambda>t. t\<lparr>t_usage := t_usage t + n\<rparr>) (tasks ps q))\<rparr>"

definition get_tsk_struct :: "int \<Rightarrow> int \<Rightarrow> procs \<Rightarrow> int option \<times> procs" where
  "get_tsk_struct current p ps =
     (let q = (if p = 0 then current else p)
      in if tasks ps q = None then (None, ps) else (Some q, add_usage 1 q ps))"

definition put_task_struct :: "int \<Rightarrow> procs \<Rightarrow> procs" where
  "put_task_struct q ps = add_usage (- 1) q ps"

definition get_task_mm :: "int \<Rightarrow> procs \<Rightarrow> nat option \<times> procs" where
  "get_task_mm q ps =
     (case t_mm (the (tasks ps q)) of
        None \<Rightarrow> (None, ps)
      | Some m \<Rightarrow> (Some m, upd_mm m (\<lambda>x. x\<lparr>mm_users := mm_users x + 1\<rparr>) ps))"

definition mmput :: "nat \<Rightarrow> procs \<Rightarrow> procs" where
  "mmput m ps = upd_mm m (\<lambda>x. x\<lparr>mm_users := mm_users x - 1\<rparr>) ps"

definition add_pinned :: "int \<Rightarrow> nat \<Rightarrow> procs \<Rightarrow> procs" where
  "add_pinned n m ps = upd_mm m (\<lambda>x. x\<lparr>pinned_vm := pinned_vm x + n\<rparr>) ps"

definition add_pins :: "int \<Rightarrow> u64 list \<Rightarrow> procs \<Rightarrow> procs" where
  "add_pins n pfns ps = ps\<lparr>page_pins := (\<lambda>p. page_pins ps p + n * int (count_list pfns p))\<rparr>"

section \<open>Memory attributes of huge pages\<close>

definition modify_hugetlb_prot :: "bool \<Rightarrow> hugetlb_pte \<Rightarrow> hugetlb_pte" where
  "modify_hugetlb_prot cacheable pte =
     (if \<not> hp_present pte then pte else pte\<lparr>hp_attr := (if cacheable then MT_NORMAL_TAGGED else MT_NORMAL_NC)\<rparr>)"

text \<open>The walk of the page table calls the function above for every huge page that the range touches.\<close>

definition walk_hugetlb :: "u64 \<Rightarrow> u64 \<Rightarrow> (hugetlb_pte \<Rightarrow> hugetlb_pte) \<Rightarrow> hugetlb_pte list \<Rightarrow> hugetlb_pte list" where
  "walk_hugetlb start stop f ptes =
     map (\<lambda>e. if start < stop \<and> hp_va e < stop \<and> start < hp_va e + hp_size e then f e else e) ptes"

definition modify_pgtable_prot :: "nat \<Rightarrow> u64 \<Rightarrow> u64 \<Rightarrow> bool \<Rightarrow> procs \<Rightarrow> int \<times> procs" where
  "modify_pgtable_prot m va sz cacheable ps =
     (let start = va; stop = start + sz
      in (0, upd_mm m (\<lambda>x. x\<lparr>hugetlbs := walk_hugetlb start stop (modify_hugetlb_prot cacheable) (hugetlbs x)\<rparr>) ps))"

section \<open>Memory of a process\<close>

text \<open>The frames of a scatter list element.\<close>

definition sg_pfns :: "mm_config \<Rightarrow> scatterlist \<Rightarrow> u64 list" where
  "sg_pfns c sg = map (\<lambda>i. drop_bit (PAGE_SHIFT c) (sg_phys sg) + of_nat i)
     [0..<unat ((ucast (sg_length sg) + PAGE_SIZE c - 1) div PAGE_SIZE c)]"

definition free_export_memory_pid :: "('k, 'w) export_env \<Rightarrow> obmm_export_region \<Rightarrow> ('k, 'w) export_st
    \<Rightarrow> obmm_export_region \<times> ('k, 'w) export_st" where
  "free_export_memory_pid env e_reg st =
     (let desc = mem_desc_pid e_reg; sz = mem_size (e_region e_reg);
          (tsk0, ps0) = get_tsk_struct (current_pid env) (pid desc) (procs_of st);
          (tsk, ps1) = (case tsk0 of
              Some q \<Rightarrow> if t_start_time (the (tasks ps0 q)) \<noteq> start_time desc then (None, put_task_struct q ps0) else (tsk0, ps0)
            | None \<Rightarrow> (None, ps0));
          (mm, ps2) = (case tsk of Some q \<Rightarrow> get_task_mm q ps1 | None \<Rightarrow> (None, ps1));
          ps3 = (case mm of
              Some m \<Rightarrow> mmput m (snd (modify_pgtable_prot m (user_va desc) sz True (add_pinned (- pinned desc) m ps2)))
            | None \<Rightarrow> ps2);
          ps4 = (case tsk of Some q \<Rightarrow> put_task_struct q ps3 | None \<Rightarrow> ps3);
          (_, k) = kernel_pgtable_set_export_invalid (ecfg env) (exp_kenv (kenv_of env)) (memseg_size (pool (ecore st))) e_reg 0 sz False (ekmem st);
          ps5 = fold (\<lambda>sg. add_pins (- 1) (sg_pfns (ecfg env) sg)) (sgt e_reg) ps4
      in (e_reg\<lparr>sgt := []\<rparr>, set_ekmem k (upd_procs (\<lambda>_. ps5) st)))"

text \<open>The loop over the pages: whether all are usable, the region with their sizes added, the nodes used.\<close>

fun check_pages :: "mm_config \<Rightarrow> obmm_export_region \<Rightarrow> nat set \<Rightarrow> user_page list \<Rightarrow> bool \<times> obmm_export_region \<times> nat set" where
  "check_pages c reg nmask [] = (True, reg, nmask)"
| "check_pages c reg nmask (p # ps) =
     (let nd = page_nid p
      in if \<not> page_huge p then (False, reg, nmask)
         else if nd < 0 \<or> nd \<ge> int OBMM_MAX_LOCAL_NUMA_NODES then (False, reg, nmask)
         else check_pages c (reg\<lparr>node_mem_size := (node_mem_size reg)[nat nd := node_mem_size reg ! nat nd + PAGE_SIZE c]\<rparr>)
                (insert (nat nd) nmask) ps)"

definition hisi_workarounds_check_page_list :: "('k, 'w) export_env \<Rightarrow> obmm_export_region \<Rightarrow> user_page list \<Rightarrow> bool \<times> obmm_export_region" where
  "hisi_workarounds_check_page_list env reg pages =
     (let (good, reg1, nmask) = check_pages (ecfg env) reg {} pages
      in if \<not> good then (False, reg1)
         else
           let reg2 = fold (\<lambda>nd r. r\<lparr>node_count := of_nat nd + 1\<rparr>) (sorted_list_of_set nmask) reg1
           in if affinity reg2 > int OBMM_MAX_LOCAL_NUMA_NODES \<or> affinity reg2 < 0 then (False, reg2)
              else (nodes_on_same_package (kenv_of env) (insert (nat (affinity reg2)) nmask), reg2))"

text \<open>The labels of the error path of \<open>alloc_export_memory_pid\<close>, from the last one up.\<close>

definition drop_tsk :: "int \<Rightarrow> ('k, 'w) export_st \<Rightarrow> ('k, 'w) export_st" where
  "drop_tsk q st = upd_procs (put_task_struct q) st"

definition drop_pinned :: "int \<Rightarrow> nat \<Rightarrow> u64 \<Rightarrow> ('k, 'w) export_st \<Rightarrow> ('k, 'w) export_st" where
  "drop_pinned q m nrpages st = drop_tsk q (upd_procs (\<lambda>ps. mmput m (add_pinned (- uint nrpages) m ps)) st)"

definition free_page_list :: "int \<Rightarrow> nat \<Rightarrow> u64 \<Rightarrow> int \<Rightarrow> user_page list \<Rightarrow> ('k, 'w) export_st \<Rightarrow> ('k, 'w) export_st" where
  "free_page_list q m nrpages npinned pages st =
     drop_pinned q m nrpages
       (if npinned > 0 then upd_procs (add_pins (- 1) (map page_pfn (take (nat npinned) pages))) st else st)"

text \<open>Pinning counts the pages that it reports.\<close>

definition pin_pages :: "('k, 'w) export_env \<Rightarrow> bool \<Rightarrow> nat \<Rightarrow> u64 \<Rightarrow> u64 \<Rightarrow> ('k, 'w) export_st
    \<Rightarrow> int \<times> user_page list \<times> ('k, 'w) export_st" where
  "pin_pages env remote_mm m va nrpages st =
     (let (npinned, pages, k) = (if remote_mm then pin_user_pages_remote env m va nrpages (ekmem st)
                                 else pin_user_pages_fast env va (ucast nrpages) (ekmem st))
      in (npinned, pages, set_ekmem k (upd_procs (add_pins 1 (map page_pfn (take (nat npinned) pages))) st)))"

text \<open>From the scatter list on: the kernel's own mapping, the mapping of the process, the caches.\<close>

definition invalidate_pages :: "('k, 'w) export_env \<Rightarrow> nat \<Rightarrow> obmm_export_region \<Rightarrow> ('k, 'w) export_st
    \<Rightarrow> (int \<times> obmm_export_region \<times> ('k, 'w) export_st) option" where
  "invalidate_pages env m e_reg st =
     (let sz = mem_size (e_region e_reg); va = user_va (mem_desc_pid e_reg);
          set_invalid = (\<lambda>inval st. let (ret, k) = kernel_pgtable_set_export_invalid (ecfg env) (exp_kenv (kenv_of env))
                                           (memseg_size (pool (ecore st))) e_reg 0 sz inval (ekmem st)
                                    in (ret, set_ekmem k st));
          (ret, st1) = set_invalid True st
      in if ret \<noteq> 0 then Some (ret, e_reg\<lparr>sgt := []\<rparr>, st1)
         else
           let (ret1, ps) = modify_pgtable_prot m va sz False (procs_of st1); st2 = upd_procs (\<lambda>_. ps) st1
           in if ret1 \<noteq> 0 then Some (ret1, e_reg\<lparr>sgt := []\<rparr>, snd (set_invalid False st2))
              else case obmm_region_flush_range (base_e env) (Export e_reg) 0 sz OBMM_SHM_CACHE_WB_INVAL (kw (ecore st2)) of
                     None \<Rightarrow> None
                   | Some (ret2, w) \<Rightarrow>
                       let st3 = set_ekw w st2
                       in if ret2 \<noteq> 0
                          then Some (ret2, e_reg\<lparr>sgt := []\<rparr>,
                                 snd (set_invalid False (upd_procs (\<lambda>ps. snd (modify_pgtable_prot m va sz True ps)) st3)))
                          else Some (0, e_reg, st3))"

text \<open>The part of \<open>alloc_export_memory_pid\<close> after the address space \<open>m\<close> of the task \<open>q\<close> has been found.\<close>

definition alloc_from_mm :: "('k, 'w) export_env \<Rightarrow> int \<Rightarrow> nat \<Rightarrow> u64 \<Rightarrow> obmm_export_region \<Rightarrow> ('k, 'w) export_st
    \<Rightarrow> (int \<times> obmm_export_region \<times> ('k, 'w) export_st) option" where
  "alloc_from_mm env q m nrpages e_reg st =
     (let cur = the (tasks (procs_of st) (current_pid env));
          desc = (mem_desc_pid e_reg)\<lparr>start_time := t_start_time (the (tasks (procs_of st) q))\<rparr>;
          remote_mm = (t_mm cur \<noteq> Some m);
          e1 = e_reg\<lparr>mem_desc_pid := (if remote_mm then desc else desc\<lparr>pid := t_tgid cur\<rparr>)\<rparr>;
          st1 = upd_procs (add_pinned (uint nrpages) m) st;
          (okay, k) = exp_alloc (kenv_of env) (ekmem st1);
          st2 = set_ekmem k st1
      in if \<not> okay then Some (- ENOMEM, e1, drop_pinned q m nrpages st2)
         else
           let (npinned, pages, st3) = pin_pages env remote_mm m (user_va desc) nrpages st2
           in if npinned < 0 then Some (npinned, e1, free_page_list q m nrpages npinned pages st3)
              else if npinned \<noteq> sint (ucast nrpages :: u32)
                then Some (- ENOMEM, e1, free_page_list q m nrpages npinned pages st3)
              else
                let (good, e2) = hisi_workarounds_check_page_list env e1 (take (nat npinned) pages)
                in if \<not> good then Some (- EOPNOTSUPP, e2, free_page_list q m nrpages npinned pages st3)
                   else
                     let (ret, sgs, k1) = sg_alloc_from_pages env (take (nat npinned) pages) (mem_size (e_region e2)) (ekmem st3);
                         st4 = set_ekmem k1 st3
                     in if ret \<noteq> 0 then Some (ret, e2, free_page_list q m nrpages npinned pages st4)
                        else case invalidate_pages env m (e2\<lparr>sgt := sgs\<rparr>) st4 of
                               None \<Rightarrow> None
                             | Some (ret1, e3, st5) \<Rightarrow>
                                 if ret1 \<noteq> 0 then Some (ret1, e3, free_page_list q m nrpages npinned pages st5)
                                 else Some (0, e3\<lparr>mem_desc_pid := (mem_desc_pid e3)\<lparr>pinned := npinned\<rparr>\<rparr>,
                                        drop_tsk q (upd_procs (mmput m) st5)))"

definition alloc_export_memory_pid :: "('k, 'w) export_env \<Rightarrow> obmm_export_region \<Rightarrow> ('k, 'w) export_st
    \<Rightarrow> (int \<times> obmm_export_region \<times> ('k, 'w) export_st) option" where
  "alloc_export_memory_pid env e_reg st =
     (let nrpages = drop_bit (PAGE_SHIFT (ecfg env)) (mem_size (e_region e_reg))
      in if nrpages = 0 then Some (- EINVAL, e_reg, st)
         else case get_tsk_struct (current_pid env) (pid (mem_desc_pid e_reg)) (procs_of st) of
                (None, ps) \<Rightarrow> Some (- ESRCH, e_reg, upd_procs (\<lambda>_. ps) st)
              | (Some q, ps) \<Rightarrow>
                  (case get_task_mm q ps of
                     (None, ps1) \<Rightarrow> Some (- ESRCH, e_reg, drop_tsk q (upd_procs (\<lambda>_. ps1) st))
                   | (Some m, ps1) \<Rightarrow> alloc_from_mm env q m nrpages e_reg (upd_procs (\<lambda>_. ps1) st)))"

section \<open>From the command to a region\<close>

definition obmm_cmd_export_pid_allowed :: "mm_config \<Rightarrow> obmm_cmd_export_pid \<Rightarrow> int" where
  "obmm_cmd_export_pid_allowed c cmd =
     (if xp_flags cmd AND NOT OBMM_EXPORT_FLAG_MASK \<noteq> 0 then - EINVAL
      else if xp_flags cmd AND OBMM_EXPORT_FLAG_ALLOW_MMAP \<noteq> 0 then - EINVAL
      else if xp_flags cmd AND OBMM_EXPORT_FLAG_FAST \<noteq> 0 then - EINVAL
      else if xp_length cmd = 0 then - EINVAL
      else if xp_length cmd mod PMD_SIZE c \<noteq> 0 then - EINVAL
      else 0)"

definition alloc_export_region_from_obmm_cmd_export_pid :: "'k exp_env \<Rightarrow> obmm_cmd_export_pid \<Rightarrow> 'k
    \<Rightarrow> (int + obmm_export_region) \<times> 'k" where
  "alloc_export_region_from_obmm_cmd_export_pid env cmd k =
     (let (okay, k1) = exp_alloc env k
      in if \<not> okay then (Inl (- ENOMEM), k1)
         else
           let (ret, flags) = export_flags_to_region_flags (xp_flags cmd);
               reg = zeroed_region\<lparr>device_released := 1, mem_size := xp_length cmd, mem_cap := 0, reg_flags := flags\<rparr>;
               e_reg = zeroed_e_reg\<lparr>mem_desc_pid := (mem_desc_pid zeroed_e_reg)\<lparr>pid := xp_pid cmd, user_va := xp_va cmd\<rparr>,
                         affinity := xp_pxm_numa cmd, e_deid := xp_deid cmd\<rparr>
           in if ret \<noteq> 0 then (Inl ret, k1)
              else
                let (ret1, reg1) = set_obmm_region_priv (\<lambda>p n. copy_from_user env p n k1) (ucast (xp_priv_len cmd)) (xp_priv cmd)
                                     (reg\<lparr>reg_flags := reg_flags reg OR OBMM_REGION_FLAG_MEMORY_FROM_USER\<rparr>)
                in if ret1 \<noteq> 0 then (Inl ret1, k1)
                   else
                     let (ret2, e2, k2) = set_export_vendor env (ucast (xp_vendor_len cmd)) (xp_vendor_info cmd) (e_reg\<lparr>e_region := reg1\<rparr>) k1
                     in if ret2 \<noteq> 0 then (Inl ret2, k2) else (Inr e2, k2))"

section \<open>Balance of references, pins and attributes\<close>

text \<open>The attributes after the huge pages of a range have been made cacheable or not.\<close>

definition recached :: "bool \<Rightarrow> nat \<Rightarrow> u64 \<Rightarrow> u64 \<Rightarrow> procs \<Rightarrow> procs" where
  "recached cacheable m va sz ps = snd (modify_pgtable_prot m va sz cacheable ps)"

text \<open>What a successful export holds of a process: pages counted as pinned, pins, non-cacheable pages.\<close>

definition user_memory_held :: "nat \<Rightarrow> u64 \<Rightarrow> u64 \<Rightarrow> int \<Rightarrow> u64 list \<Rightarrow> procs \<Rightarrow> procs" where
  "user_memory_held m va sz n pfns ps = recached False m va sz (add_pins 1 pfns (add_pinned n m ps))"

text \<open>The references that the request holds while it works.\<close>

definition busy :: "int \<Rightarrow> nat \<Rightarrow> procs \<Rightarrow> procs" where
  "busy q m ps = upd_mm m (\<lambda>x. x\<lparr>mm_users := mm_users x + 1\<rparr>) (add_usage 1 q ps)"

text \<open>What the export keeps of its description: the start time of the task it used, and the number of the
  process if the memory is the caller's own.\<close>

definition described :: "('k, 'w) export_env \<Rightarrow> int \<Rightarrow> nat \<Rightarrow> int \<Rightarrow> mem_description_pid \<Rightarrow> procs \<Rightarrow> mem_description_pid" where
  "described env q m n d ps =
     (let cur = the (tasks ps (current_pid env)); d1 = d\<lparr>start_time := t_start_time (the (tasks ps q)), pinned := n\<rparr>
      in if t_mm cur \<noteq> Some m then d1 else d1\<lparr>pid := t_tgid cur\<rparr>)"

text \<open>Everything that a process lent has been given back: the references on tasks and address spaces, the
  pages counted as pinned, and the pins are as before; a huge page is as before or cacheable.\<close>

definition given_back :: "procs \<Rightarrow> procs \<Rightarrow> bool" where
  "given_back ps ps' \<longleftrightarrow> tasks ps' = tasks ps \<and> page_pins ps' = page_pins ps
     \<and> (\<forall>m. pinned_vm (mms ps' m) = pinned_vm (mms ps m) \<and> mm_users (mms ps' m) = mm_users (mms ps m)
          \<and> list_all2 (\<lambda>e e'. e' = e \<or> e' = e\<lparr>hp_attr := MT_NORMAL_TAGGED\<rparr>) (hugetlbs (mms ps m)) (hugetlbs (mms ps' m)))"

text \<open>The process that the description of a region names is the owner \<open>m\<close> of the memory.\<close>

definition names_owner :: "obmm_export_region \<Rightarrow> nat \<Rightarrow> procs \<Rightarrow> bool" where
  "names_owner e m ps \<longleftrightarrow> pid (mem_desc_pid e) \<noteq> 0
     \<and> (\<exists>t. tasks ps (pid (mem_desc_pid e)) = Some t \<and> t_start_time t = start_time (mem_desc_pid e) \<and> t_mm t = Some m)"

text \<open>The kernel's conversion of pages to a scatter list keeps the pages.\<close>

definition sg_keeps_pages :: "('k, 'w) export_env \<Rightarrow> bool" where
  "sg_keeps_pages env \<longleftrightarrow> (\<forall>pages sz k sgs k'. sg_alloc_from_pages env pages sz k = (0, sgs, k')
     \<longrightarrow> mset (concat (map (sg_pfns (ecfg env)) sgs)) = mset (map page_pfn pages))"

text \<open>A process with two threads, 10 (the leader) and 11, and one huge page; the calling thread and whether
  the pages are huge are parameters.\<close>

definition demo_export_env :: "int \<Rightarrow> bool \<Rightarrow> (u64 list \<times> u64 list, unit) export_env" where
  "demo_export_env cur huge =
     \<lparr>base_e = demo_coherent_env\<lparr>cfg := \<lparr>PAGE_SHIFT = 16, PMD_SHIFT = 21, PUD_SHIFT = 30\<rparr>\<rparr>,
      ummu_invalid_tid = - 1, current_pid = cur,
      pin_user_pages_remote = (\<lambda>m va n k. (- EFAULT, [], k)),
      pin_user_pages_fast = (\<lambda>va n k. (int (unat n), map (\<lambda>i. \<lparr>page_pfn = 0x4000 + of_nat i, page_huge = huge, page_nid = 0\<rparr>) [0..<unat n], k)),
      sg_alloc_from_pages = (\<lambda>pages sz k. if list_ex (\<lambda>p. page_pfn p \<ge> 0x1000000000000) pages then (- EINVAL, [], k)
        else (0, map (\<lambda>p. \<lparr>sg_phys = push_bit 16 (page_pfn p), sg_length = 0x10000\<rparr>) pages, k))\<rparr>"

definition demo_procs :: procs where
  "demo_procs = \<lparr>tasks = [10 \<mapsto> \<lparr>t_tgid = 10, t_start_time = 100, t_mm = Some 0, t_usage = 1\<rparr>,
                         11 \<mapsto> \<lparr>t_tgid = 10, t_start_time = 200, t_mm = Some 0, t_usage = 1\<rparr>],
     mms = (\<lambda>_. \<lparr>pinned_vm = 0, mm_users = 1, hugetlbs = [\<lparr>hp_va = 0x200000, hp_size = 0x200000, hp_present = True, hp_attr = MT_NORMAL\<rparr>]\<rparr>),
     page_pins = (\<lambda>_. 0)\<rparr>"

definition demo_export_st :: "(u64 list \<times> u64 list, unit) export_st" where
  "demo_export_st = \<lparr>ecore = rst (reg_start demo_mempool (sys_st (pre_start ()))), procs_of = demo_procs\<rparr>"

definition demo_user_e :: obmm_export_region where
  "demo_user_e = zeroed_e_reg\<lparr>e_region := zeroed_region\<lparr>mem_size := 0x200000, reg_flags := OBMM_REGION_FLAG_MEMORY_FROM_USER\<rparr>,
     mem_desc_pid := (mem_desc_pid zeroed_e_reg)\<lparr>user_va := 0x200000\<rparr>\<rparr>"

definition demo_user_call :: "int \<Rightarrow> bool \<Rightarrow> (int \<times> obmm_export_region \<times> (u64 list \<times> u64 list, unit) export_st) option" where
  "demo_user_call cur huge = alloc_export_memory_pid (demo_export_env cur huge) demo_user_e demo_export_st"

lemma procs_views [simp]:
  "tasks (upd_mm m f ps) = tasks ps" "page_pins (upd_mm m f ps) = page_pins ps"
  "mms (upd_mm m f ps) = (mms ps)(m := f (mms ps m))"
  "mms (add_usage n q ps) = mms ps" "page_pins (add_usage n q ps) = page_pins ps"
  "tasks (add_usage n q ps) = (tasks ps)(q := map_option (\<lambda>t. t\<lparr>t_usage := t_usage t + n\<rparr>) (tasks ps q))"
  "tasks (add_pins n l ps) = tasks ps" "mms (add_pins n l ps) = mms ps"
  "page_pins (add_pins n l ps) = (\<lambda>p. page_pins ps p + n * int (count_list l p))"
  by (simp_all add: upd_mm_def add_usage_def add_pins_def)

lemma export_st_views [simp]:
  "procs_of (upd_procs f st) = f (procs_of st)" "ecore (upd_procs f st) = ecore st"
  "procs_of (set_ekmem k st) = procs_of st" "procs_of (set_ekw w st) = procs_of st"
  "procs_of (drop_tsk q st) = add_usage (- 1) q (procs_of st)" "ecore (drop_tsk q st) = ecore st"
  "ecore (set_ekw w st) = set_kw w (ecore st)"
  "ecore (set_ekmem k st) = (ecore st)\<lparr>pool := set_kmem k (pool (ecore st))\<rparr>"
  by (simp_all add: upd_procs_def set_ekmem_def set_ekw_def drop_tsk_def put_task_struct_def)

lemma walk_recache: "walk_hugetlb a b (modify_hugetlb_prot c) (walk_hugetlb a b (modify_hugetlb_prot d) l)
    = walk_hugetlb a b (modify_hugetlb_prot c) l"
  by (simp add: walk_hugetlb_def modify_hugetlb_prot_def)

lemmas procs_defs = recached_def modify_pgtable_prot_def mmput_def add_pinned_def put_task_struct_def Let_def

lemma procs_eqI: "tasks a = tasks b \<Longrightarrow> mms a = mms b \<Longrightarrow> page_pins a = page_pins b \<Longrightarrow> a = (b :: procs)"
  by simp

lemma recached_twice [simp]: "recached c m va sz (recached d m va sz ps) = recached c m va sz ps"
  by (rule procs_eqI) (simp_all add: procs_defs walk_recache)

lemma get_tskD:
  assumes "get_tsk_struct cur p ps = (r, ps')"
  shows "case r of None \<Rightarrow> ps' = ps | Some q \<Rightarrow> q = (if p = 0 then cur else p) \<and> tasks ps q \<noteq> None \<and> ps' = add_usage 1 q ps"
  using assms by (auto simp: get_tsk_struct_def Let_def split: if_splits)

lemma get_mmD:
  assumes "get_task_mm q ps = (r, ps')"
  shows "case r of None \<Rightarrow> ps' = ps
    | Some m \<Rightarrow> t_mm (the (tasks ps q)) = Some m \<and> ps' = upd_mm m (\<lambda>x. x\<lparr>mm_users := mm_users x + 1\<rparr>) ps"
  using assms by (auto simp: get_task_mm_def split: option.splits)

lemma busy_back: "add_usage (- 1) q (mmput m (busy q m ps)) = ps"
  by (rule procs_eqI) (auto simp: busy_def procs_defs fun_eq_iff option.map_comp o_def option.map_ident)

lemma busy_commute:
  "recached c m va sz (busy q m ps) = busy q m (recached c m va sz ps)"
  "add_pins n l (busy q m ps) = busy q m (add_pins n l ps)"
  "add_pinned n m (busy q m ps) = busy q m (add_pinned n m ps)"
  by (rule procs_eqI; simp add: busy_def procs_defs fun_eq_iff)+

lemma pins_commute:
  "add_pinned n m (add_pins i l ps) = add_pins i l (add_pinned n m ps)"
  "add_pins i l (recached c m va sz ps) = recached c m va sz (add_pins i l ps)"
  "add_pinned n m (recached c m va sz ps) = recached c m va sz (add_pinned n m ps)"
  by (rule procs_eqI; simp add: procs_defs fun_eq_iff)+

lemma pins_back [simp]:
  "add_pins (- 1) l (add_pins 1 l ps) = ps" "add_pinned (- n) m (add_pinned n m ps) = ps"
  "add_pins n [] ps = ps"
  by (rule procs_eqI; simp add: procs_defs fun_eq_iff)+

lemma drop_pinned_procs:
  "procs_of (drop_pinned q m n st) = add_usage (- 1) q (mmput m (add_pinned (- uint n) m (procs_of st)))"
  by (simp add: drop_pinned_def)

lemma free_page_list_procs:
  "procs_of (free_page_list q m n np pages st)
     = add_usage (- 1) q (mmput m (add_pinned (- uint n) m (add_pins (- 1) (map page_pfn (take (nat np) pages)) (procs_of st))))"
  by (simp add: free_page_list_def drop_pinned_procs)

lemma pin_pages_procs:
  assumes "pin_pages env rem m va n st = (np, pages, st')"
  shows "procs_of st' = add_pins 1 (map page_pfn (take (nat np) pages)) (procs_of st)"
  using assms by (auto simp: pin_pages_def Let_def split: prod.splits)

lemma modify_pgtable_eq: "modify_pgtable_prot m va sz c ps = (0, recached c m va sz ps)"
  by (simp add: recached_def modify_pgtable_prot_def Let_def)

lemma invalidate_pages_procs:
  assumes "invalidate_pages env m e st = Some (ret, e', st')"
  shows "e' = (if ret = 0 then e else e\<lparr>sgt := []\<rparr>)
    \<and> (if ret = 0 then procs_of st' = recached False m (user_va (mem_desc_pid e)) (mem_size (e_region e)) (procs_of st)
       else procs_of st' = procs_of st \<or> procs_of st' = recached True m (user_va (mem_desc_pid e)) (mem_size (e_region e)) (procs_of st))"
  using assms by (auto simp: invalidate_pages_def Let_def modify_pgtable_eq split: prod.splits if_splits option.splits)

lemma check_pages_keeps:
  "check_pages c e nm pages = (g, e', nm') \<Longrightarrow> mem_desc_pid e' = mem_desc_pid e \<and> e_region e' = e_region e \<and> sgt e' = sgt e
     \<and> mem_desc e' = mem_desc e"
  by (induction c e nm pages rule: check_pages.induct) (auto simp: Let_def split: if_splits)

lemma node_count_keeps:
  "mem_desc_pid (fold (\<lambda>nd r. r\<lparr>node_count := f nd\<rparr>) l e) = mem_desc_pid e \<and> e_region (fold (\<lambda>nd r. r\<lparr>node_count := f nd\<rparr>) l e) = e_region e
     \<and> mem_desc (fold (\<lambda>nd r. r\<lparr>node_count := f nd\<rparr>) l e) = mem_desc e"
  by (induction l arbitrary: e) auto

lemma hisi_check_keeps:
  assumes "hisi_workarounds_check_page_list env e pages = (g, e')"
  shows "mem_desc_pid e' = mem_desc_pid e \<and> e_region e' = e_region e \<and> mem_desc e' = mem_desc e"
  using assms check_pages_keeps
  by (fastforce simp: hisi_workarounds_check_page_list_def Let_def node_count_keeps split: prod.splits if_splits)

lemma usage_back: "add_usage (- 1) q (add_usage 1 q ps) = ps"
  by (rule procs_eqI) (auto simp: fun_eq_iff option.map_comp o_def option.map_ident)

lemmas procs_balance = busy_commute pins_commute pins_back busy_back drop_pinned_procs free_page_list_procs

lemma busy_tasks [simp]: "tasks (busy q m ps) x = map_option (\<lambda>t. if x = q then t\<lparr>t_usage := t_usage t + 1\<rparr> else t) (tasks ps x)"
  by (auto simp: busy_def option.map_ident)

lemma alloc_from_mm_result:
  assumes call: "alloc_from_mm env q m n e st = Some (ret, e', st')" and b: "procs_of st = busy q m ps" and t: "tasks ps q \<noteq> None"
    and c: "tasks ps (current_pid env) \<noteq> None"
  defines "va \<equiv> user_va (mem_desc_pid e)" and "sz \<equiv> mem_size (e_region e)"
  shows "if ret = 0
    then \<exists>pages k k'. procs_of st' = user_memory_held m va sz (uint n) (map page_pfn pages) ps
      \<and> sg_alloc_from_pages env pages sz k = (0, sgt e', k') \<and> mem_desc_pid e' = described env q m (sint (ucast n :: u32)) (mem_desc_pid e) ps
      \<and> 0 \<le> sint (ucast n :: u32)
    else procs_of st' = ps \<or> procs_of st' = recached True m va sz ps"
proof -
  obtain tq where tq: "tasks ps q = Some tq" using t by auto
  obtain tc where tc: "tasks ps (current_pid env) = Some tc" using c by auto
  have cur: "t_mm (the (tasks (procs_of st) (current_pid env))) = t_mm tc" "t_tgid (the (tasks (procs_of st) (current_pid env))) = t_tgid tc"
    "t_start_time (the (tasks (procs_of st) q)) = t_start_time tq"
    using tq tc by (simp_all add: b)
  have d: "described env q m i (mem_desc_pid e) ps = (if t_mm tc \<noteq> Some m then (mem_desc_pid e)\<lparr>start_time := t_start_time tq, pinned := i\<rparr>
      else (mem_desc_pid e)\<lparr>start_time := t_start_time tq, pinned := i, pid := t_tgid tc\<rparr>)" for i
    using tq tc by (simp add: described_def Let_def)
  show ?thesis
    using call unfolding alloc_from_mm_def Let_def cur
    by (auto simp: b procs_balance va_def sz_def d user_memory_held_def simp del: busy_tasks
        dest!: pin_pages_procs hisi_check_keeps invalidate_pages_procs split: prod.splits if_splits option.splits)
      (intro exI conjI, rule refl, assumption)+
qed

lemma alloc_from_mm_keeps:
  assumes "alloc_from_mm env q m n e st = Some (ret, e', st')"
  shows "e_region e' = e_region e \<and> mem_desc e' = mem_desc e"
  using assms unfolding alloc_from_mm_def Let_def
  by (auto dest!: hisi_check_keeps invalidate_pages_procs split: prod.splits if_splits option.splits)

lemma alloc_pid_keeps:
  assumes "alloc_export_memory_pid env e st = Some (ret, e', st')"
  shows "e_region e' = e_region e \<and> mem_desc e' = mem_desc e"
  using assms unfolding alloc_export_memory_pid_def Let_def
  by (auto dest!: alloc_from_mm_keeps split: prod.splits if_splits option.splits)

lemma alloc_pid_result:
  assumes call: "alloc_export_memory_pid env e st = Some (ret, e', st')" and c: "tasks (procs_of st) (current_pid env) \<noteq> None"
  defines "q \<equiv> if pid (mem_desc_pid e) = 0 then current_pid env else pid (mem_desc_pid e)"
    and "va \<equiv> user_va (mem_desc_pid e)" and "sz \<equiv> mem_size (e_region e)"
    and "n \<equiv> drop_bit (PAGE_SHIFT (ecfg env)) (mem_size (e_region e))" and "ps \<equiv> procs_of st"
  shows "if ret = 0
    then \<exists>t m pages k k'. tasks ps q = Some t \<and> t_mm t = Some m
      \<and> procs_of st' = user_memory_held m va sz (uint n) (map page_pfn pages) ps
      \<and> sg_alloc_from_pages env pages sz k = (0, sgt e', k') \<and> mem_desc_pid e' = described env q m (sint (ucast n :: u32)) (mem_desc_pid e) ps
      \<and> 0 \<le> sint (ucast n :: u32)
    else procs_of st' = ps \<or> (\<exists>m. procs_of st' = recached True m va sz ps)"
proof (cases "n = 0")
  case True
  then show ?thesis using call by (auto simp: alloc_export_memory_pid_def n_def ps_def)
next
  case False
  obtain tsk ps1 where g: "get_tsk_struct (current_pid env) (pid (mem_desc_pid e)) (procs_of st) = (tsk, ps1)" by fastforce
  show ?thesis
  proof (cases tsk)
    case None
    then show ?thesis using call False g get_tskD [OF g] by (auto simp: alloc_export_memory_pid_def n_def ps_def)
  next
    case (Some q')
    then have q: "q' = q" "tasks ps q \<noteq> None" "ps1 = add_usage 1 q ps" using get_tskD [OF g] by (auto simp: q_def ps_def)
    obtain mo ps2 where gm: "get_task_mm q ps1 = (mo, ps2)" by fastforce
    show ?thesis
    proof (cases mo)
      case None
      then show ?thesis using call False g gm Some q get_mmD [OF gm]
        by (auto simp: alloc_export_memory_pid_def n_def usage_back)
    next
      case mm: (Some m)
      then have b: "ps2 = busy q m ps" and tm: "t_mm (the (tasks ps q)) = Some m"
        using get_mmD [OF gm] q by (auto simp: busy_def)
      have "alloc_from_mm env q m n e (upd_procs (\<lambda>_. ps2) st) = Some (ret, e', st')"
        using call False g gm Some mm q by (simp add: alloc_export_memory_pid_def n_def)
      from alloc_from_mm_result [OF this _ q(2)] b c tm q(2) show ?thesis
        by (auto simp: ps_def va_def sz_def split: if_splits)
    qed
  qed
qed

lemma fold_unpin: "fold (\<lambda>sg. add_pins (- 1) (f sg)) l ps = add_pins (- 1) (concat (map f l)) ps"
proof (induction l arbitrary: ps)
  case (Cons a l)
  show ?case unfolding fold_simps comp_def Cons.IH
    by (rule procs_eqI) (simp_all add: fun_eq_iff)
qed simp

lemma free_pid_procs:
  assumes "free_export_memory_pid env e st = (e', st')"
  defines "d \<equiv> mem_desc_pid e" and "ps \<equiv> procs_of st"
  defines "q \<equiv> if pid d = 0 then current_pid env else pid d"
  shows "procs_of st' = add_pins (- 1) (concat (map (sg_pfns (ecfg env)) (sgt e)))
    (case tasks ps q of
       Some t \<Rightarrow> if t_start_time t = start_time d
                 then (case t_mm t of Some m \<Rightarrow> recached True m (user_va d) (mem_size (e_region e)) (add_pinned (- pinned d) m ps) | None \<Rightarrow> ps)
                 else ps
     | None \<Rightarrow> ps)"
proof -
  obtain tsk0 ps0 where g: "get_tsk_struct (current_pid env) (pid d) ps = (tsk0, ps0)" by fastforce
  note gd = get_tskD [OF g]
  show ?thesis
  proof (cases "tasks ps q")
    case None
    then have "tsk0 = None" "ps0 = ps" using gd by (auto simp: q_def split: option.splits if_splits)
    then show ?thesis using assms(1) None g unfolding free_export_memory_pid_def Let_def d_def [symmetric] ps_def [symmetric]
      by (auto simp: fold_unpin split: prod.splits)
  next
    case (Some t)
    then have g2: "tsk0 = Some q" "ps0 = add_usage 1 q ps" using g by (auto simp: get_tsk_struct_def q_def Let_def split: if_splits)
    then have tq: "tasks ps0 q = Some (t\<lparr>t_usage := t_usage t + 1\<rparr>)" using Some by simp
    show ?thesis
    proof (cases "t_start_time t = start_time d")
      case False
      then show ?thesis using assms(1) g g2 Some tq unfolding free_export_memory_pid_def Let_def d_def [symmetric] ps_def [symmetric]
        by (auto simp: fold_unpin usage_back put_task_struct_def split: prod.splits)
    next
      case True
      show ?thesis
      proof (cases "t_mm t")
        case None
        then have "get_task_mm q ps0 = (None, ps0)" using tq by (simp add: get_task_mm_def)
        then show ?thesis using assms(1) g g2 Some tq True None unfolding free_export_memory_pid_def Let_def d_def [symmetric] ps_def [symmetric]
          by (auto simp: fold_unpin usage_back put_task_struct_def split: prod.splits)
      next
        case mm: (Some m)
        then have "get_task_mm q ps0 = (Some m, busy q m ps)" using Some g2 by (simp add: get_task_mm_def busy_def)
        then show ?thesis using assms(1) g g2 Some tq True mm unfolding free_export_memory_pid_def Let_def d_def [symmetric] ps_def [symmetric]
          by (auto simp: fold_unpin put_task_struct_def modify_pgtable_eq procs_balance split: prod.splits)
      qed
    qed
  qed
qed

lemma given_back_refl: "given_back ps ps"
  by (simp add: given_back_def list_all2_same)

lemma given_back_recached: "given_back ps (recached True m va sz ps)"
  by (auto simp: given_back_def procs_defs walk_hugetlb_def modify_hugetlb_prot_def list_all2_conv_all_nth)

lemma add_pins_mset:
  assumes "mset l = mset l'"
  shows "add_pins n l ps = add_pins n l' ps"
proof -
  have "count_list l p = count_list l' p" for p using assms by (metis count_mset)
  then show ?thesis by (intro procs_eqI) simp_all
qed

lemma small_pages: "unat (n :: u64) < 2 ^ 31 \<Longrightarrow> sint (ucast n :: u32) = uint n"
proof -
  assume a: "unat n < 2 ^ 31"
  then have "unat n < 2147483648" by simp
  then have u: "uint n < 2147483648" unfolding uint_nat by linarith
  have e: "uint (ucast n :: u32) = uint n"
    unfolding unsigned_ucast_eq by (rule take_bit_int_eq_self) (use u in simp_all)
  have p: "- 2147483648 \<le> uint n" by (rule order_trans [of _ 0]) simp_all
  show ?thesis unfolding sint_uint e by (rule signed_take_bit_int_eq_self) (use u p in simp_all)
qed



text \<open>C40: a thread that is not the leader of its process and exports memory of its own process leaves a
  description that names the leader with the thread's start time.  When the region is released the
  leader is taken for another process, so that the pages stay counted as pinned and non-cacheable.\<close>

theorem thread_export_not_undone:
  assumes call: "alloc_export_memory_pid env e st = Some (0, e', st')" and own: "pid (mem_desc_pid e) = 0"
    and cur: "tasks (procs_of st) (current_pid env) = Some t" "t_mm t = Some m"
    and lead: "t_tgid t \<noteq> 0" "tasks (procs_of st) (t_tgid t) = Some l" "t_start_time l \<noteq> t_start_time t"
    and free: "free_export_memory_pid env e' st' = (e'', st'')"
  shows "pinned_vm (mms (procs_of st'') m)
      = pinned_vm (mms (procs_of st) m) + uint (drop_bit (PAGE_SHIFT (ecfg env)) (mem_size (e_region e)))
    \<and> hugetlbs (mms (procs_of st'') m) = walk_hugetlb (user_va (mem_desc_pid e)) (user_va (mem_desc_pid e) + mem_size (e_region e))
        (modify_hugetlb_prot False) (hugetlbs (mms (procs_of st) m))"
proof -
  have "tasks (procs_of st) (current_pid env) \<noteq> None" using cur(1) by simp
  note alloc_pid_result [OF call this, simplified own, simplified]
  then obtain t' m' and pages :: "user_page list" where
    raw: "tasks (procs_of st) (current_pid env) = Some t'" "t_mm t' = Some m'"
      "procs_of st' = user_memory_held m' (user_va (mem_desc_pid e)) (mem_size (e_region e))
          (uint (drop_bit (PAGE_SHIFT (ecfg env)) (mem_size (e_region e)))) (map page_pfn pages) (procs_of st)"
      "mem_desc_pid e' = described env (current_pid env) m'
          (sint (ucast (drop_bit (PAGE_SHIFT (ecfg env)) (mem_size (e_region e))) :: u32)) (mem_desc_pid e) (procs_of st)"
    by blast
  have m: "m' = m" "t' = t" using raw cur by simp_all
  note h = raw(3) [unfolded m]
  have d: "pid (mem_desc_pid e') = t_tgid t" "start_time (mem_desc_pid e') = t_start_time t"
    using raw(4) m cur by (simp_all add: described_def Let_def)
  have "tasks (procs_of st') = tasks (procs_of st)" by (simp add: h user_memory_held_def procs_defs)
  then have "procs_of st'' = add_pins (- 1) (concat (map (sg_pfns (ecfg env)) (sgt e'))) (procs_of st')"
    using free_pid_procs [OF free] d lead by simp
  then show ?thesis by (simp add: h user_memory_held_def procs_defs)
qed

section \<open>Examples\<close>

lemma demo_user_fails: "map_option fst (demo_user_call 10 False) = Some (- EOPNOTSUPP)"
  by code_simp

lemma demo_user_leader: "map_option (\<lambda>(r, e, _). (r, mem_desc_pid e)) (demo_user_call 10 True)
    = Some (0, \<lparr>pid = 10, user_va = 0x200000, pinned = 32, start_time = 100\<rparr>)"
  by code_simp

lemma demo_user_thread: "map_option fst (demo_user_call 11 True) = Some 0"
  by code_simp

lemma demo_current: "tasks (procs_of demo_export_st) 10 \<noteq> None" "tasks (procs_of demo_export_st) 11 \<noteq> None"
  by (simp_all add: demo_export_st_def demo_procs_def)

lemma demo_current_pid: "current_pid (demo_export_env c g) = c"
  by (simp add: demo_export_env_def)


lemma demo_sg_pfns:
  assumes "f < 0x1000000000000"
  shows "sg_pfns (ecfg (demo_export_env c g)) \<lparr>sg_phys = push_bit 16 f, sg_length = 0x10000\<rparr> = [f]"
proof -
  have "unat f < 0x1000000000000" using assms by (simp add: word_less_nat_alt)
  then have "unat (push_bit 16 f) = unat f * 65536" using u64_unat_push_bit [of f 16] by simp
  then have "unat (drop_bit 16 (push_bit 16 f)) = unat f" by (simp add: u64_unat_drop_bit)
  then have "drop_bit 16 (push_bit 16 f) = f" by (rule word_unat_eq_iff [THEN iffD2])
  then show ?thesis by (simp add: sg_pfns_def demo_export_env_def)
qed

lemma demo_sg_keeps_pages: "sg_keeps_pages (demo_export_env c g)"
  unfolding sg_keeps_pages_def
proof (intro allI impI)
  fix pages sz k sgs k'
  let ?sg = "\<lambda>p :: user_page. \<lparr>sg_phys = push_bit 16 (page_pfn p), sg_length = 0x10000\<rparr>"
  have keep: "concat (map (sg_pfns (ecfg (demo_export_env c g))) (map ?sg l)) = map page_pfn l"
    if "\<not> list_ex (\<lambda>p. page_pfn p \<ge> 0x1000000000000) l" for l
    using that by (induction l) (simp_all add: demo_sg_pfns not_le)
  assume "sg_alloc_from_pages (demo_export_env c g) pages sz k = (0, sgs, k')"
  then have sgs: "sgs = map ?sg pages" and small: "\<not> list_ex (\<lambda>p. page_pfn p \<ge> 0x1000000000000) pages"
    by (simp_all add: demo_export_env_def split: if_splits)
  show "mset (concat (map (sg_pfns (ecfg (demo_export_env c g))) sgs)) = mset (map page_pfn pages)"
    unfolding sgs keep [OF small] ..
qed


theorem thread_export_not_undone_witness:
  "pinned_vm (mms (procs_of (snd (free_export_memory_pid (demo_export_env 11 True) (fst (snd (the (demo_user_call 11 True))))
     (snd (snd (the (demo_user_call 11 True))))))) 0) = 32"
proof -
  let ?env = "demo_export_env 11 True"
  note c = some_pair [OF demo_user_thread, unfolded demo_user_call_def]
  have "tasks (procs_of demo_export_st) (current_pid ?env) = Some \<lparr>t_tgid = 10, t_start_time = 200, t_mm = Some 0, t_usage = 1\<rparr>"
    "tasks (procs_of demo_export_st) 10 = Some \<lparr>t_tgid = 10, t_start_time = 100, t_mm = Some 0, t_usage = 1\<rparr>"
    by (simp_all add: demo_export_st_def demo_procs_def demo_export_env_def)
  from thread_export_not_undone [OF c _ this(1) _ _ _ _ prod.collapse [symmetric]] this(2) show ?thesis
    by (simp add: demo_user_call_def demo_export_st_def demo_procs_def demo_export_env_def demo_user_e_def zeroed_e_reg_def)
qed

end
