(* ===== verification/Obmm_Export.thy ===== *)
theory Obmm_Export
  imports Obmm_Export_User
begin

text \<open>
  The export requests (\<^verbatim>\<open>drivers/ub/obmm/obmm_export.c\<close>, the last functions of \<^verbatim>\<open>obmm_export_from_pool.c\<close> and
  \<^verbatim>\<open>obmm_export_from_user.c\<close>): memory from the pool or from a process, a UMMU device that makes it reachable for
  other hosts, and a published region.  The main result is the balance between the pool and the regions:
  what the pool has handed out is exactly what the regions hold.
\<close>

section \<open>The UMMU device of a region\<close>

text \<open>The private data of the device are a copy of the vendor's bytes, or none.\<close>

definition fill_ummu_info :: "'k exp_env \<Rightarrow> obmm_export_region \<Rightarrow> 'k \<Rightarrow> (int + u8 list) \<times> 'k" where
  "fill_ummu_info env e_reg k =
     (if vendor_len e_reg > 0
      then let (okay, k1) = exp_alloc env k in (if \<not> okay then Inl (- ENOMEM) else Inr (take (unat (vendor_len e_reg)) (vendor_info e_reg)), k1)
      else (Inr [], k))"

definition setup_ummu :: "('k, 'w) export_env \<Rightarrow> obmm_export_region \<Rightarrow> 'k \<Rightarrow> int \<times> obmm_export_region \<times> 'k" where
  "setup_ummu env e_reg k =
     (case fill_ummu_info (kenv_of env) e_reg k of
        (Inl ret, k1) \<Rightarrow> (ret, e_reg, k1)
      | (Inr attr, k1) \<Rightarrow>
          let (dev, tid, k2) = ummu_core_alloc_tdev (kenv_of env) attr (ummu_invalid_tid env) k1; e1 = e_reg\<lparr>ummu_dev := dev\<rparr>
          in case dev of
               None \<Rightarrow> (- EPERM, e1, k2)
             | Some d \<Rightarrow>
                 let e2 = e1\<lparr>tokenid := tid\<rparr>; (ret, dma, k3) = dma_map_sgtable (kenv_of env) d (sgt e_reg) k2
                 in if ret \<noteq> 0 then let (_, k4) = ummu_core_free_tdev (kenv_of env) d k3 in (ret, e2, k4)
                    else (0, e2\<lparr>uba := dma\<rparr>, k3))"

definition teardown_ummu :: "('k, 'w) export_env \<Rightarrow> obmm_export_region \<Rightarrow> 'k \<Rightarrow> int \<times> 'k" where
  "teardown_ummu env e_reg k =
     (let d = the (ummu_dev e_reg); sgs = sgt e_reg;
          k1 = dma_unmap_sgtable (kenv_of env) d sgs k;
          (ret, k2) = ummu_core_free_tdev (kenv_of env) d k1
      in if ret = 0 then (0, k2)
         else
           let (rollback_ret, dma, k3) = dma_map_sgtable (kenv_of env) d sgs k2;
               ret1 = (if rollback_ret \<noteq> 0 then - ENOTRECOVERABLE else ret)
           in if uba e_reg \<noteq> dma then (- ENOTRECOVERABLE, dma_unmap_sgtable (kenv_of env) d sgs k3)
              else (ret1, k3))"

section \<open>Export and its undoing\<close>

definition alloc_export_memory :: "('k, 'w) export_env \<Rightarrow> obmm_export_region \<Rightarrow> ('k, 'w) export_st
    \<Rightarrow> (int \<times> obmm_export_region \<times> ('k, 'w) export_st) option" where
  "alloc_export_memory env e_reg st =
     (if region_memory_from_user (e_region e_reg) then alloc_export_memory_pid env e_reg st
      else map_option (\<lambda>(ret, e1, p). (ret, e1, st\<lparr>ecore := (ecore st)\<lparr>pool := p\<rparr>\<rparr>))
             (alloc_export_memory_pool (ecfg env) (kenv_of env) e_reg (pool (ecore st))))"

definition free_export_memory :: "('k, 'w) export_env \<Rightarrow> obmm_export_region \<Rightarrow> ('k, 'w) export_st
    \<Rightarrow> obmm_export_region \<times> ('k, 'w) export_st" where
  "free_export_memory env e_reg st =
     (if region_memory_from_user (e_region e_reg) then free_export_memory_pid env e_reg st
      else let (e1, p) = free_export_memory_pool (ecfg env) (kenv_of env) e_reg (pool (ecore st))
           in (e1, st\<lparr>ecore := (ecore st)\<lparr>pool := p\<rparr>\<rparr>))"

definition obmm_export_common :: "('k, 'w) export_env \<Rightarrow> obmm_export_region \<Rightarrow> ('k, 'w) export_st
    \<Rightarrow> (int \<times> obmm_export_region \<times> ('k, 'w) export_st) option" where
  "obmm_export_common env e_reg st =
     (case alloc_export_memory env e_reg st of
        None \<Rightarrow> None
      | Some (ret, e1, st1) \<Rightarrow>
          if ret \<noteq> 0 then Some (ret, e1, st1)
          else
            let (ret1, e2, k) = setup_ummu env e1 (ekmem st1); st2 = set_ekmem k st1
            in if ret1 \<noteq> 0 then let (e3, st3) = free_export_memory env e2 st2 in Some (ret1, e3, st3)
               else Some (0, e2, st2))"

definition obmm_unexport_common :: "('k, 'w) export_env \<Rightarrow> obmm_export_region \<Rightarrow> ('k, 'w) export_st
    \<Rightarrow> int \<times> obmm_export_region \<times> ('k, 'w) export_st" where
  "obmm_unexport_common env e_reg st =
     (let (ret, k) = teardown_ummu env e_reg (ekmem st); st1 = set_ekmem k st
      in if ret \<noteq> 0 then (ret, e_reg, st1)
         else let (e1, st2) = free_export_memory env e_reg st1 in (0, e1, st2))"

section \<open>The requests\<close>

fun as_export :: "any_region \<Rightarrow> obmm_export_region" where
  "as_export (Export e) = e"
| "as_export (Import i) = zeroed_e_reg"

abbreviation e_at :: "nat \<Rightarrow> ('k, 'w) export_st \<Rightarrow> obmm_export_region" where
  "e_at h st \<equiv> as_export (the (objs (ecore st) h))"

definition upd_core :: "(('k, 'w) obmm_state \<Rightarrow> ('k, 'w) obmm_state) \<Rightarrow> ('k, 'w) export_st \<Rightarrow> ('k, 'w) export_st" where
  "upd_core f st = st\<lparr>ecore := f (ecore st)\<rparr>"

definition free_export_region :: "('k, 'w) export_env \<Rightarrow> nat \<Rightarrow> ('k, 'w) export_st \<Rightarrow> ('k, 'w) export_st option" where
  "free_export_region env h st =
     map_option (\<lambda>c. st\<lparr>ecore := kfree_region h c\<rparr>) (wait_until_dev_released (base_e env) h (ecore st))"

text \<open>The part that both export requests share once the region has been allocated: the result, the new
  region's number, token and address, and the state.\<close>

definition export_new_region :: "('k, 'w) export_env \<Rightarrow> obmm_export_region \<Rightarrow> ('k, 'w) export_st
    \<Rightarrow> (int \<times> (u64 \<times> u32 \<times> u64) \<times> ('k, 'w) export_st) option" where
  "export_new_region env e_reg st =
     (let (h, c1) = kzalloc_region (Export e_reg) (ecore st);
          (ret, c2) = init_obmm_region (base_e env) h c1; st1 = st\<lparr>ecore := c2\<rparr>
      in if ret \<noteq> 0 then map_option (\<lambda>s. (ret, (0, 0, 0), s)) (free_export_region env h st1)
         else case obmm_export_common env (e_at h st1) st1 of
                None \<Rightarrow> None
              | Some (ret1, e1, st2) \<Rightarrow>
                  let st3 = upd_core (set_obj h (Export e1)) st2
                  in if ret1 \<noteq> 0
                     then map_option (\<lambda>s. (ret1, (0, 0, 0), s)) (free_export_region env h (upd_core (uninit_obmm_region h) st3))
                     else
                       let (ret2, c3) = register_obmm_region (base_e env) h (ecore st3); st4 = st3\<lparr>ecore := c3\<rparr>
                       in if ret2 \<noteq> 0
                          then let (_, e2, st5) = obmm_unexport_common env (e_at h st4) st4
                               in map_option (\<lambda>s. (ret2, (0, 0, 0), s))
                                    (free_export_region env h (upd_core (uninit_obmm_region h) (upd_core (set_obj h (Export e2)) st5)))
                          else Some (0, (word_of_int (regionid (e_region e1)), tokenid e1, uba e1),
                                 upd_core (activate_obmm_region h) st4))"

definition obmm_export_from_pool :: "('k, 'w) export_env \<Rightarrow> obmm_cmd_export \<Rightarrow> ('k, 'w) export_st
    \<Rightarrow> (int \<times> obmm_cmd_export \<times> ('k, 'w) export_st) option" where
  "obmm_export_from_pool env cmd st =
     (case alloc_region_from_cmd (kenv_of env) (memseg_size (pool (ecore st))) cmd (ekmem st) of
        (Inl err, k) \<Rightarrow> Some (err, cmd, set_ekmem k st)
      | (Inr e_reg, k) \<Rightarrow>
          map_option (\<lambda>(ret, (mem_id, tid, a), st1).
              (ret, if ret = 0 then cmd\<lparr>ex_tokenid := tid, ex_uba := a, ex_mem_id := mem_id\<rparr> else cmd, st1))
            (export_new_region env e_reg (set_ekmem k st)))"

definition obmm_export_pid :: "('k, 'w) export_env \<Rightarrow> obmm_cmd_export_pid \<Rightarrow> ('k, 'w) export_st
    \<Rightarrow> (int \<times> obmm_cmd_export_pid \<times> ('k, 'w) export_st) option" where
  "obmm_export_pid env cmd st =
     (let ret = obmm_cmd_export_pid_allowed (ecfg env) cmd
      in if ret \<noteq> 0 then Some (ret, cmd, st)
         else case alloc_export_region_from_obmm_cmd_export_pid (kenv_of env) cmd (ekmem st) of
                (Inl err, k) \<Rightarrow> Some (err, cmd, set_ekmem k st)
              | (Inr e_reg, k) \<Rightarrow>
                  map_option (\<lambda>(ret, (mem_id, tid, a), st1).
                      (ret, if ret = 0 then cmd\<lparr>xp_tokenid := tid, xp_uba := a, xp_mem_id := mem_id\<rparr> else cmd, st1))
                    (export_new_region env e_reg (set_ekmem k st)))"

definition obmm_unexport :: "('k, 'w) export_env \<Rightarrow> obmm_cmd_unexport \<Rightarrow> ('k, 'w) export_st
    \<Rightarrow> (int \<times> ('k, 'w) export_st) option" where
  "obmm_unexport env cmd st =
     (if \<not> validate_obmm_mem_id (ux_mem_id cmd) then Some (- ENOENT, st)
      else if ux_flags cmd AND NOT OBMM_UNEXPORT_FLAG_MASK \<noteq> 0 then Some (- EINVAL, st)
      else case search_deactivate_obmm_region (uint (ux_mem_id cmd)) (ecore st) of
             (Inl err, c) \<Rightarrow> Some (err, st\<lparr>ecore := c\<rparr>)
           | (Inr h, c) \<Rightarrow>
               (case objs c h of
                  None \<Rightarrow> None
                | Some (Import _) \<Rightarrow> Some (- EINVAL, st\<lparr>ecore := activate_obmm_region h c\<rparr>)
                | Some (Export e) \<Rightarrow>
                    let (ret, e1, st1) = obmm_unexport_common env e (st\<lparr>ecore := c\<rparr>);
                        st2 = upd_core (set_obj h (Export e1)) st1
                    in if ret \<noteq> 0 then Some (ret, upd_core (activate_obmm_region h) st2)
                       else map_option (\<lambda>s. (0, s))
                              (free_export_region env h
                                 (upd_core (\<lambda>c. uninit_obmm_region h (deregister_obmm_region (base_e env) h c)) st2))))"

section \<open>Who holds the segments of the pool\<close>

abbreviation (input) no_segs :: "memseg_node list list" where "no_segs \<equiv> replicate OBMM_MAX_LOCAL_NUMA_NODES []"

text \<open>The number of segments of a node that a region holds, and that all regions hold.\<close>

fun held_by :: "any_region option \<Rightarrow> nat \<Rightarrow> nat" where
  "held_by (Some (Export e)) k = length (mem_desc e ! k)"
| "held_by (Some (Import i)) k = 0"
| "held_by None k = 0"

definition held :: "('k, 'w) obmm_state \<Rightarrow> nat list" where
  "held st = map (\<lambda>k. \<Sum>h<next_obj st. held_by (objs st h) k) [0..<OBMM_MAX_LOCAL_NUMA_NODES]"

text \<open>The description of a region with memory of a process is not used for segments.\<close>

fun desc_ok :: "any_region option \<Rightarrow> bool" where
  "desc_ok (Some (Export e)) \<longleftrightarrow> length (mem_desc e) = OBMM_MAX_LOCAL_NUMA_NODES
     \<and> (region_memory_from_user (e_region e) \<longrightarrow> mem_desc e = no_segs)"
| "desc_ok (Some (Import i)) \<longleftrightarrow> True"
| "desc_ok None \<longleftrightarrow> True"

definition pool_agrees :: "('k, 'w) obmm_state \<Rightarrow> bool" where
  "pool_agrees st \<longleftrightarrow> mempool_inv (held st) (pool st) no_segs \<and> (\<forall>h. desc_ok (objs st h))
     \<and> (\<forall>h \<ge> next_obj st. objs st h = None)"

text \<open>Requests that manage regions, one after the other.\<close>

datatype request = Req_Export obmm_cmd_export | Req_Export_Pid obmm_cmd_export_pid | Req_Unexport obmm_cmd_unexport
  | Req_Import obmm_cmd_import | Req_Unimport obmm_cmd_unimport

fun serve :: "('k, 'w) export_env \<Rightarrow> request \<Rightarrow> ('k, 'w) export_st \<Rightarrow> (int \<times> ('k, 'w) export_st) option" where
  "serve env (Req_Export cmd) st = map_option (\<lambda>(r, _, s). (r, s)) (obmm_export_from_pool env cmd st)"
| "serve env (Req_Export_Pid cmd) st = map_option (\<lambda>(r, _, s). (r, s)) (obmm_export_pid env cmd st)"
| "serve env (Req_Unexport cmd) st = obmm_unexport env cmd st"
| "serve env (Req_Import cmd) st = map_option (\<lambda>(r, _, c). (r, st\<lparr>ecore := c\<rparr>)) (obmm_import (base_e env) cmd (ecore st))"
| "serve env (Req_Unimport cmd) st = map_option (\<lambda>(r, c). (r, st\<lparr>ecore := c\<rparr>)) (obmm_unimport (base_e env) cmd (ecore st))"

fun serve_all :: "('k, 'w) export_env \<Rightarrow> request list \<Rightarrow> ('k, 'w) export_st \<Rightarrow> ('k, 'w) export_st option" where
  "serve_all env [] st = Some st"
| "serve_all env (q # qs) st = (case serve env q st of None \<Rightarrow> None | Some (_, st1) \<Rightarrow> serve_all env qs st1)"

text \<open>What a step that does not touch memory leaves alone.\<close>

fun keeps_mem :: "any_region option \<Rightarrow> any_region option \<Rightarrow> bool" where
  "keeps_mem (Some (Export e)) r' \<longleftrightarrow> (\<exists>e'. r' = Some (Export e') \<and> mem_desc e' = mem_desc e
     \<and> region_memory_from_user (e_region e') = region_memory_from_user (e_region e))"
| "keeps_mem (Some (Import i)) r' \<longleftrightarrow> (\<exists>i'. r' = Some (Import i'))"
| "keeps_mem None r' \<longleftrightarrow> r' = None"

definition same_mem :: "('k, 'w) obmm_state \<Rightarrow> ('k, 'w) obmm_state \<Rightarrow> bool" where
  "same_mem st st' \<longleftrightarrow> pool st' = pool st \<and> next_obj st' = next_obj st \<and> (\<forall>h. keeps_mem (objs st h) (objs st' h))"

text \<open>The state while the memory of region \<open>h\<close> changes: apart from it, the regions hold what the pool has
  handed out, but for \<open>desc\<close>.\<close>

definition agrees_but :: "nat \<Rightarrow> memseg_node list list \<Rightarrow> ('k, 'w) obmm_state \<Rightarrow> bool" where
  "agrees_but h desc st \<longleftrightarrow> mempool_inv (held (kfree_region h st)) (pool st) desc \<and> (\<forall>h'. h' \<noteq> h \<longrightarrow> desc_ok (objs st h'))
     \<and> (\<forall>h' \<ge> next_obj st. objs st h' = None) \<and> h < next_obj st"

text \<open>What the memory of an export leaves alone of the driver's state.\<close>

definition same_store :: "('k, 'w) obmm_state \<Rightarrow> ('k, 'w) obmm_state \<Rightarrow> bool" where
  "same_store c c' \<longleftrightarrow> objs c' = objs c \<and> next_obj c' = next_obj c \<and> regions c' = regions c \<and> devs c' = devs c \<and> ida c' = ida c"

definition same_pool :: "'k ubmempool \<Rightarrow> 'k ubmempool \<Rightarrow> bool" where
  "same_pool p p' \<longleftrightarrow> (\<exists>k. p' = set_kmem k p)"

text \<open>The UMMU takes its devices back.\<close>

definition tdev_free_ok :: "('k, 'w) export_env \<Rightarrow> bool" where
  "tdev_free_ok env \<longleftrightarrow> (\<forall>d k. fst (ummu_core_free_tdev (kenv_of env) d k) = 0)"

definition demo_cmd_export :: obmm_cmd_export where
  "demo_cmd_export = \<lparr>ex_size = [0x200000], ex_length = 1, ex_flags = 0, ex_uba = 0, ex_mem_id = 0, ex_tokenid = 0, ex_pxm_numa = 0,
     ex_priv_len = 0, ex_vendor_len = 0, ex_deid = replicate 16 0, ex_seid = replicate 16 0, ex_vendor_info = 0, ex_priv = 0\<rparr>"

definition demo_requests_env :: " (u64 list \<times> u64 list, unit) export_env" where
  "demo_requests_env = (demo_export_env 10 True)\<lparr>base_e := (base_e (demo_export_env 10 True))\<lparr>cfg := demo_cfg\<rparr>\<rparr>"

lemma keeps_mem_refl: "keeps_mem r r"
  by (cases "(r, 0 :: nat)" rule: held_by.cases) auto

lemma keeps_mem_trans: "keeps_mem a b \<Longrightarrow> keeps_mem b c \<Longrightarrow> keeps_mem a c"
  by (cases "(a, b)" rule: keeps_mem.cases) auto

lemma keeps_mem_held: "keeps_mem a b \<Longrightarrow> held_by b k = held_by a k \<and> (desc_ok b = desc_ok a)"
  by (cases "(a, b)" rule: keeps_mem.cases) auto

lemma keeps_mem_map:
  assumes "\<And>r. region_memory_from_user (f r) = region_memory_from_user r"
  shows "keeps_mem a (map_option (map_region f) a)"
  using assms by (cases "(a, a)" rule: keeps_mem.cases) auto

lemma same_mem_refl [simp]: "same_mem st st"
  by (simp add: same_mem_def keeps_mem_refl)

lemma same_mem_trans: "same_mem a b \<Longrightarrow> same_mem b c \<Longrightarrow> same_mem a c"
  unfolding same_mem_def using keeps_mem_trans by metis

lemma same_mem_agrees: "same_mem st st' \<Longrightarrow> pool_agrees st \<Longrightarrow> pool_agrees st'"
  unfolding same_mem_def pool_agrees_def held_def using keeps_mem_held
  by (metis (no_types, lifting) keeps_mem.simps(3) map_cong sum.cong)

lemma same_mem_upd [simp]:
  assumes "\<And>r. region_memory_from_user (f r) = region_memory_from_user r"
  shows "same_mem a (upd_reg h f b) \<longleftrightarrow> same_mem a b"
proof -
  have "keeps_mem r (map_option (map_region f) r') \<longleftrightarrow> keeps_mem r r'" for r r'
    using assms by (cases "(r, r')" rule: keeps_mem.cases; cases r'; cases "the r'") auto
  then show ?thesis by (auto simp: same_mem_def upd_reg_def)
qed

lemma same_mem_fields [simp]:
  "same_mem a (set_kw w b) = same_mem a b" "same_mem a (add_module_refs n b) = same_mem a b"
  "same_mem a (b\<lparr>regions := l\<rparr>) = same_mem a b" "same_mem a (b\<lparr>devs := l\<rparr>) = same_mem a b"
  "same_mem a (b\<lparr>ida := i\<rparr>) = same_mem a b" "same_mem a (b\<lparr>pre := p\<rparr>) = same_mem a b"
  by (simp_all add: same_mem_def set_kw_def add_module_refs_def)

lemma flags_kept [simp]:
  "region_memory_from_user (r\<lparr>refcnt := i\<rparr>) = region_memory_from_user r"
  "region_memory_from_user (r\<lparr>regionid := i\<rparr>) = region_memory_from_user r"
  "region_memory_from_user (r\<lparr>device_released := i\<rparr>) = region_memory_from_user r"
  "region_memory_from_user (r\<lparr>mmap_count := i, mmap_mode := mo\<rparr>) = region_memory_from_user r"
  "region_memory_from_user (release_ownership_info r) = region_memory_from_user r"
  by (simp_all add: region_memory_from_user_def release_ownership_info_def split: option.split)

lemma dev_mem [simp]:
  "same_mem a (obmm_shm_dev_release h b) = same_mem a b" "same_mem a (obmm_shm_dev_del env h b) = same_mem a b"
  "same_mem a (activate_obmm_region h b) = same_mem a b" "same_mem a (uninit_obmm_region h b) = same_mem a b"
  "same_mem a (deregister_obmm_region env h b) = same_mem a b"
  by (simp_all add: obmm_shm_dev_release_def obmm_shm_dev_del_def activate_obmm_region_def uninit_obmm_region_def
      deregister_obmm_region_def remove_obmm_region_def Let_def)

lemma wait_mem: "wait_until_dev_released env h st = Some st' \<Longrightarrow> same_mem st st'"
  by (auto simp: wait_until_dev_released_def split: if_splits)

lemma dev_add_mem: "obmm_shm_dev_add env h st = (ret, st') \<Longrightarrow> same_mem st st'"
  by (auto simp: obmm_shm_dev_add_def Let_def split: if_splits prod.splits)

lemma init_mem: "init_obmm_region env h st = (ret, st') \<Longrightarrow> same_mem st st'"
  by (auto simp: init_obmm_region_def Let_def split: if_splits prod.splits)

lemma register_mem: "register_obmm_region env h st = (ret, st') \<Longrightarrow> same_mem st st'"
  by (auto simp: register_obmm_region_def insert_obmm_region_def Let_def dest!: dev_add_mem split: prod.splits if_splits option.splits)

lemma deactivate_mem: "search_deactivate_obmm_region rid st = (r, st') \<Longrightarrow> same_mem st st'"
  by (auto simp: search_deactivate_obmm_region_def disable_obmm_region_get_def Let_def split: option.splits if_splits prod.splits)

lemma held_split:
  assumes "h < next_obj st" "k < OBMM_MAX_LOCAL_NUMA_NODES"
  shows "held st ! k = held (kfree_region h st) ! k + held_by (objs st h) k"
proof -
  have "(\<Sum>i<next_obj st. held_by (objs st i) k) = held_by (objs st h) k + (\<Sum>i\<in>{..<next_obj st} - {h}. held_by (objs st i) k)"
    using assms(1) by (intro sum.remove) auto
  also have "(\<Sum>i\<in>{..<next_obj st} - {h}. held_by (objs st i) k) = (\<Sum>i<next_obj st. held_by (if i = h then None else objs st i) k)"
    using assms(1) by (subst sum.remove [of _ h]) (auto intro: sum.cong)
  finally show ?thesis using assms(2) by (simp add: held_def kfree_region_def fun_upd_def)
qed

lemma length_held [simp]: "length (held st) = OBMM_MAX_LOCAL_NUMA_NODES"
  by (simp add: held_def)

lemma agrees_exportD:
  assumes "pool_agrees st" "objs st h = Some (Export e)"
  shows "agrees_but h (mem_desc e) st" "desc_ok (Some (Export e))"
proof -
  show d: "desc_ok (Some (Export e))" using assms by (metis pool_agrees_def)
  have lt: "h < next_obj st" using assms by (metis leI option.distinct(1) pool_agrees_def)
  show "agrees_but h (mem_desc e) st"
    using assms lt d held_split [OF lt] by (simp add: pool_agrees_def agrees_but_def mempool_inv_def)
qed

lemma agrees_exportI:
  assumes "agrees_but h (mem_desc e) st" "objs st h = Some (Export e)" "desc_ok (Some (Export e))"
  shows "pool_agrees st"
proof -
  have lt: "h < next_obj st" using assms(1) by (simp add: agrees_but_def)
  have "desc_ok (objs st h')" for h' using assms by (cases "h' = h") (auto simp: agrees_but_def)
  then show ?thesis
    using assms(1,2) held_split [OF lt] by (simp add: pool_agrees_def agrees_but_def mempool_inv_def)
qed

lemma agrees_kfree: "agrees_but h no_segs st \<Longrightarrow> pool_agrees (kfree_region h st)"
  by (auto simp: agrees_but_def pool_agrees_def kfree_region_def)

lemma agrees_but_set: "agrees_but h d st \<Longrightarrow> agrees_but h d (set_obj h r st)"
  by (auto simp: agrees_but_def set_obj_def kfree_region_def held_def)

lemma agrees_but_mem:
  assumes "same_mem st st'" "agrees_but h d st"
  shows "agrees_but h d st'"
proof -
  have k: "held_by (objs st' x) i = held_by (objs st x) i \<and> desc_ok (objs st' x) = desc_ok (objs st x)" for x i
    using assms(1) keeps_mem_held by (metis same_mem_def)
  have "held (kfree_region h st') = held (kfree_region h st)"
    using assms(1) k by (auto simp: held_def kfree_region_def same_mem_def intro!: sum.cong)
  moreover have "objs st' x = None" if "objs st x = None" for x
    using assms(1) that by (metis keeps_mem.simps(3) same_mem_def)
  ultimately show ?thesis using assms k by (auto simp: agrees_but_def same_mem_def)
qed

lemma agrees_fresh:
  assumes "pool_agrees st" "kzalloc_region r st = (h, st')"
  shows "agrees_but h no_segs st' \<and> objs st' h = Some r"
proof -
  have h: "h = next_obj st" "st' = st\<lparr>objs := (objs st)(h \<mapsto> r), next_obj := Suc h\<rparr>"
    using assms(2) by (auto simp: kzalloc_region_def)
  have "objs st h = None" using assms(1) h by (simp add: pool_agrees_def)
  then have "held (kfree_region h st') = held st"
    using h by (auto simp: held_def kfree_region_def lessThan_Suc intro!: sum.cong)
  then show ?thesis using assms(1) h by (auto simp: pool_agrees_def agrees_but_def)
qed

lemma agrees_import:
  assumes "agrees_but h no_segs st" "objs st h = Some (Import i)"
  shows "pool_agrees st"
proof -
  have lt: "h < next_obj st" using assms(1) by (simp add: agrees_but_def)
  have "desc_ok (objs st h')" for h' using assms by (cases "h' = h") (auto simp: agrees_but_def)
  then show ?thesis
    using assms(1,2) held_split [OF lt] by (simp add: pool_agrees_def agrees_but_def mempool_inv_def)
qed

lemma agrees_importD:
  assumes "pool_agrees st" "objs st h = Some (Import i)"
  shows "agrees_but h no_segs st"
proof -
  have lt: "h < next_obj st" using assms by (metis leI option.distinct(1) pool_agrees_def)
  then show ?thesis using assms held_split [OF lt] by (simp add: pool_agrees_def agrees_but_def mempool_inv_def)
qed

lemma agrees_but_pre: "agrees_but h d (st\<lparr>pre := p\<rparr>) = agrees_but h d st"
  by (simp add: agrees_but_def held_def kfree_region_def)

lemma free_ireg_agrees:
  assumes "free_ireg env h st = Some st'" "agrees_but h no_segs st"
  shows "pool_agrees st'"
proof -
  obtain z where "wait_until_dev_released env h st = Some z" "st' = kfree_region h z" using assms(1) by (auto simp: free_ireg_def)
  then show ?thesis using agrees_kfree [OF agrees_but_mem [OF wait_mem assms(2)]] by simp
qed

lemma same_mem_import: "same_mem st st' \<Longrightarrow> objs st h = Some (Import i) \<Longrightarrow> \<exists>i'. objs st' h = Some (Import i')"
  unfolding same_mem_def by (elim conjE allE [of _ h]) simp

lemma same_mem_export: "same_mem st st' \<Longrightarrow> objs st h = Some (Export e) \<Longrightarrow> \<exists>e'. objs st' h = Some (Export e') \<and> mem_desc e' = mem_desc e
    \<and> region_memory_from_user (e_region e') = region_memory_from_user (e_region e)"
  unfolding same_mem_def by (elim conjE allE [of _ h]) simp

lemma objs_set_obj [simp]: "objs (set_obj h r st) h = Some r"
  by (simp add: set_obj_def)

lemma import_agrees:
  assumes "obmm_import env cmd st = Some (ret, cmd', st')" "pool_agrees st"
  shows "pool_agrees st'"
proof -
  obtain okay w where a: "alloc_ok (pre_e env) (kw st) = (okay, w)" by fastforce
  have st0: "pool_agrees (set_kw w st)" using assms(2) by (rule same_mem_agrees [rotated]) simp
  show ?thesis
  proof (cases okay)
    case False
    then show ?thesis using assms(1) a st0 by (simp add: obmm_import_def)
  next
    case True
    let ?new = "Import (zeroed_i_reg\<lparr>i_region := zeroed_region\<lparr>device_released := 1\<rparr>\<rparr>)"
    obtain h st1 where kz: "kzalloc_region ?new (set_kw w st) = (h, st1)" by fastforce
    obtain ret0 i where ini: "init_import_region_from_cmd (\<lambda>p n. user_data env p n w) cmd (as_import (the (objs st1 h))) = (ret0, i)"
      by fastforce
    let ?st2 = "set_obj h (Import i) st1"
    have st2: "agrees_but h no_segs ?st2" using agrees_fresh [OF st0 kz] agrees_but_set by blast
    obtain ret1 st3 where ir: "init_obmm_region env h ?st2 = (ret1, st3)" by fastforce
    have st3: "agrees_but h no_segs st3" using agrees_but_mem [OF init_mem [OF ir] st2] .
    note eqs = obmm_import_def a kz ini ir True Let_def
    consider "ret0 \<noteq> 0" | "ret0 = 0" "ret1 \<noteq> 0" | "ret0 = 0" "ret1 = 0" by blast
    then show ?thesis
    proof cases
      case 1
      then have "free_ireg env h ?st2 = Some st'" using assms(1) by (auto simp: eqs)
      then show ?thesis using st2 by (rule free_ireg_agrees)
    next
      case 2
      then have "free_ireg env h st3 = Some st'" using assms(1) by (auto simp: eqs)
      then show ?thesis using st3 by (rule free_ireg_agrees)
    next
      case 3
      obtain p where "prepare_import_memory (pre_e env) h (as_import (the (objs st3 h))) (pre st3) = Some p"
        using assms(1) 3 by (cases "prepare_import_memory (pre_e env) h (as_import (the (objs st3 h))) (pre st3)") (simp_all add: eqs)
      then obtain ret2 i2 ps where pr: "prepare_import_memory (pre_e env) h (as_import (the (objs st3 h))) (pre st3) = Some (ret2, i2, ps)"
        by (metis prod_cases3)
      let ?st4 = "set_obj h (Import i2) (st3\<lparr>pre := ps\<rparr>)"
      have st4: "agrees_but h no_segs ?st4" using st3 by (intro agrees_but_set) (simp add: agrees_but_pre)
      obtain ret3 st5 where rg: "register_obmm_region env h ?st4 = (ret3, st5)" by fastforce
      have st5: "agrees_but h no_segs st5" using agrees_but_mem [OF register_mem [OF rg] st4] .
      consider "ret2 \<noteq> 0" | "ret2 = 0" "ret3 \<noteq> 0" | "ret2 = 0" "ret3 = 0" by blast
      then show ?thesis
      proof cases
        case 1
        then have "free_ireg env h (uninit_obmm_region h ?st4) = Some st'" using assms(1) 3 by (simp add: eqs pr)
        then show ?thesis by (rule free_ireg_agrees) (rule agrees_but_mem [OF _ st4], simp)
      next
        case 2
        have r: "map_option (\<lambda>s. (ret3, cmd, s)) (case release_import_memory env h (as_import (the (objs st5 h))) (pre st5) of None \<Rightarrow> None
            | Some (x, i3, ps3) \<Rightarrow> free_ireg env h (uninit_obmm_region h (set_obj h (Import i3) (st5\<lparr>pre := ps3\<rparr>)))) = Some (ret, cmd', st')"
          using assms(1) 2 3 by (cases "release_import_memory env h (as_import (the (objs st5 h))) (pre st5)") (simp_all add: eqs pr rg case_prod_beta)
        then obtain i3 ps3 where "free_ireg env h (uninit_obmm_region h (set_obj h (Import i3) (st5\<lparr>pre := ps3\<rparr>))) = Some st'"
          by (auto split: option.splits)
        moreover have "agrees_but h no_segs (set_obj h (Import i3) (st5\<lparr>pre := ps3\<rparr>))" using st5 by (intro agrees_but_set) (simp add: agrees_but_pre)
        ultimately show ?thesis by (elim free_ireg_agrees) (erule agrees_but_mem [rotated], simp)
      next
        case ok: 3
        then have st': "st' = activate_obmm_region h st5" using assms(1) 3 by (simp add: eqs pr rg)
        then have "same_mem ?st4 st'" using register_mem [OF rg] by simp
        from same_mem_import [OF this, of h i2] agrees_but_mem [OF this st4] show ?thesis using agrees_import by auto
      qed
    qed
  qed
qed

lemma unimport_agrees:
  assumes "obmm_unimport env cmd st = Some (ret, st')" "pool_agrees st"
  shows "pool_agrees st'"
proof -
  obtain r c where d: "search_deactivate_obmm_region (uint (um_mem_id cmd)) st = (r, c)" by fastforce
  have c: "pool_agrees c" using same_mem_agrees [OF deactivate_mem [OF d] assms(2)] .
  show ?thesis
  proof (cases "validate_obmm_mem_id (um_mem_id cmd) \<and> um_flags cmd AND NOT OBMM_UNIMPORT_FLAG_MASK = 0 \<and> (\<exists>h. r = Inr h)")
    case False
    then show ?thesis using assms c d by (auto simp: obmm_unimport_def split: if_splits sum.splits)
  next
    case True
    then obtain h where h: "r = Inr h" by blast
    note eqs = obmm_unimport_def d h
    consider (none) "objs c h = None" | (exp) e where "objs c h = Some (Export e)" | (imp) i where "objs c h = Some (Import i)"
      by (cases "objs c h"; cases "the (objs c h)") auto
    then show ?thesis
    proof cases
      case none
      then show ?thesis using assms(1) True by (simp add: eqs)
    next
      case exp
      then have "st' = activate_obmm_region h c" using assms(1) True by (simp add: eqs)
      then show ?thesis using same_mem_agrees [OF _ c] by simp
    next
      case imp
      obtain ret1 i1 ps where rel: "release_import_memory env h i (pre c) = Some (ret1, i1, ps)"
        using assms(1) True imp by (cases "release_import_memory env h i (pre c)") (auto simp: eqs)
      let ?c2 = "set_obj h (Import i1) (c\<lparr>pre := ps\<rparr>)"
      have c2: "agrees_but h no_segs ?c2" using agrees_importD [OF c imp] by (intro agrees_but_set) (simp add: agrees_but_pre)
      show ?thesis
      proof (cases "ret1 = 0")
        case False
        then have st': "st' = activate_obmm_region h ?c2" using assms(1) True imp rel by (simp add: eqs)
        then have m: "same_mem ?c2 st'" by simp
        from same_mem_import [OF m, of h i1] obtain i2 where "objs st' h = Some (Import i2)" by auto
        from agrees_import [OF agrees_but_mem [OF m c2] this] show ?thesis .
      next
        case ok: True
        then have "free_ireg env h (uninit_obmm_region h (deregister_obmm_region env h ?c2)) = Some st'"
          using assms(1) True imp rel by (simp add: eqs)
        then show ?thesis by (rule free_ireg_agrees) (rule agrees_but_mem [OF _ c2], simp)
      qed
    qed
  qed
qed

section \<open>Export keeps the balance\<close>

lemma set_kmem_twice [simp]: "set_kmem k (set_kmem k' p) = set_kmem k p"
  by (simp add: set_kmem_def)

lemma same_pool_kmem [simp]: "same_pool p (set_kmem k p') = same_pool p p'"
proof
  assume "same_pool p (set_kmem k p')"
  then obtain k' where "set_kmem k p' = set_kmem k' p" by (auto simp: same_pool_def)
  then have "set_kmem (kmem_of p') (set_kmem k p') = set_kmem (kmem_of p') (set_kmem k' p)" by simp
  then show "same_pool p p'" by (auto simp: same_pool_def set_kmem_def)
qed (auto simp: same_pool_def)

lemma same_pool_refl [simp]: "same_pool p p"
  by (auto simp: same_pool_def set_kmem_def intro!: exI [of _ "kmem_of p"])

lemma same_pool_kmem_left [simp]: "same_pool (set_kmem k p) p' = same_pool p p'"
  by (simp add: same_pool_def)

lemma same_pool_inv: "same_pool p p' \<Longrightarrow> mempool_inv hs p' d = mempool_inv hs p d"
  by (auto simp: same_pool_def)

lemma same_store_simps [simp]:
  "same_store c c" "same_store c (c'\<lparr>pool := p\<rparr>) = same_store c c'" "same_store (c\<lparr>pool := p\<rparr>) c' = same_store c c'"
  "same_store c (set_kw w c') = same_store c c'"
  by (simp_all add: same_store_def set_kw_def)

lemma pool_set_kw [simp]: "pool (set_kw w c) = pool c"
  by (simp add: set_kw_def)

lemma ecore_labels [simp]:
  "ecore (drop_pinned q m n st) = ecore st" "ecore (free_page_list q m n np pages st) = ecore st"
  by (simp_all add: drop_pinned_def free_page_list_def)

lemma pin_pages_store:
  assumes "pin_pages env rem m va n st = (np, pages, st')"
  shows "\<exists>k. ecore st' = (ecore st)\<lparr>pool := set_kmem k (pool (ecore st))\<rparr>"
  using assms by (auto simp: pin_pages_def Let_def split: prod.splits)

lemma invalidate_pages_store:
  assumes "invalidate_pages env m e st = Some (ret, e', st')"
  shows "same_store (ecore st) (ecore st') \<and> same_pool (pool (ecore st)) (pool (ecore st'))"
  using assms by (auto simp: invalidate_pages_def Let_def split: prod.splits if_splits option.splits)

lemma same_trans:
  "same_store a b \<Longrightarrow> same_store b c \<Longrightarrow> same_store a c" "same_pool p q \<Longrightarrow> same_pool q r \<Longrightarrow> same_pool p r"
  by (auto simp: same_store_def same_pool_def)

lemma alloc_from_mm_store:
  assumes "alloc_from_mm env q m n e st = Some (ret, e', st')"
  shows "same_store (ecore st) (ecore st') \<and> same_pool (pool (ecore st)) (pool (ecore st'))"
  using assms unfolding alloc_from_mm_def Let_def
  by (auto dest!: pin_pages_store invalidate_pages_store dest: same_trans split: prod.splits if_splits option.splits)

lemma alloc_pid_store:
  assumes "alloc_export_memory_pid env e st = Some (ret, e', st')"
  shows "same_store (ecore st) (ecore st') \<and> same_pool (pool (ecore st)) (pool (ecore st'))"
  using assms unfolding alloc_export_memory_pid_def Let_def
  by (auto dest!: alloc_from_mm_store split: prod.splits if_splits option.splits)

lemma free_pid_store:
  assumes "free_export_memory_pid env e st = (e', st')"
  shows "same_store (ecore st) (ecore st') \<and> same_pool (pool (ecore st)) (pool (ecore st')) \<and> e' = e\<lparr>sgt := []\<rparr>"
  using assms unfolding free_export_memory_pid_def Let_def by (auto split: prod.splits)

lemma alloc_memory_books:
  assumes "alloc_export_memory env e st = Some (ret, e1, st1)" "mempool_inv hs (pool (ecore st)) no_segs"
    "mem_desc e = no_segs" "length (node_mem_size e) \<le> OBMM_MAX_LOCAL_NUMA_NODES"
  shows "same_store (ecore st) (ecore st1) \<and> e_region e1 = e_region e
    \<and> mempool_inv hs (pool (ecore st1)) (if ret = 0 then mem_desc e1 else no_segs)
    \<and> (region_memory_from_user (e_region e) \<longrightarrow> mem_desc e1 = no_segs)"
proof (cases "region_memory_from_user (e_region e)")
  case True
  then have c: "alloc_export_memory_pid env e st = Some (ret, e1, st1)" using assms(1) by (simp add: alloc_export_memory_def)
  show ?thesis using alloc_pid_store [OF c] alloc_pid_keeps [OF c] same_pool_inv assms(2,3) True by auto
next
  case False
  from export_pool_books [OF assms(2,4), of "ecfg env" "kenv_of env"] obtain r e' p where
    "alloc_export_memory_pool (ecfg env) (kenv_of env) e (pool (ecore st)) = Some (r, e', p)" "e_region e' = e_region e"
    "mempool_inv hs p (if r = 0 then mem_desc e' else no_segs)" by auto
  then show ?thesis using assms(1) False by (auto simp: alloc_export_memory_def)
qed

lemma free_memory_books:
  assumes "free_export_memory env e st = (e1, st1)" "mempool_inv hs (pool (ecore st)) (mem_desc e)" "desc_ok (Some (Export e))"
  shows "same_store (ecore st) (ecore st1) \<and> e_region e1 = e_region e \<and> mempool_inv hs (pool (ecore st1)) no_segs"
proof (cases "region_memory_from_user (e_region e)")
  case True
  then have c: "free_export_memory_pid env e st = (e1, st1)" using assms(1) by (simp add: free_export_memory_def)
  show ?thesis using free_pid_store [OF c] same_pool_inv assms(2,3) True by auto
next
  case False
  then show ?thesis using assms(1) free_export_pool_inv [OF assms(2), of "ecfg env" "kenv_of env"]
    by (auto simp: free_export_memory_def free_export_memory_pool_def split: prod.splits)
qed

lemma setup_ummu_keeps:
  "setup_ummu env e k = (ret, e1, k1) \<Longrightarrow> mem_desc e1 = mem_desc e \<and> e_region e1 = e_region e"
  by (auto simp: setup_ummu_def Let_def split: sum.splits prod.splits if_splits option.splits)

lemma ekmem_books [simp]:
  "mempool_inv hs (pool (ecore (set_ekmem k st))) d = mempool_inv hs (pool (ecore st)) d"
  "same_store c (ecore (set_ekmem k st)) = same_store c (ecore st)"
  by simp_all

lemma export_common_books:
  assumes "obmm_export_common env e st = Some (ret, e1, st1)" "mempool_inv hs (pool (ecore st)) no_segs"
    "mem_desc e = no_segs" "length (node_mem_size e) \<le> OBMM_MAX_LOCAL_NUMA_NODES"
  shows "same_store (ecore st) (ecore st1) \<and> e_region e1 = e_region e
    \<and> (if ret = 0 then mempool_inv hs (pool (ecore st1)) (mem_desc e1) \<and> desc_ok (Some (Export e1)) else mempool_inv hs (pool (ecore st1)) no_segs)"
proof -
  obtain r ea sta where al: "alloc_export_memory env e st = Some (r, ea, sta)"
    using assms(1) by (auto simp: obmm_export_common_def split: option.splits)
  note a = alloc_memory_books [OF al assms(2-4)]
  obtain r2 eb k where su: "setup_ummu env ea (ekmem sta) = (r2, eb, k)" by (metis prod_cases3)
  note s = setup_ummu_keeps [OF su]
  obtain ec stc where fr: "free_export_memory env eb (set_ekmem k sta) = (ec, stc)" by fastforce
  have d: "desc_ok (Some (Export eb))" if "r = 0" using a s that by (auto simp: mempool_inv_def)
  have f: "same_store (ecore sta) (ecore stc) \<and> e_region ec = e_region eb \<and> mempool_inv hs (pool (ecore stc)) no_segs" if "r = 0"
    using free_memory_books [OF fr, of hs] a s d that by (simp del: export_st_views)  (auto simp: same_store_def)
  show ?thesis
    using assms(1) a s f d al su fr same_trans(1) [of "ecore st" "ecore sta" "ecore stc"]
    by (cases "r = 0"; cases "r2 = 0") (auto simp: obmm_export_common_def simp del: export_st_views)
qed

lemma unexport_common_books:
  assumes "obmm_unexport_common env e st = (ret, e1, st1)" "mempool_inv hs (pool (ecore st)) (mem_desc e)" "desc_ok (Some (Export e))"
  shows "same_store (ecore st) (ecore st1) \<and> e_region e1 = e_region e
    \<and> (if ret = 0 then mempool_inv hs (pool (ecore st1)) no_segs else e1 = e \<and> mempool_inv hs (pool (ecore st1)) (mem_desc e))"
proof -
  obtain r k where td: "teardown_ummu env e (ekmem st) = (r, k)" by fastforce
  obtain e2 st2 where fr: "free_export_memory env e (set_ekmem k st) = (e2, st2)" by fastforce
  show ?thesis
    using assms(1) td fr free_memory_books [OF fr, of hs] assms(2,3)
    by (cases "r = 0") (auto simp: obmm_unexport_common_def same_store_def)
qed

lemma teardown_ok: "tdev_free_ok env \<Longrightarrow> teardown_ummu env e k = (r, k') \<Longrightarrow> r = 0"
  by (auto simp: teardown_ummu_def tdev_free_ok_def Let_def split: prod.splits if_splits) (metis fst_conv)+

lemma unexport_common_ok: "tdev_free_ok env \<Longrightarrow> obmm_unexport_common env e st = (r, e1, st1) \<Longrightarrow> r = 0"
  by (auto simp: obmm_unexport_common_def Let_def dest: teardown_ok split: prod.splits if_splits)

lemma agrees_but_store:
  assumes "agrees_but h d c" "same_store c c'" "mempool_inv (held (kfree_region h c)) (pool c') d'"
  shows "agrees_but h d' c'"
proof -
  have "held (kfree_region h c') = held (kfree_region h c)" using assms(2) by (simp add: held_def kfree_region_def same_store_def)
  then show ?thesis using assms by (simp add: agrees_but_def same_store_def)
qed

lemma free_export_region_agrees:
  assumes "free_export_region env h st = Some st'" "agrees_but h no_segs (ecore st)"
  shows "pool_agrees (ecore st')"
proof -
  obtain z where "wait_until_dev_released (base_e env) h (ecore st) = Some z" "ecore st' = kfree_region h z"
    using assms(1) by (auto simp: free_export_region_def)
  then show ?thesis using agrees_kfree [OF agrees_but_mem [OF wait_mem assms(2)]] by simp
qed

lemma ecore_upd [simp]: "ecore (upd_core f st) = f (ecore st)"
  by (simp add: upd_core_def)

lemma init_keeps_e:
  assumes "init_obmm_region env h st = (ret, st')" "objs st h = Some (Export e)"
  shows "\<exists>r. objs st' h = Some (Export (e\<lparr>e_region := r\<rparr>)) \<and> reg_flags r = reg_flags (e_region e)"
  using assms by (auto simp: init_obmm_region_def upd_reg_def set_kw_def Let_def split: prod.splits if_splits)

lemma export_new_agrees:
  assumes call: "export_new_region env e st = Some (ret, out, st')" and agr: "pool_agrees (ecore st)" and e: "mem_desc e = no_segs"
    "length (node_mem_size e) \<le> OBMM_MAX_LOCAL_NUMA_NODES" and td: "tdev_free_ok env"
  shows "pool_agrees (ecore st')"
proof -
  obtain h c1 where kz: "kzalloc_region (Export e) (ecore st) = (h, c1)" by fastforce
  note fresh = agrees_fresh [OF agr kz]
  obtain r1 c2 where ir: "init_obmm_region (base_e env) h c1 = (r1, c2)" by fastforce
  have c2: "agrees_but h no_segs c2" using agrees_but_mem [OF init_mem [OF ir]] fresh by blast
  from init_keeps_e [OF ir conjunct2 [OF fresh]] obtain g where g: "objs c2 h = Some (Export (e\<lparr>e_region := g\<rparr>))" by blast
  note eqs = export_new_region_def kz ir Let_def g
  show ?thesis
  proof (cases "r1 = 0")
    case False
    then have "free_export_region env h (st\<lparr>ecore := c2\<rparr>) = Some st'" using call by (simp add: eqs)
    then show ?thesis by (rule free_export_region_agrees) (simp add: c2)
  next
    case r1: True
    let ?e = "e\<lparr>e_region := g\<rparr>" and ?hs = "held (kfree_region h c2)"
    obtain p where "obmm_export_common env ?e (st\<lparr>ecore := c2\<rparr>) = Some p"
      using call r1 by (cases "obmm_export_common env ?e (st\<lparr>ecore := c2\<rparr>)") (simp_all add: eqs)
    then obtain r2 e1 st2 where ec: "obmm_export_common env ?e (st\<lparr>ecore := c2\<rparr>) = Some (r2, e1, st2)" by (metis prod_cases3)
    have books: "same_store c2 (ecore st2)"
      "if r2 = 0 then mempool_inv ?hs (pool (ecore st2)) (mem_desc e1) \<and> desc_ok (Some (Export e1)) else mempool_inv ?hs (pool (ecore st2)) no_segs"
      using export_common_books [OF ec, of ?hs] c2 e by (auto simp: agrees_but_def simp del: desc_ok.simps split: if_splits)
    let ?c3 = "set_obj h (Export e1) (ecore st2)"
    have c3: "agrees_but h (if r2 = 0 then mem_desc e1 else no_segs) ?c3"
      by (rule agrees_but_set, rule agrees_but_store [OF c2 books(1)]) (use books(2) in auto)
    show ?thesis
    proof (cases "r2 = 0")
      case False
      then have "free_export_region env h (upd_core (uninit_obmm_region h) (upd_core (set_obj h (Export e1)) st2)) = Some st'"
        using call r1 by (simp add: eqs ec)
      then show ?thesis by (rule free_export_region_agrees) (use c3 False in \<open>auto intro: agrees_but_mem [rotated]\<close>)
    next
      case r2: True
      obtain r3 c4 where rg: "register_obmm_region (base_e env) h ?c3 = (r3, c4)" by fastforce
      have m: "same_mem ?c3 c4" by (rule register_mem [OF rg])
      from same_mem_export [OF m, of h e1] obtain e2 where
        e2: "objs c4 h = Some (Export e2)" "mem_desc e2 = mem_desc e1" "region_memory_from_user (e_region e2) = region_memory_from_user (e_region e1)"
        by auto
      have d2: "desc_ok (Some (Export e2))" using books(2) r2 e2 by simp
      have c4: "agrees_but h (mem_desc e2) c4" using agrees_but_mem [OF m c3] r2 e2 by simp
      show ?thesis
      proof (cases "r3 = 0")
        case True
        then have "ecore st' = activate_obmm_region h c4" using call r1 r2 by (simp add: eqs ec rg) auto
        then have "same_mem c4 (ecore st')" by simp
        then show ?thesis using same_mem_agrees agrees_exportI [OF c4 e2(1) d2] by blast
      next
        case False
        let ?st4 = "(upd_core (set_obj h (Export e1)) st2)\<lparr>ecore := c4\<rparr>"
        obtain r4 e3 st5 where un: "obmm_unexport_common env e2 ?st4 = (r4, e3, st5)" by (metis prod_cases3)
        have "r4 = 0" by (rule unexport_common_ok [OF td un])
        then have b5: "same_store c4 (ecore st5)" "mempool_inv (held (kfree_region h c4)) (pool (ecore st5)) no_segs"
          using unexport_common_books [OF un _ d2, of "held (kfree_region h c4)"] c4 by (simp_all add: agrees_but_def)
        have c5: "agrees_but h no_segs (set_obj h (Export e3) (ecore st5))"
          by (rule agrees_but_set, rule agrees_but_store [OF c4 b5])
        have "free_export_region env h (upd_core (uninit_obmm_region h) (upd_core (set_obj h (Export e3)) st5)) = Some st'"
          using call r1 r2 False e2 un by (simp add: eqs ec rg)
        then show ?thesis by (rule free_export_region_agrees) (use c5 in \<open>auto intro: agrees_but_mem [rotated]\<close>)
      qed
    qed
  qed
qed

lemma set_vendor_keeps:
  "set_export_vendor env l p e k = (r, e', k') \<Longrightarrow> mem_desc e' = mem_desc e \<and> node_mem_size e' = node_mem_size e \<and> e_region e' = e_region e"
  by (auto simp: set_export_vendor_def Let_def split: if_splits prod.splits option.splits)

lemma alloc_region_fresh:
  assumes "alloc_region_from_cmd env seg cmd k = (Inr e, k')"
  shows "mem_desc e = no_segs \<and> length (node_mem_size e) \<le> OBMM_MAX_LOCAL_NUMA_NODES"
proof -
  have "unat (ex_length cmd) \<le> OBMM_MAX_LOCAL_NUMA_NODES"
    using assms by (auto simp: alloc_region_from_cmd_def calculate_export_region_size_def split: if_splits sum.splits)
  then show ?thesis using assms
    by (auto simp: alloc_region_from_cmd_def zeroed_e_reg_def Let_def dest!: set_vendor_keeps split: if_splits sum.splits prod.splits)
qed

lemma alloc_pid_region_fresh:
  assumes "alloc_export_region_from_obmm_cmd_export_pid env cmd k = (Inr e, k')"
  shows "mem_desc e = no_segs \<and> length (node_mem_size e) \<le> OBMM_MAX_LOCAL_NUMA_NODES"
  using assms by (auto simp: alloc_export_region_from_obmm_cmd_export_pid_def zeroed_e_reg_def Let_def dest!: set_vendor_keeps
      split: if_splits sum.splits prod.splits)

lemma agrees_ekmem [simp]: "pool_agrees (c\<lparr>pool := set_kmem k (pool c)\<rparr>) = pool_agrees c"
  by (simp add: pool_agrees_def held_def)

lemma unexport_agrees:
  assumes call: "obmm_unexport env cmd st = Some (ret, st')" and agr: "pool_agrees (ecore st)"
  shows "pool_agrees (ecore st')"
proof -
  obtain r c where d: "search_deactivate_obmm_region (uint (ux_mem_id cmd)) (ecore st) = (r, c)" by fastforce
  have c: "pool_agrees c" using same_mem_agrees [OF deactivate_mem [OF d] agr] .
  show ?thesis
  proof (cases "validate_obmm_mem_id (ux_mem_id cmd) \<and> ux_flags cmd AND NOT OBMM_UNEXPORT_FLAG_MASK = 0 \<and> (\<exists>h. r = Inr h)")
    case False
    then show ?thesis using call agr c d by (auto simp: obmm_unexport_def split: if_splits sum.splits)
  next
    case True
    then obtain h where h: "r = Inr h" by blast
    note eqs = obmm_unexport_def d h Let_def
    consider (none) "objs c h = None" | (imp) i where "objs c h = Some (Import i)" | (exp) e where "objs c h = Some (Export e)"
      by (cases "objs c h"; cases "the (objs c h)") auto
    then show ?thesis
    proof cases
      case none
      then show ?thesis using call True by (simp add: eqs)
    next
      case imp
      then have "ecore st' = activate_obmm_region h c" using call True by (auto simp: eqs)
      then show ?thesis using same_mem_agrees [OF _ c] by simp
    next
      case exp
      note a = agrees_exportD [OF c exp]
      obtain r1 e1 st1 where un: "obmm_unexport_common env e (st\<lparr>ecore := c\<rparr>) = (r1, e1, st1)" by (metis prod_cases3)
      have b: "same_store c (ecore st1)" "e_region e1 = e_region e"
        "if r1 = 0 then mempool_inv (held (kfree_region h c)) (pool (ecore st1)) no_segs
         else e1 = e \<and> mempool_inv (held (kfree_region h c)) (pool (ecore st1)) (mem_desc e)"
        using unexport_common_books [OF un _ a(2), of "held (kfree_region h c)"] a(1) by (auto simp: agrees_but_def split: if_splits)
      let ?c2 = "set_obj h (Export e1) (ecore st1)"
      have c2: "agrees_but h (if r1 = 0 then no_segs else mem_desc e) ?c2"
        by (rule agrees_but_set, rule agrees_but_store [OF a(1) b(1)]) (use b(3) in auto)
      show ?thesis
      proof (cases "r1 = 0")
        case False
        then have e: "ecore st' = activate_obmm_region h ?c2" using call True exp un by (auto simp: eqs)
        have "pool_agrees ?c2" using agrees_exportI [of h e ?c2] c2 a(2) b False by (simp add: set_obj_def)
        then show ?thesis using e same_mem_agrees [of ?c2 "ecore st'"] by simp
      next
        case ok: True
        then have "free_export_region env h (upd_core (\<lambda>c. uninit_obmm_region h (deregister_obmm_region (base_e env) h c))
            (upd_core (set_obj h (Export e1)) st1)) = Some st'" using call True exp un by (auto simp: eqs)
        then show ?thesis by (rule free_export_region_agrees) (use c2 ok in \<open>auto intro: agrees_but_mem [rotated]\<close>)
      qed
    qed
  qed
qed

lemma serve_agrees:
  assumes "serve env q st = Some (ret, st')" "pool_agrees (ecore st)" "tdev_free_ok env"
  shows "pool_agrees (ecore st')"
proof (cases q)
  case (Req_Export cmd)
  then show ?thesis using assms
    by (auto simp: obmm_export_from_pool_def split: prod.splits sum.splits dest!: alloc_region_fresh intro: export_new_agrees)
next
  case (Req_Export_Pid cmd)
  then show ?thesis using assms
    by (auto simp: obmm_export_pid_def Let_def split: prod.splits sum.splits if_splits dest!: alloc_pid_region_fresh intro: export_new_agrees)
next
  case (Req_Unexport cmd)
  then show ?thesis using assms by (auto dest: unexport_agrees)
next
  case (Req_Import cmd)
  then show ?thesis using assms by (auto dest: import_agrees)
next
  case (Req_Unimport cmd)
  then show ?thesis using assms by (auto dest: unimport_agrees)
qed


section \<open>Exports return\<close>

lemma poll_returns: "released (i + n) \<Longrightarrow> poll_released released i \<noteq> None"
proof (induction n arbitrary: i)
  case 0
  then show ?case by (simp add: poll_released.simps)
next
  case (Suc n)
  then show ?case using Suc.IH [of "Suc i"] by (subst poll_released.simps) auto
qed

lemma wait_returns: "\<exists>i. released_at env h i \<Longrightarrow> wait_until_dev_released env h st \<noteq> None"
  using poll_returns [of "released_at env h" 0] by (auto simp: wait_until_dev_released_def)

lemma free_region_returns: "\<exists>i. released_at (base_e env) h i \<Longrightarrow> free_export_region env h st \<noteq> None"
  using wait_returns [of "base_e env" h "ecore st"] by (auto simp: free_export_region_def)

lemma export_new_returns:
  assumes agr: "pool_agrees (ecore st)" and e: "length (node_mem_size e) \<le> OBMM_MAX_LOCAL_NUMA_NODES"
    "\<not> region_memory_from_user (e_region e)" and rel: "\<forall>h. \<exists>i. released_at (base_e env) h i"
  shows "export_new_region env e st \<noteq> None"
proof -
  obtain h c1 where kz: "kzalloc_region (Export e) (ecore st) = (h, c1)" by fastforce
  note fresh = agrees_fresh [OF agr kz]
  obtain r1 c2 where ir: "init_obmm_region (base_e env) h c1 = (r1, c2)" by fastforce
  have c2: "agrees_but h no_segs c2" using agrees_but_mem [OF init_mem [OF ir]] fresh by blast
  from init_keeps_e [OF ir conjunct2 [OF fresh]] obtain g where g: "objs c2 h = Some (Export (e\<lparr>e_region := g\<rparr>))"
    "reg_flags g = reg_flags (e_region e)" by blast
  have "alloc_export_memory env (e\<lparr>e_region := g\<rparr>) (st\<lparr>ecore := c2\<rparr>) \<noteq> None"
    using export_pool_books [of "held (kfree_region h c2)" "pool c2" "e\<lparr>e_region := g\<rparr>" "ecfg env" "kenv_of env"] c2 e g(2)
    by (auto simp: alloc_export_memory_def agrees_but_def region_memory_from_user_def)
  then have "obmm_export_common env (e\<lparr>e_region := g\<rparr>) (st\<lparr>ecore := c2\<rparr>) \<noteq> None"
    by (auto simp: obmm_export_common_def Let_def split: prod.splits)
  moreover have "\<exists>y. free_export_region env h s = Some y" for s using free_region_returns [of env h s] rel by blast
  ultimately show ?thesis using g(1)
    by (auto simp: export_new_region_def kz ir Let_def split: prod.splits)
qed

lemma export_flags_no_user: "export_flags_to_region_flags uf = (r, f) \<Longrightarrow> f AND OBMM_REGION_FLAG_MEMORY_FROM_USER = 0"
  by (auto simp: export_flags_to_region_flags_def split: if_splits)

lemma set_priv_flags: "set_obmm_region_priv copy l p reg = (r, reg') \<Longrightarrow> reg_flags reg' = reg_flags reg"
  by (auto simp: set_obmm_region_priv_def Let_def split: if_splits option.splits)

lemma alloc_region_from_pool:
  assumes "alloc_region_from_cmd env seg cmd k = (Inr e, k')"
  shows "\<not> region_memory_from_user (e_region e)"
  using assms
  by (auto simp: alloc_region_from_cmd_def region_memory_from_user_def Let_def dest!: set_vendor_keeps set_priv_flags
      dest: export_flags_no_user split: if_splits sum.splits prod.splits)

text \<open>An export from the pool returns, provided that a deleted device is released some time.\<close>

lemma export_from_pool_returns:
  assumes "pool_agrees (ecore st)" "\<forall>h. \<exists>i. released_at (base_e env) h i"
  shows "\<exists>ret cmd' st'. obmm_export_from_pool env cmd st = Some (ret, cmd', st')"
proof -
  obtain r k where al: "alloc_region_from_cmd (kenv_of env) (memseg_size (pool (ecore st))) cmd (ekmem st) = (r, k)" by fastforce
  show ?thesis
  proof (cases r)
    case (Inl err)
    then show ?thesis using al by (simp add: obmm_export_from_pool_def)
  next
    case (Inr e)
    have "export_new_region env e (set_ekmem k st) \<noteq> None"
      using export_new_returns [of "set_ekmem k st" e env] alloc_region_fresh [OF al [unfolded Inr]]
        alloc_region_from_pool [OF al [unfolded Inr]] assms by simp
    then show ?thesis using al Inr by (auto simp: obmm_export_from_pool_def)
  qed
qed

section \<open>Examples\<close>

lemma demo_agrees: "pool_agrees (ecore demo_export_st)"
proof -
  have "held (ecore demo_export_st) = replicate OBMM_MAX_LOCAL_NUMA_NODES 0"
    by (simp add: held_def demo_export_st_def reg_start_def map_replicate_const)
  then show ?thesis using demo_mempool_inv by (simp add: pool_agrees_def demo_export_st_def reg_start_def)
qed

lemma demo_requests_env_ok: "tdev_free_ok demo_requests_env" "\<forall>h. \<exists>i. released_at (base_e demo_requests_env) h i"
  by (simp_all add: tdev_free_ok_def demo_requests_env_def demo_export_env_def demo_coherent_env_def demo_obmm_env_def demo_exp_env_def)


end
