(* ===== verification/Obmm_Core.thy ===== *)
theory Obmm_Core
  imports Obmm_Export
begin

text \<open>
  The control device and the module (\<^verbatim>\<open>drivers/ub/obmm/obmm_core.c\<close>, \<^verbatim>\<open>obmm_lowmem.c\<close>, the module part of
  \<^verbatim>\<open>obmm_shm_dev.c\<close>): address queries over all regions, dispatch of requests, reaction to low memory, loading and
  unloading.  The requests of the earlier theories are shown to be sequences of the atomic steps of
  \<^verbatim>\<open>Obmm_Region\<close>, so that the guarantees for interleaved threads hold for them.
\<close>

section \<open>Address queries\<close>

record obmm_cmd_addr_query =
  aq_key_type :: u32
  aq_mem_id :: u64
  aq_offset :: u64
  aq_pa :: u64

abbreviation (input) OBMM_QUERY_BY_PA :: u32 where "OBMM_QUERY_BY_PA \<equiv> 0"

abbreviation (input) OBMM_QUERY_BY_ID_OFFSET :: u32 where "OBMM_QUERY_BY_ID_OFFSET \<equiv> 1"

fun obmm_query_by_offset :: "any_region \<Rightarrow> u64 \<Rightarrow> obmm_ext_addr \<Rightarrow> int \<times> obmm_ext_addr" where
  "obmm_query_by_offset (Export e_reg) off ext = get_offset_detail_export_region e_reg off ext"
| "obmm_query_by_offset (Import i_reg) off ext = get_offset_detail_import i_reg off ext"

text \<open>The body of the loop over the list of regions.  A listed region that does not exist would be a fault.\<close>

fun pa_detail :: "any_region \<Rightarrow> u64 \<Rightarrow> obmm_ext_addr \<Rightarrow> int \<times> obmm_ext_addr" where
  "pa_detail (Import i_reg) pa ext = get_pa_detail_import i_reg pa ext"
| "pa_detail (Export e_reg) pa ext = get_pa_detail_export_region e_reg pa ext"

fun query_regions :: "nat list \<Rightarrow> u64 \<Rightarrow> int \<Rightarrow> obmm_ext_addr \<Rightarrow> ('k, 'w) obmm_state
    \<Rightarrow> (int \<times> obmm_ext_addr \<times> ('k, 'w) obmm_state) option" where
  "query_regions [] pa ret ext st = Some (ret, ext, st)"
| "query_regions (h # hs) pa ret ext st =
     (case try_get_obmm_region (Some h) st of
        (None, st1) \<Rightarrow> query_regions hs pa ret ext st1
      | (Some _, st1) \<Rightarrow>
          (case objs st1 h of
             None \<Rightarrow> None
           | Some r \<Rightarrow>
               let (ret1, ext1) = pa_detail r pa ext; st2 = put_obmm_region (Some h) st1
               in if ret1 = 0 then Some (ret1, ext1, st2) else query_regions hs pa ret1 ext1 st2))"

definition obmm_query_by_pa :: "u64 \<Rightarrow> obmm_ext_addr \<Rightarrow> ('k, 'w) obmm_state \<Rightarrow> (int \<times> obmm_ext_addr \<times> ('k, 'w) obmm_state) option" where
  "obmm_query_by_pa pa ext st =
     map_option (\<lambda>(ret, ext1, st1). (if ret \<noteq> 0 then - ENOENT else 0, ext1, st1)) (query_regions (regions st) pa (- ENOENT) ext st)"

text \<open>The answer is built in a local variable; a query that succeeds has set all of it.\<close>

definition local_ext_addr :: obmm_ext_addr where
  "local_ext_addr = \<lparr>ext_region_type = OBMM_IMPORT_REGION, ext_regionid = 0, ext_offset = 0, ext_tid = 0, ext_uba = 0,
     ext_numa_id = 0, ext_pa = 0\<rparr>"

definition obmm_addr_query :: "obmm_cmd_addr_query \<Rightarrow> ('k, 'w) obmm_state
    \<Rightarrow> (int \<times> obmm_cmd_addr_query \<times> ('k, 'w) obmm_state) option" where
  "obmm_addr_query cmd st =
     (if aq_key_type cmd = OBMM_QUERY_BY_PA then
        map_option (\<lambda>(ret, ext, st1).
            (ret, if ret = 0 then cmd\<lparr>aq_mem_id := ucast (ext_regionid ext), aq_offset := ext_offset ext\<rparr> else cmd, st1))
          (obmm_query_by_pa (aq_pa cmd) local_ext_addr st)
      else if aq_key_type cmd = OBMM_QUERY_BY_ID_OFFSET then
        if \<not> validate_obmm_mem_id (aq_mem_id cmd) then Some (- ENOENT, cmd, st)
        else case search_get_obmm_region (uint (aq_mem_id cmd)) st of
               (None, st1) \<Rightarrow> Some (- ENOENT, cmd, st1)
             | (Some h, st1) \<Rightarrow>
                 (case objs st1 h of
                    None \<Rightarrow> None
                  | Some r \<Rightarrow>
                      let (ret, ext) = obmm_query_by_offset r (aq_offset cmd) local_ext_addr
                      in Some (ret, if ret = 0 then cmd\<lparr>aq_pa := ext_pa ext\<rparr> else cmd, put_obmm_region (Some h) st1))
      else Some (- EINVAL, cmd, st))"

section \<open>Requests on the control device\<close>

text \<open>The memory behind the argument of a request, read as each of the structures of the union, and whether it can
  be read and written.\<close>

record user_arg =
  u_create :: obmm_cmd_export
  u_import :: obmm_cmd_import
  u_unexport :: obmm_cmd_unexport
  u_unimport :: obmm_cmd_unimport
  u_query :: obmm_cmd_addr_query
  u_export_pid :: obmm_cmd_export_pid
  u_preimport :: obmm_cmd_preimport
  readable :: bool
  writable :: bool

datatype ioctl_nr = OBMM_CMD_EXPORT | OBMM_CMD_IMPORT | OBMM_CMD_UNEXPORT | OBMM_CMD_UNIMPORT | OBMM_CMD_ADDR_QUERY
  | OBMM_CMD_EXPORT_PID | OBMM_CMD_DECLARE_PREIMPORT | OBMM_CMD_UNDECLARE_PREIMPORT | OBMM_CMD_OTHER u32

text \<open>The copy of the result to the user, after a request that succeeded.\<close>

definition copy_back :: "user_arg \<Rightarrow> int \<Rightarrow> (user_arg \<Rightarrow> user_arg) \<Rightarrow> 'st \<Rightarrow> int \<times> user_arg \<times> 'st" where
  "copy_back arg ret write st =
     (if ret \<noteq> 0 then (ret, arg, st) else if \<not> writable arg then (- EFAULT, arg, st) else (0, write arg, st))"

definition obmm_dev_ioctl :: "('k, 'w) export_env \<Rightarrow> bool \<Rightarrow> ioctl_nr \<Rightarrow> user_arg \<Rightarrow> ('k, 'w) export_st
    \<Rightarrow> (int \<times> user_arg \<times> ('k, 'w) export_st) option" where
  "obmm_dev_ioctl env obmm_enabled nr arg st =
     (if \<not> obmm_enabled then Some (- EOPNOTSUPP, arg, st)
      else if (case nr of OBMM_CMD_OTHER _ \<Rightarrow> False | _ \<Rightarrow> \<not> readable arg) then Some (- EFAULT, arg, st)
      else case nr of
        OBMM_CMD_EXPORT \<Rightarrow>
          map_option (\<lambda>(ret, cmd, st1). copy_back arg ret (\<lambda>a. a\<lparr>u_create := cmd\<rparr>) st1) (obmm_export_from_pool env (u_create arg) st)
      | OBMM_CMD_IMPORT \<Rightarrow>
          map_option (\<lambda>(ret, cmd, c). copy_back arg ret (\<lambda>a. a\<lparr>u_import := cmd\<rparr>) (st\<lparr>ecore := c\<rparr>)) (obmm_import (base_e env) (u_import arg) (ecore st))
      | OBMM_CMD_UNEXPORT \<Rightarrow> map_option (\<lambda>(ret, st1). (ret, arg, st1)) (obmm_unexport env (u_unexport arg) st)
      | OBMM_CMD_UNIMPORT \<Rightarrow>
          map_option (\<lambda>(ret, c). (ret, arg, st\<lparr>ecore := c\<rparr>)) (obmm_unimport (base_e env) (u_unimport arg) (ecore st))
      | OBMM_CMD_ADDR_QUERY \<Rightarrow>
          map_option (\<lambda>(ret, cmd, c). copy_back arg ret (\<lambda>a. a\<lparr>u_query := cmd\<rparr>) (st\<lparr>ecore := c\<rparr>)) (obmm_addr_query (u_query arg) (ecore st))
      | OBMM_CMD_EXPORT_PID \<Rightarrow>
          map_option (\<lambda>(ret, cmd, st1). copy_back arg ret (\<lambda>a. a\<lparr>u_export_pid := cmd\<rparr>) st1) (obmm_export_pid env (u_export_pid arg) st)
      | OBMM_CMD_DECLARE_PREIMPORT \<Rightarrow>
          let (ret, cmd, p) = obmm_preimport (pre_e (base_e env)) (u_preimport arg) (pre (ecore st))
          in Some (copy_back arg ret (\<lambda>a. a\<lparr>u_preimport := cmd\<rparr>) (st\<lparr>ecore := (ecore st)\<lparr>pre := p\<rparr>\<rparr>))
      | OBMM_CMD_UNDECLARE_PREIMPORT \<Rightarrow>
          let (ret, p) = obmm_unpreimport (pre_e (base_e env)) (u_preimport arg) (pre (ecore st))
          in Some (ret, arg, st\<lparr>ecore := (ecore st)\<lparr>pre := p\<rparr>\<rparr>)
      | OBMM_CMD_OTHER n \<Rightarrow> Some (- ENOTTY, arg, st))"

section \<open>Low memory\<close>

datatype reclaim_reason = RR_DIRECT_RECLAIM | RR_KSWAPD | RR_HUGEPAGE_RECLAIM | RR_OTHER nat

record reclaim_notify_data =
  rn_reason :: reclaim_reason
  rn_nr_nid :: int
  rn_nid :: "int list"
  rn_nr_freed :: u64

fun contract_nodes :: "mm_config \<Rightarrow> 'k kmem_env \<Rightarrow> bool \<Rightarrow> int list \<Rightarrow> u64 \<Rightarrow> 'k ubmempool \<Rightarrow> u64 \<times> 'k ubmempool" where
  "contract_nodes c env is_huge [] nr_freed st = (nr_freed, st)"
| "contract_nodes c env is_huge (nd # nds) nr_freed st =
     (let (sz, st1) = ubmempool_contract c env nd is_huge st
      in contract_nodes c env is_huge nds (nr_freed + drop_bit (PAGE_SHIFT c) sz) st1)"

definition obmm_lowmem_notify_handler :: "mm_config \<Rightarrow> 'k kmem_env \<Rightarrow> reclaim_notify_data option \<Rightarrow> 'k ubmempool
    \<Rightarrow> int \<times> reclaim_notify_data option \<times> 'k ubmempool" where
  "obmm_lowmem_notify_handler c env parm st =
     (case parm of
        None \<Rightarrow> (NOTIFY_DONE, None, st)
      | Some dat \<Rightarrow>
          if rn_reason dat \<noteq> RR_DIRECT_RECLAIM \<and> rn_reason dat \<noteq> RR_KSWAPD \<and> rn_reason dat \<noteq> RR_HUGEPAGE_RECLAIM
          then (NOTIFY_DONE, Some dat, st)
          else let is_huge = (rn_reason dat = RR_HUGEPAGE_RECLAIM);
                   (freed, st1) = contract_nodes c env is_huge (take (nat (rn_nr_nid dat)) (rn_nid dat)) 0 st
               in (NOTIFY_OK, Some (dat\<lparr>rn_nr_freed := freed\<rparr>), st1))"

section \<open>Loading and unloading\<close>

text \<open>The answers of the kernel while the module is loaded, and what the module has registered.\<close>

record load_env =
  ub_features :: u64
  ub_mem_feature_mask :: u64
  pool_params :: mp_params
  pool_init_env :: "nat \<Rightarrow> conti_init_env"
  pool_kobj_ok :: bool
  misc_register :: int
  alloc_chrdev_region :: int
  root_device_register :: bool
  proc_mkdir_ok :: bool
  proc_create_ok :: bool
  register_reclaim_notifier :: int

record ('k, 'w) module_st =
  mcore :: "('k, 'w) obmm_state"
  obmm_enabled :: bool
  obmm_dev_handle :: bool
  obmm_devt :: bool
  obmm_shm_rootdev :: bool
  obmm_proc :: bool
  lowmem_nb :: bool

abbreviation (input) mpool :: "('k, 'w) module_st \<Rightarrow> 'k ubmempool" where "mpool m \<equiv> pool (mcore m)"

definition set_mpool :: "'k ubmempool \<Rightarrow> ('k, 'w) module_st \<Rightarrow> ('k, 'w) module_st" where
  "set_mpool p m = m\<lparr>mcore := (mcore m)\<lparr>pool := p\<rparr>\<rparr>"

definition ubmem_feature_probe :: "load_env \<Rightarrow> ('k, 'w) module_st \<Rightarrow> ('k, 'w) module_st" where
  "ubmem_feature_probe le m = (if ub_features le AND ub_mem_feature_mask le \<noteq> 0 then m\<lparr>obmm_enabled := True\<rparr> else m)"

definition obmm_shm_dev_init :: "load_env \<Rightarrow> ('k, 'w) module_st \<Rightarrow> int \<times> ('k, 'w) module_st" where
  "obmm_shm_dev_init le m =
     (let ret = alloc_chrdev_region le
      in if ret \<noteq> 0 then (ret, m)
         else let m1 = m\<lparr>obmm_devt := True\<rparr>
              in if \<not> root_device_register le then (- ENOMEM, m1\<lparr>obmm_devt := False\<rparr>)
                 else (0, m1\<lparr>obmm_shm_rootdev := True\<rparr>))"

definition obmm_shm_dev_exit :: "('k, 'w) module_st \<Rightarrow> ('k, 'w) module_st" where
  "obmm_shm_dev_exit m = m\<lparr>obmm_shm_rootdev := False, obmm_devt := False\<rparr>"

definition lowmem_notify_init :: "load_env \<Rightarrow> ('k, 'w) module_st \<Rightarrow> int \<times> ('k, 'w) module_st" where
  "lowmem_notify_init le m = (let ret = register_reclaim_notifier le in (ret, m\<lparr>lowmem_nb := (ret = 0)\<rparr>))"

definition lowmem_notify_exit :: "('k, 'w) module_st \<Rightarrow> ('k, 'w) module_st" where
  "lowmem_notify_exit m = m\<lparr>lowmem_nb := False\<rparr>"

definition module_preimport_exit :: "('k, 'w) module_st \<Rightarrow> ('k, 'w) module_st" where
  "module_preimport_exit m = m\<lparr>obmm_proc := False\<rparr>"

definition addr_check_exit :: "('k, 'w) module_st \<Rightarrow> ('k, 'w) module_st" where
  "addr_check_exit m = m\<lparr>mcore := (mcore m)\<lparr>pre := (pre (mcore m))\<lparr>checker := module_addr_check_exit (checker (pre (mcore m)))\<rparr>\<rparr>\<rparr>"

text \<open>The labels of the error path of \<open>obmm_init\<close>, from the last one up.\<close>

definition out_allocator_exit :: "mm_config \<Rightarrow> 'k kmem_env \<Rightarrow> ('k, 'w) module_st \<Rightarrow> ('k, 'w) module_st" where
  "out_allocator_exit c env m = set_mpool (ubmempool_allocator_exit c env (mpool m)) m"

definition out_misc_deregister :: "mm_config \<Rightarrow> 'k kmem_env \<Rightarrow> ('k, 'w) module_st \<Rightarrow> ('k, 'w) module_st" where
  "out_misc_deregister c env m = out_allocator_exit c env (m\<lparr>obmm_dev_handle := False\<rparr>)"

definition out_addr_check_exit :: "mm_config \<Rightarrow> 'k kmem_env \<Rightarrow> ('k, 'w) module_st \<Rightarrow> ('k, 'w) module_st" where
  "out_addr_check_exit c env m = out_misc_deregister c env (obmm_shm_dev_exit (addr_check_exit m))"

definition out_module_import_exit :: "mm_config \<Rightarrow> 'k kmem_env \<Rightarrow> ('k, 'w) module_st \<Rightarrow> ('k, 'w) module_st" where
  "out_module_import_exit c env m = out_addr_check_exit c env (module_preimport_exit m)"

definition obmm_init :: "mm_config \<Rightarrow> 'k kmem_env \<Rightarrow> load_env \<Rightarrow> ('k, 'w) module_st \<Rightarrow> int \<times> ('k, 'w) module_st" where
  "obmm_init c env le m0 =
     (let m1 = ubmem_feature_probe le m0;
          (ret, p) = ubmempool_allocator_init c env (pool_params le) (pool_init_env le) (pool_kobj_ok le) (mpool m1);
          m2 = set_mpool p m1
      in if ret \<noteq> 0 then (ret, m2)
         else if misc_register le \<noteq> 0 then (misc_register le, out_allocator_exit c env m2)
         else
           let m3 = m2\<lparr>obmm_dev_handle := True, mcore := (mcore m2)\<lparr>regions := []\<rparr>\<rparr>;
               (ret1, m4) = obmm_shm_dev_init le m3
           in if ret1 \<noteq> 0 then (ret1, out_misc_deregister c env m4)
              else
                let m5 = m4\<lparr>mcore := (mcore m4)\<lparr>pre := (pre (mcore m4))\<lparr>checker := module_addr_check_init\<rparr>\<rparr>\<rparr>;
                    (ret2, f) = module_preimport_init (proc_mkdir_ok le) (proc_create_ok le);
                    m6 = m5\<lparr>obmm_proc := f\<rparr>
                in if ret2 \<noteq> 0 then (ret2, out_addr_check_exit c env m6)
                   else
                     let (ret3, m7) = lowmem_notify_init le m6
                     in if ret3 \<noteq> 0 then (ret3, out_module_import_exit c env m7) else (ret3, m7))"

definition obmm_exit :: "mm_config \<Rightarrow> 'k kmem_env \<Rightarrow> ('k, 'w) module_st \<Rightarrow> ('k, 'w) module_st" where
  "obmm_exit c env m =
     (let m1 = obmm_shm_dev_exit (addr_check_exit (module_preimport_exit (lowmem_notify_exit m)));
          m2 = m1\<lparr>obmm_dev_handle := False\<rparr>
      in set_mpool (ubmempool_allocator_exit c env (mpool m2)) m2)"

text \<open>An allocator without threads and sysfs entries; a module that has registered nothing, and one that is
  loaded.\<close>

definition quiet :: "conti_mem_allocator \<Rightarrow> bool" where
  "quiet a \<longleftrightarrow> \<not> initialized a \<and> \<not> sysfs_initialized a \<and> \<not> pool_work a \<and> \<not> clear_work a \<and> alloc_name a = None"

definition unloaded :: "('k, 'w) module_st \<Rightarrow> bool" where
  "unloaded m \<longleftrightarrow> \<not> obmm_dev_handle m \<and> \<not> obmm_devt m \<and> \<not> obmm_shm_rootdev m \<and> \<not> obmm_proc m \<and> \<not> lowmem_nb m
     \<and> \<not> mempool_kobj (mpool m) \<and> \<not> ghes_registered (mpool m) \<and> (\<forall>a \<in> set (allocators (mpool m)). quiet a)"

definition loaded :: "'k kmem_env \<Rightarrow> ('k, 'w) module_st \<Rightarrow> bool" where
  "loaded env m \<longleftrightarrow> obmm_dev_handle m \<and> obmm_devt m \<and> obmm_shm_rootdev m \<and> obmm_proc m \<and> lowmem_nb m
     \<and> mempool_kobj (mpool m) \<and> ghes_registered (mpool m) \<and> (\<forall>nd \<in> set (online_local_nodes (numa env)). initialized (allocators (mpool m) ! nd))
     \<and> regions (mcore m) = [] \<and> pa_ranges (checker (pre (mcore m))) = []"

text \<open>A machine where the notifier of low memory cannot be registered, the last stage of loading.\<close>

definition demo_load_env :: load_env where
  "demo_load_env = \<lparr>ub_features = 1, ub_mem_feature_mask = 3,
     pool_params = \<lparr>mempool_size = None, mempool_allocator = ''buddy_highmem'', mem_allocator_granu = None, memparse = (\<lambda>s. (0, s)),
       contig_mem_pool_percent = 0, arm64_64k_pages = False\<rparr>,
     pool_init_env = (\<lambda>_. \<lparr>env_name = Some ''mp'', env_clear_thread_ok = True, env_pool_thread_ok = True, env_kobject_ret = 0, env_sysfs_ret = 0\<rparr>),
     pool_kobj_ok = True, misc_register = 0, alloc_chrdev_region = 0, root_device_register = True, proc_mkdir_ok = True,
     proc_create_ok = True, register_reclaim_notifier = - ENOMEM\<rparr>"

definition demo_module :: "(u64 list \<times> u64 list, unit) module_st" where
  "demo_module = \<lparr>mcore = rst (reg_start (demo_mempool\<lparr>allocators := [], mempool_kobj := False, ghes_registered := False\<rparr>) (sys_st (pre_start ()))),
     obmm_enabled = False, obmm_dev_handle = False, obmm_devt = False, obmm_shm_rootdev = False, obmm_proc = False, lowmem_nb = False\<rparr>"

text \<open>Two regions in use: exported memory in two pieces, and imported memory.\<close>

definition demo_import_region :: obmm_import_region where
  "demo_import_region = zeroed_i_reg\<lparr>i_pa := 0x10000, i_region := zeroed_region\<lparr>regionid := 2, refcnt := 1, mem_size := 0x1000\<rparr>\<rparr>"

definition demo_two_regions :: "(u64 list \<times> u64 list, unit) reg_sys" where
  "demo_two_regions = \<lparr>rst = (ecore demo_export_st)\<lparr>regions := [1, 0], next_obj := 2, ida := [2, 1],
       objs := [0 \<mapsto> Export (demo_e_reg\<lparr>e_region := (e_region demo_e_reg)\<lparr>regionid := 1, refcnt := 1\<rparr>\<rparr>), 1 \<mapsto> Import demo_import_region]\<rparr>,
     users = [], owners = [], dying = []\<rparr>"

definition demo_query :: obmm_cmd_addr_query where
  "demo_query = \<lparr>aq_key_type = OBMM_QUERY_BY_ID_OFFSET, aq_mem_id = 1, aq_offset = 5, aq_pa = 0\<rparr>"

text \<open>An argument that can be read and written.\<close>

definition demo_user_arg :: user_arg where
  "demo_user_arg = \<lparr>u_create = demo_cmd_export, u_import = \<lparr>im_flags = OBMM_IMPORT_FLAG_ALLOW_MMAP, im_mem_id = 0, im_addr = 0x40000000, im_length = 0x200000, im_tokenid = 0,
       im_scna = 1, im_dcna = 2, im_numa_id = 0, im_priv_len = 0, im_base_dist = 0, im_deid = replicate 16 0, im_seid = replicate 16 0,
       im_priv = 0\<rparr>,
     u_unexport = \<lparr>ux_mem_id = 1, ux_flags = 0\<rparr>, u_unimport = \<lparr>um_mem_id = 1, um_flags = 0\<rparr>, u_query = demo_query,
     u_export_pid = \<lparr>xp_va = 0x200000, xp_length = 0x200000, xp_flags = 0, xp_uba = 0, xp_mem_id = 0, xp_tokenid = 0, xp_pid = 1,
       xp_pxm_numa = 0, xp_priv_len = 0, xp_vendor_len = 0, xp_deid = replicate 16 0, xp_seid = replicate 16 0, xp_vendor_info = 0, xp_priv = 0\<rparr>, u_preimport = demo_pre_cmd, readable = True, writable = True\<rparr>"

section \<open>Requests as sequences of atomic steps\<close>

abbreviation steps :: "('k, 'w) obmm_env \<Rightarrow> ('k, 'w) reg_sys \<Rightarrow> ('k, 'w) reg_sys \<Rightarrow> bool" where
  "steps env \<equiv> (reg_step env)\<^sup>*\<^sup>*"

abbreviation (input) marks :: "obmm_region \<Rightarrow> int \<times> int \<times> int" where
  "marks r \<equiv> (refcnt r, regionid r, device_released r)"

text \<open>The bytes of a region, and a state in which each address belongs to one region at most.\<close>

fun region_addrs :: "any_region \<Rightarrow> u64 set" where
  "region_addrs (Import i) = {pa. i_pa i \<le> pa \<and> pa < i_pa i + i_size i}"
| "region_addrs (Export e) = set (region_bytes (sgt e))"

fun addrs_ok :: "any_region \<Rightarrow> bool" where
  "addrs_ok (Import i) \<longleftrightarrow> unat (i_pa i) + unat (i_size i) < 2 ^ 64"
| "addrs_ok (Export e) \<longleftrightarrow> sgs_ok e"

definition addrs_disjoint :: "('k, 'w) obmm_state \<Rightarrow> bool" where
  "addrs_disjoint st \<longleftrightarrow> (\<forall>h \<in> set (regions st). addrs_ok (the (objs st h)))
     \<and> (\<forall>h \<in> set (regions st). \<forall>h' \<in> set (regions st). h \<noteq> h' \<longrightarrow> region_addrs (the (objs st h)) \<inter> region_addrs (the (objs st h')) = {})"

text \<open>While the module is loaded and unloaded, only nodes of \<open>S\<close> have a running allocator.\<close>

definition pools_quiet :: "nat set \<Rightarrow> 'k ubmempool \<Rightarrow> bool" where
  "pools_quiet S p \<longleftrightarrow> (\<forall>i < length (allocators p). quiet (allocators p ! i) \<or> initialized (allocators p ! i) \<and> i \<in> S)"

definition same_flags :: "'k ubmempool \<Rightarrow> 'k ubmempool \<Rightarrow> bool" where
  "same_flags p p' \<longleftrightarrow> length (allocators p') = length (allocators p) \<and> mempool_kobj p' = mempool_kobj p
     \<and> ghes_registered p' = ghes_registered p"

lemma steps_inv: "steps env s s' \<Longrightarrow> region_inv s \<Longrightarrow> region_inv s'"
  by (induction rule: rtranclp_induct) (auto intro: reg_step_inv)

lemma owner_facts:
  assumes "region_inv s" "h \<in> set (owners s)"
  shows "objs (rst s) h \<noteq> None" "distinct (owners s)" "h \<notin> set (dying s)" "h \<notin> set (regions (rst s)) \<Longrightarrow> h \<notin> set (devs (rst s))"
  using assms by (auto simp: region_inv_def lists_inv_def live_def)

text \<open>The end of a region: it gives up its number, waits for its device and is freed.\<close>

lemma finish_steps:
  assumes inv: "region_inv s" and h: "h \<in> set (owners s)" "h \<notin> set (regions (rst s))"
    and w: "wait_until_dev_released env h (uninit_obmm_region h (rst s)) = Some c"
  shows "steps env s (s\<lparr>rst := kfree_region h c, owners := remove1 h (owners s)\<rparr>)"
proof -
  let ?s1 = "s\<lparr>rst := uninit_obmm_region h (rst s), owners := remove1 h (owners s), dying := h # dying s\<rparr>"
  have u: "reg_step env s ?s1" by (rule reg_step.uninit [OF h])
  have f: "h \<notin> set (devs (rst ?s1))" "objs (rst ?s1) h \<noteq> None"
    using owner_facts [OF inv h(1)] h(2) by (auto simp: uninit_obmm_region_def Let_def upd_reg_def)
  have fin: "reg_step env (?s1\<lparr>rst := c\<rparr>) (s\<lparr>rst := kfree_region h c, owners := remove1 h (owners s)\<rparr>)"
    if "device_released (reg_at c h) \<noteq> 0"
    using reg_step.destroy [of h "?s1\<lparr>rst := c\<rparr>" env] that by (cases s) simp
  show ?thesis
  proof (cases "device_released (reg_at (rst ?s1) h) = 0")
    case False
    then have "c = rst ?s1" using w by (simp add: wait_until_dev_released_def)
    then have "?s1\<lparr>rst := c\<rparr> = ?s1" by simp
    then show ?thesis using u fin False \<open>c = rst ?s1\<close> by (metis rtranclp.simps)
  next
    case True
    then have c: "c = obmm_shm_dev_release h (rst ?s1)" using w by (auto simp: wait_until_dev_released_def)
    have r: "reg_step env ?s1 (?s1\<lparr>rst := c\<rparr>)" unfolding c by (rule reg_step.release_dev [OF f True])
    have "device_released (reg_at c h) \<noteq> 0" using f(2) by (auto simp: c obmm_shm_dev_release_def reg_at_upd live_def)
    from fin [OF this] u r show ?thesis by (meson converse_rtranclp_into_rtranclp rtranclp.rtrancl_refl)
  qed
qed

lemma alloc_pool_region:
  "alloc_export_memory_pool c env e p = Some (ret, e', p') \<Longrightarrow> e_region e' = e_region e"
  by (auto simp: alloc_export_memory_pool_def Let_def split: if_splits option.splits prod.splits)

lemma free_pool_region: "free_export_memory_pool c env e p = (e', p') \<Longrightarrow> e_region e' = e_region e"
  by (auto simp: free_export_memory_pool_def split: prod.splits)

lemma free_memory_store:
  "free_export_memory env e st = (e', st') \<Longrightarrow> same_store (ecore st) (ecore st') \<and> e_region e' = e_region e"
  by (auto simp: free_export_memory_def dest: free_pid_store free_pool_region split: if_splits prod.splits)

lemma alloc_memory_store:
  "alloc_export_memory env e st = Some (ret, e', st') \<Longrightarrow> same_store (ecore st) (ecore st') \<and> e_region e' = e_region e"
  by (auto simp: alloc_export_memory_def dest: alloc_pid_store alloc_pid_keeps alloc_pool_region split: if_splits)

lemma export_common_store:
  assumes "obmm_export_common env e st = Some (ret, e1, st1)"
  shows "same_store (ecore st) (ecore st1) \<and> e_region e1 = e_region e"
proof -
  obtain r ea sta where al: "alloc_export_memory env e st = Some (r, ea, sta)"
    using assms by (auto simp: obmm_export_common_def split: option.splits)
  note a = alloc_memory_store [OF al]
  obtain r2 eb k where su: "setup_ummu env ea (ekmem sta) = (r2, eb, k)" by (metis prod_cases3)
  obtain ec stc where fr: "free_export_memory env eb (set_ekmem k sta) = (ec, stc)" by fastforce
  have "same_store (ecore sta) (ecore stc) \<and> e_region ec = e_region eb" using free_memory_store [OF fr] by simp
  then show ?thesis
    using assms a al su fr setup_ummu_keeps [OF su] same_trans(1) [of "ecore st" "ecore sta" "ecore stc"]
    by (cases "r = 0"; cases "r2 = 0") (auto simp: obmm_export_common_def)
qed

lemma unexport_common_store:
  assumes "obmm_unexport_common env e st = (ret, e1, st1)"
  shows "same_store (ecore st) (ecore st1) \<and> e_region e1 = e_region e"
proof -
  obtain r k where td: "teardown_ummu env e (ekmem st) = (r, k)" by fastforce
  obtain e2 st2 where fr: "free_export_memory env e (set_ekmem k st) = (e2, st2)" by fastforce
  show ?thesis using assms td fr free_memory_store [OF fr] by (cases "r = 0") (auto simp: obmm_unexport_common_def)
qed

lemma own_work_set:
  assumes "same_store c c'" "objs c h = Some r"
    "refcnt (region_of r') = refcnt (region_of r)" "regionid (region_of r') = regionid (region_of r)"
    "device_released (region_of r') = device_released (region_of r)"
  shows "own_work h c (set_obj h r' c')"
  using assms by (simp add: own_work_def same_store_def set_obj_def reg_at_def)

lemma init_region_of:
  assumes "init_obmm_region env h c = (ret, c')" "objs c h = Some r"
  shows "\<exists>r'. objs c' h = Some r' \<and> device_released (region_of r') = device_released (region_of r)
    \<and> (\<forall>i. r = Import i \<longrightarrow> (\<exists>i'. r' = Import i')) \<and> (\<forall>e. r = Export e \<longrightarrow> (\<exists>e'. r' = Export e'))"
  using assms by (cases r) (auto simp: init_obmm_region_def upd_reg_def set_kw_def Let_def split: prod.splits if_splits)

lemma register_region:
  assumes "region_inv s" "h \<in> set (owners s)" "h \<notin> set (regions (rst s))" "register_obmm_region env h (rst s) = (ret, c)"
  shows "h \<in> set (regions c) \<longleftrightarrow> ret = 0"
proof -
  from register_views [OF assms] obtain st1 where "same_lists (rst s) st1"
    "if ret = 0 then c = st1\<lparr>regions := h # regions st1\<rparr> \<and> devs st1 = h # devs (rst s) else c = st1 \<and> devs st1 = devs (rst s)" by blast
  then show ?thesis using assms(3) by (auto simp: same_lists_def split: if_splits)
qed

text \<open>Creation of a region: the object is new, and published regions are not touched.\<close>

lemma create_step:
  assumes "region_inv s" "kzalloc_region r (rst s) = (h, c1)" "device_released (region_of r) = 1" "init_obmm_region env h c1 = (0, c2)"
  shows "reg_step env s (s\<lparr>rst := c2, owners := h # owners s\<rparr>)" "h \<notin> set (regions c2)" "h \<notin> set (owners s)"
proof -
  show "reg_step env s (s\<lparr>rst := c2, owners := h # owners s\<rparr>)" by (rule reg_step.create [OF assms(2-4)])
  have "h = next_obj (rst s)" "c1 = (rst s)\<lparr>objs := (objs (rst s))(h \<mapsto> r), next_obj := Suc h\<rparr>"
    using assms(2) by (auto simp: kzalloc_region_def)
  moreover have "regions c2 = regions c1"
    using assms(4) by (auto simp: init_obmm_region_def set_kw_def Let_def split: prod.splits if_splits)
  moreover have "next_obj (rst s) \<notin> set (regions (rst s)) \<union> set (owners s)"
    using assms(1) unfolding region_inv_def lists_inv_def live_def by blast
  ultimately show "h \<notin> set (regions c2)" "h \<notin> set (owners s)" by simp_all
qed

lemma create_fails:
  assumes "region_inv s" "kzalloc_region r (rst s) = (h, c1)" "device_released (region_of r) = 1" "init_obmm_region env h c1 = (ret, c2)" "ret \<noteq> 0"
    "wait_until_dev_released env h c2 = Some c"
  shows "reg_step env s (s\<lparr>rst := kfree_region h c\<rparr>)"
proof -
  have "objs c1 h = Some r" using assms(2) by (auto simp: kzalloc_region_def)
  from init_region_of [OF assms(4) this] have "device_released (reg_at c2 h) \<noteq> 0" using assms(3) by (auto simp: reg_at_def)
  then have "c = c2" using assms(6) by (simp add: wait_until_dev_released_def)
  then show ?thesis using reg_step.create_fail [OF assms(2,4,5)] by simp
qed

text \<open>After the owner has prepared its region, the region is published, or taken down when that fails.\<close>

lemma publish_steps:
  assumes inv: "region_inv s" and h: "h \<in> set (owners s)" "h \<notin> set (regions (rst s))" "device_released (reg_at (rst s) h) \<noteq> 0"
    and rg: "register_obmm_region env h (rst s) = (ret, c)"
  shows "ret = 0 \<Longrightarrow> steps env s (s\<lparr>rst := activate_obmm_region h c, owners := remove1 h (owners s)\<rparr>)"
    and "ret \<noteq> 0 \<Longrightarrow> own_work h c c' \<Longrightarrow> wait_until_dev_released env h (uninit_obmm_region h c') = Some c''
      \<Longrightarrow> steps env s (s\<lparr>rst := kfree_region h c'', owners := remove1 h (owners s)\<rparr>)"
proof -
  have r: "reg_step env s (s\<lparr>rst := c\<rparr>)" by (rule reg_step.register [OF h rg])
  have i1: "region_inv (s\<lparr>rst := c\<rparr>)" by (rule reg_step_inv [OF r inv])
  note reg = register_region [OF inv h(1,2) rg]
  show "steps env s (s\<lparr>rst := activate_obmm_region h c, owners := remove1 h (owners s)\<rparr>)" if "ret = 0"
  proof -
    have "reg_step env (s\<lparr>rst := c\<rparr>) (s\<lparr>rst := activate_obmm_region h c, owners := remove1 h (owners s)\<rparr>)"
      using reg_step.activate [of h "s\<lparr>rst := c\<rparr>" env] h(1) reg that by simp
    from rtranclp.rtrancl_into_rtrancl [OF r_into_rtranclp [of "reg_step env", OF r] this] show ?thesis .
  qed
  show "steps env s (s\<lparr>rst := kfree_region h c'', owners := remove1 h (owners s)\<rparr>)"
    if "ret \<noteq> 0" "own_work h c c'" "wait_until_dev_released env h (uninit_obmm_region h c') = Some c''"
  proof -
    have w: "reg_step env (s\<lparr>rst := c\<rparr>) (s\<lparr>rst := c'\<rparr>)" using reg_step.work [of h "s\<lparr>rst := c\<rparr>" c' env] h(1) that(2) by simp
    have "h \<notin> set (regions c')" using reg that(1,2) by (simp add: own_work_def)
    then have "steps env (s\<lparr>rst := c'\<rparr>) (s\<lparr>rst := kfree_region h c'', owners := remove1 h (owners s)\<rparr>)"
      using finish_steps [OF reg_step_inv [OF w i1], of h env c''] h(1) that(3) by simp
    from converse_rtranclp_into_rtranclp [of "reg_step env", OF r converse_rtranclp_into_rtranclp [of "reg_step env", OF w this]] show ?thesis .
  qed
qed

text \<open>Work between creation and publication.\<close>

lemma created_steps:
  assumes inv: "region_inv s" and kz: "kzalloc_region r (rst s) = (h, c1)" "device_released (region_of r) = 1"
    and ir: "init_obmm_region env h c1 = (0, c2)" and w: "own_work h c2 c3"
  shows "steps env s (s\<lparr>rst := c3, owners := h # owners s\<rparr>)" "h \<notin> set (regions c3)" "device_released (reg_at c3 h) \<noteq> 0"
proof -
  note c = create_step [OF inv kz ir]
  have "reg_step env (s\<lparr>rst := c2, owners := h # owners s\<rparr>) (s\<lparr>rst := c3, owners := h # owners s\<rparr>)"
    using reg_step.work [of h "s\<lparr>rst := c2, owners := h # owners s\<rparr>" c3 env] w by (cases s) simp
  from rtranclp.rtrancl_into_rtrancl [OF r_into_rtranclp [of "reg_step env", OF c(1)] this]
  show "steps env s (s\<lparr>rst := c3, owners := h # owners s\<rparr>)" .
  show "h \<notin> set (regions c3)" using c(2) w by (simp add: own_work_def)
  have "objs c1 h = Some r" using kz(1) by (auto simp: kzalloc_region_def)
  from init_region_of [OF ir this] show "device_released (reg_at c3 h) \<noteq> 0" using kz(2) w by (auto simp: reg_at_def own_work_def)
qed

lemma created_fails:
  assumes "region_inv s" "kzalloc_region r (rst s) = (h, c1)" "device_released (region_of r) = 1"
    "init_obmm_region env h c1 = (0, c2)" "own_work h c2 c3" "wait_until_dev_released env h (uninit_obmm_region h c3) = Some c"
  shows "steps env s (s\<lparr>rst := kfree_region h c\<rparr>)"
proof -
  note c = created_steps [OF assms(1-5)]
  have "steps env (s\<lparr>rst := c3, owners := h # owners s\<rparr>) (s\<lparr>rst := kfree_region h c\<rparr>)"
    using finish_steps [OF steps_inv [OF c(1) assms(1)], of h env c] c(2) assms(6) by simp
  from rtranclp_trans [OF c(1) this] show ?thesis .
qed

lemma created_publish:
  assumes "region_inv s" "kzalloc_region r (rst s) = (h, c1)" "device_released (region_of r) = 1"
    "init_obmm_region env h c1 = (0, c2)" "own_work h c2 c3" "register_obmm_region env h c3 = (ret, c4)"
  shows "ret = 0 \<Longrightarrow> steps env s (s\<lparr>rst := activate_obmm_region h c4\<rparr>)"
    and "ret \<noteq> 0 \<Longrightarrow> own_work h c4 c5 \<Longrightarrow> wait_until_dev_released env h (uninit_obmm_region h c5) = Some c
      \<Longrightarrow> steps env s (s\<lparr>rst := kfree_region h c\<rparr>)"
proof -
  note c = created_steps [OF assms(1-5)]
  let ?s = "s\<lparr>rst := c3, owners := h # owners s\<rparr>"
  note p = publish_steps [OF steps_inv [OF c(1) assms(1)], of h env ret c4]
  show "steps env s (s\<lparr>rst := activate_obmm_region h c4\<rparr>)" if "ret = 0"
    using rtranclp_trans [OF c(1)] p(1) c(2,3) assms(6) that by simp
  show "steps env s (s\<lparr>rst := kfree_region h c\<rparr>)"
    if "ret \<noteq> 0" "own_work h c4 c5" "wait_until_dev_released env h (uninit_obmm_region h c5) = Some c"
    using rtranclp_trans [OF c(1)] p(2) c(2,3) assms(6) that by simp
qed

text \<open>A request that takes a region down: it works on the deactivated region and gives it back or frees it.\<close>

lemma taken_facts:
  assumes "search_deactivate_obmm_region rid (rst s) = (Inr h, c)" "own_work h c c'"
  shows "steps env s (s\<lparr>rst := c', owners := h # owners s\<rparr>)" "h \<in> set (regions c')"
proof -
  have d: "reg_step env s (s\<lparr>rst := c, owners := h # owners s\<rparr>)" by (rule reg_step.deactivate [OF assms(1)])
  have w: "reg_step env (s\<lparr>rst := c, owners := h # owners s\<rparr>) (s\<lparr>rst := c', owners := h # owners s\<rparr>)"
    using reg_step.work [of h "s\<lparr>rst := c, owners := h # owners s\<rparr>" c' env] assms(2) by (cases s) simp
  from rtranclp.rtrancl_into_rtrancl [OF r_into_rtranclp [of "reg_step env", OF d] w]
  show "steps env s (s\<lparr>rst := c', owners := h # owners s\<rparr>)" .
  have "h \<in> set (regions c)" using assms(1)
    by (auto simp: search_deactivate_obmm_region_def disable_obmm_region_get_def search_obmm_region_def find_Some_iff upd_reg_def
        split: option.splits if_splits)
  then show "h \<in> set (regions c')" using assms(2) by (simp add: own_work_def)
qed

lemma taken_back:
  assumes "search_deactivate_obmm_region rid (rst s) = (Inr h, c)" "own_work h c c'"
  shows "steps env s (s\<lparr>rst := activate_obmm_region h c'\<rparr>)"
proof -
  note t = taken_facts [OF assms]
  have "reg_step env (s\<lparr>rst := c', owners := h # owners s\<rparr>) (s\<lparr>rst := activate_obmm_region h c'\<rparr>)"
    using reg_step.activate [of h "s\<lparr>rst := c', owners := h # owners s\<rparr>" env] t(2) by simp
  from rtranclp.rtrancl_into_rtrancl [OF t(1) this] show ?thesis .
qed

lemma taken_down:
  assumes inv: "region_inv s" and d: "search_deactivate_obmm_region rid (rst s) = (Inr h, c)" "own_work h c c'"
    and w: "wait_until_dev_released env h (uninit_obmm_region h (deregister_obmm_region env h c')) = Some c''"
  shows "steps env s (s\<lparr>rst := kfree_region h c''\<rparr>)"
proof -
  note t = taken_facts [OF d]
  have r: "reg_step env (s\<lparr>rst := c', owners := h # owners s\<rparr>) (s\<lparr>rst := deregister_obmm_region env h c', owners := h # owners s\<rparr>)"
    using reg_step.deregister [of h "s\<lparr>rst := c', owners := h # owners s\<rparr>" env] t(2) by (cases s) simp
  note s2 = rtranclp.rtrancl_into_rtrancl [OF t(1) r]
  have "distinct (regions c')" using steps_inv [OF t(1) inv] by (simp add: region_inv_def lists_inv_def)
  then have "h \<notin> set (regions (deregister_obmm_region env h c'))"
    by (simp add: deregister_obmm_region_def remove_obmm_region_def obmm_shm_dev_del_def add_module_refs_def obmm_shm_dev_release_def upd_reg_def set_kw_def Let_def)
  then have "steps env (s\<lparr>rst := deregister_obmm_region env h c', owners := h # owners s\<rparr>) (s\<lparr>rst := kfree_region h c''\<rparr>)"
    using finish_steps [OF steps_inv [OF s2 inv], of h env c''] w by simp
  from rtranclp_trans [OF s2 this] show ?thesis .
qed

lemma own_work_refl: "own_work h c c"
  by (simp add: own_work_def)

text \<open>One request against the driver.\<close>

lemma export_new_steps:
  assumes call: "export_new_region env e st = Some (ret, out, st')" and inv: "region_inv s" "rst s = ecore st"
    and e: "device_released (e_region e) = 1"
  shows "steps (base_e env) s (s\<lparr>rst := ecore st'\<rparr>)"
proof -
  obtain h c1 where kz: "kzalloc_region (Export e) (rst s) = (h, c1)" by fastforce
  obtain r1 c2 where ir: "init_obmm_region (base_e env) h c1 = (r1, c2)" by fastforce
  have "objs c1 h = Some (Export e)" using kz by (auto simp: kzalloc_region_def)
  from init_region_of [OF ir this] obtain e0 where g: "objs c2 h = Some (Export e0)" by auto
  have e': "device_released (region_of (Export e)) = 1" using e by simp
  note eqs = export_new_region_def kz [unfolded inv(2)] ir Let_def g free_export_region_def
  show ?thesis
  proof (cases "r1 = 0")
    case False
    then obtain c where "wait_until_dev_released (base_e env) h c2 = Some c" "ecore st' = kfree_region h c"
      using call by (auto simp: eqs)
    then show ?thesis using create_fails [OF inv(1) kz e' ir False] by auto
  next
    case r1: True
    note ir0 = ir [unfolded r1]
    obtain p where "obmm_export_common env e0 (st\<lparr>ecore := c2\<rparr>) = Some p"
      using call r1 by (cases "obmm_export_common env e0 (st\<lparr>ecore := c2\<rparr>)") (simp_all add: eqs)
    then obtain r2 e1 st2 where ec: "obmm_export_common env e0 (st\<lparr>ecore := c2\<rparr>) = Some (r2, e1, st2)" by (metis prod_cases3)
    let ?c3 = "set_obj h (Export e1) (ecore st2)"
    have w: "own_work h c2 ?c3" using export_common_store [OF ec] own_work_set [OF _ g, of "ecore st2" "Export e1"] by simp
    show ?thesis
    proof (cases "r2 = 0")
      case False
      then obtain c where "wait_until_dev_released (base_e env) h (uninit_obmm_region h ?c3) = Some c" "ecore st' = kfree_region h c"
        using call r1 by (auto simp: eqs ec)
      then show ?thesis using created_fails [OF inv(1) kz e' ir0 w] by simp
    next
      case r2: True
      obtain r3 c4 where rg: "register_obmm_region (base_e env) h ?c3 = (r3, c4)" by fastforce
      note pub = created_publish [OF inv(1) kz e' ir0 w rg]
      from same_mem_export [OF register_mem [OF rg], of h e1] obtain e2 where e2: "objs c4 h = Some (Export e2)" by auto
      show ?thesis
      proof (cases "r3 = 0")
        case True
        then have "ecore st' = activate_obmm_region h c4" using call r1 r2 by (simp add: eqs ec rg) auto
        then show ?thesis using pub(1) True by simp
      next
        case False
        obtain r4 e3 st5 where un: "obmm_unexport_common env e2 ((upd_core (set_obj h (Export e1)) st2)\<lparr>ecore := c4\<rparr>) = (r4, e3, st5)"
          by (metis prod_cases3)
        let ?c5 = "set_obj h (Export e3) (ecore st5)"
        have w5: "own_work h c4 ?c5" using unexport_common_store [OF un] own_work_set [OF _ e2, of "ecore st5" "Export e3"] by simp
        obtain c where "wait_until_dev_released (base_e env) h (uninit_obmm_region h ?c5) = Some c" "ecore st' = kfree_region h c"
          using call r1 r2 False e2 un by (auto simp: eqs ec rg)
        then show ?thesis using pub(2) [OF False w5] by simp
      qed
    qed
  qed
qed

lemma deactivate_fails: "search_deactivate_obmm_region rid c = (Inl err, c') \<Longrightarrow> c' = c"
  by (auto simp: search_deactivate_obmm_region_def disable_obmm_region_get_def Let_def split: option.splits if_splits)

lemma unexport_steps:
  assumes call: "obmm_unexport env cmd st = Some (ret, st')" and inv: "region_inv s" "rst s = ecore st"
  shows "steps (base_e env) s (s\<lparr>rst := ecore st'\<rparr>)"
proof -
  obtain r c where d: "search_deactivate_obmm_region (uint (ux_mem_id cmd)) (rst s) = (r, c)" by fastforce
  have refl: "steps (base_e env) s (s\<lparr>rst := ecore st\<rparr>)" using inv(2) [symmetric] by simp
  show ?thesis
  proof (cases "validate_obmm_mem_id (ux_mem_id cmd) \<and> ux_flags cmd AND NOT OBMM_UNEXPORT_FLAG_MASK = 0 \<and> (\<exists>h. r = Inr h)")
    case False
    then have "ecore st' = ecore st" using call d [unfolded inv(2)] inv(2)
      by (auto simp: obmm_unexport_def dest: deactivate_fails split: if_splits sum.splits)
    then show ?thesis using refl by simp
  next
    case True
    then obtain h where h: "r = Inr h" by blast
    note eqs = obmm_unexport_def d [unfolded inv(2)] h Let_def free_export_region_def
    note tb = taken_back [OF d [unfolded h]] and td = taken_down [OF inv(1) d [unfolded h]]
    consider (none) "objs c h = None" | (imp) i where "objs c h = Some (Import i)" | (exp) e where "objs c h = Some (Export e)"
      by (cases "objs c h"; cases "the (objs c h)") auto
    then show ?thesis
    proof cases
      case none
      then show ?thesis using call True by (simp add: eqs)
    next
      case imp
      then have "ecore st' = activate_obmm_region h c" using call True by (auto simp: eqs)
      then show ?thesis using tb [OF own_work_refl] by simp
    next
      case exp
      obtain r1 e1 st1 where un: "obmm_unexport_common env e (st\<lparr>ecore := c\<rparr>) = (r1, e1, st1)" by (metis prod_cases3)
      let ?c2 = "set_obj h (Export e1) (ecore st1)"
      have w: "own_work h c ?c2" using unexport_common_store [OF un] own_work_set [OF _ exp, of "ecore st1" "Export e1"] by simp
      show ?thesis
      proof (cases "r1 = 0")
        case False
        then have "ecore st' = activate_obmm_region h ?c2" using call True exp un by (auto simp: eqs)
        then show ?thesis using tb [OF w] by simp
      next
        case ok: True
        then obtain c' where "wait_until_dev_released (base_e env) h (uninit_obmm_region h (deregister_obmm_region (base_e env) h ?c2)) = Some c'"
          "ecore st' = kfree_region h c'" using call True exp un by (auto simp: eqs)
        then show ?thesis using td [OF w] by simp
      qed
    qed
  qed
qed

text \<open>Preparing and releasing the memory of an import changes fields of the import only.\<close>

lemma setup_pa_region: "setup_pa env i st = (ret, i', st') \<Longrightarrow> marks (i_region i') = marks (i_region i)"
  by (auto simp: setup_pa_def Let_def split: if_splits prod.splits sum.splits)

lemma setup_numa_region: "setup_remote_numa env i st = Some (ret, i', st') \<Longrightarrow> marks (i_region i') = marks (i_region i)"
  by (auto simp: setup_remote_numa_def Let_def split: if_splits prod.splits option.splits)

lemma setup_iomem_region: "setup_iomem_resource env i st = (ret, i', st') \<Longrightarrow> marks (i_region i') = marks (i_region i)"
  by (auto simp: setup_iomem_resource_def Let_def split: if_splits prod.splits sum.splits)

lemma undo_addr_region: "undo_addr_range h r i st = (ret, i', st') \<Longrightarrow> i' = i"
  by (auto simp: undo_addr_range_def split: prod.splits)

lemma undo_pa_region: "undo_pa env h r i st = (ret, i', st') \<Longrightarrow> i' = i"
  by (auto simp: undo_pa_def dest: undo_addr_region split: prod.splits)

lemma undo_numa_region: "undo_numa env h r i st = Some (ret, i', st') \<Longrightarrow> i' = i"
  by (auto simp: undo_numa_def dest: undo_pa_region split: if_splits)

lemmas undo_region = undo_addr_region undo_pa_region undo_numa_region

lemma redo_region:
  "redo_iomem env r i st = (ret, i', st') \<Longrightarrow> marks (i_region i') = marks (i_region i)"
  "redo_numa env nd r i st = Some (ret, i', st') \<Longrightarrow> marks (i_region i') = marks (i_region i)"
  by (auto simp: redo_iomem_def redo_numa_def dest!: setup_iomem_region setup_numa_region split: prod.splits if_splits option.splits)

lemma prepare_region:
  assumes "prepare_import_memory env h i st = Some (ret, i', st')"
  shows "marks (i_region i') = marks (i_region i)"
proof -
  obtain r1 st1 where oc: "occupy_addr_range env h i st = (r1, st1)" by fastforce
  obtain r2 i1 st2 where sp: "setup_pa env i st1 = (r2, i1, st2)" by (metis prod_cases3)
  note i1 = setup_pa_region [OF sp]
  let ?nu = "if region_numa_remote (i_region i1) then setup_remote_numa env i1 st2 else Some (0, i1\<lparr>i_numa_id := NUMA_NO_NODE\<rparr>, st2)"
  have i2: "marks (i_region i2) = marks (i_region i1)" if "?nu = Some (r, i2, st3)" for r i2 st3
    using that by (auto dest: setup_numa_region split: if_splits)
  have i3: "marks (i_region i') = marks (i_region i1)" if "?nu = Some (r, i2, st3)" "r2 = 0" "validate_scna env (i_scna i)" "r1 = 0" for r i2 st3
  proof -
    obtain r4 i4 st4 where io: "setup_iomem_resource env i2 st3 = (r4, i4, st4)" by (metis prod_cases3)
    show ?thesis using assms that i2 [OF that(1)] setup_iomem_region [OF io]
      by (auto simp: prepare_import_memory_def oc sp io Let_def dest: undo_region split: if_splits)
  qed
  show ?thesis
  proof (cases "validate_scna env (i_scna i) \<and> r1 = 0 \<and> r2 = 0")
    case True
    obtain p where "?nu = Some p" using assms True by (cases ?nu) (auto simp: prepare_import_memory_def oc sp split: if_splits)
    then obtain r i2 st3 where "?nu = Some (r, i2, st3)" by (metis prod_cases3)
    from i3 [OF this] True i1 show ?thesis by simp
  next
    case False
    then show ?thesis using assms i1 by (auto simp: prepare_import_memory_def oc sp dest: undo_region split: if_splits)
  qed
qed

lemma release_region:
  assumes "release_import_memory env h i st = Some (ret, i', st')"
  shows "marks (i_region i') = marks (i_region i)"
  using assms
  by (auto simp: release_import_memory_def Let_def dest!: redo_region setup_pa_region split: if_splits prod.splits option.splits)

lemma init_cmd_region:
  "init_import_region_from_cmd copy cmd i = (ret, i') \<Longrightarrow> device_released (i_region i') = device_released (i_region i)"
  by (auto simp: init_import_region_from_cmd_def set_obmm_region_priv_def Let_def split: prod.splits if_splits option.splits)

lemma import_steps:
  assumes call: "obmm_import env cmd c = Some (ret, cmd', c')" and inv: "region_inv s" "rst s = c"
  shows "steps env s (s\<lparr>rst := c'\<rparr>)"
proof -
  obtain okay w where al: "alloc_ok (pre_e env) (kw c) = (okay, w)" by fastforce
  obtain c0 where c0: "set_kw w c = c0" by simp
  then have v0: "objs c0 = objs c" "next_obj c0 = next_obj c" "regions c0 = regions c" "devs c0 = devs c" "ida c0 = ida c"
    by (auto simp: set_kw_def)
  let ?s0 = "s\<lparr>rst := c0\<rparr>" and ?i0 = "zeroed_i_reg\<lparr>i_region := zeroed_region\<lparr>device_released := 1\<rparr>\<rparr>"
  have o: "reg_step env s ?s0" by (rule reg_step.outside) (simp add: outside_work_def inv(2) v0)
  note s0 = reg_step_inv [OF o inv(1)]
  have via0: "steps env s (s\<lparr>rst := c'\<rparr>)" if "steps env ?s0 (?s0\<lparr>rst := c'\<rparr>)"
    using converse_rtranclp_into_rtranclp [of "reg_step env", OF o that] by simp
  obtain h c1 where kz0: "kzalloc_region (Import ?i0) c0 = (h, c1)" by fastforce
  obtain r0 i where ic: "init_import_region_from_cmd (\<lambda>p n. user_data env p n w) cmd ?i0 = (r0, i)" by fastforce
  obtain c2 where c2: "set_obj h (Import i) c1 = c2" by simp
  have kz: "kzalloc_region (Import i) (rst ?s0) = (h, c2)" and i0: "objs c1 h = Some (Import ?i0)"
    and v2: "objs c2 h = Some (Import i)" "regions c2 = regions c" "devs c2 = devs c" "ida c2 = ida c" "next_obj c2 = Suc (next_obj c)" "h = next_obj c"
      "(objs c2)(h := None) = (objs c)(h := None)"
    using kz0 c2 v0 by (auto simp: kzalloc_region_def set_obj_def)
  have dr: "device_released (region_of (Import i)) = 1" using init_cmd_region [OF ic] by simp
  obtain r1 c3 where ir: "init_obmm_region env h c2 = (r1, c3)" by fastforce
  from init_region_of [OF ir v2(1)] obtain i1 where i1: "objs c3 h = Some (Import i1)" by auto
  note eqs = obmm_import_def al c0 Let_def kz0 i0 ic c2 ir i1 free_ireg_def
  show ?thesis
  proof (cases "okay \<and> r0 = 0")
    case False
    have "objs c h = None" using inv unfolding region_inv_def lists_inv_def live_def v2(6) by auto
    then have fresh: "(objs c)(h := None) = objs c" by auto
    have "reg_step env s (s\<lparr>rst := c'\<rparr>)"
    proof (rule reg_step.outside)
      have d: "wait_until_dev_released env h c2 = Some c2" using dr by (simp add: wait_until_dev_released_def reg_at_def v2(1))
      from d have "c' = c0 \<or> c' = kfree_region h c2" using call False by (auto simp: eqs split: if_splits)
      then show "outside_work (rst s) c'" using inv(2) fresh v2 v0 by (auto simp: outside_work_def kfree_region_def)
    qed
    then show ?thesis by simp
  next
    case ok: True
    show ?thesis
    proof (cases "r1 = 0")
      case False
      then obtain c4 where "wait_until_dev_released env h c3 = Some c4" "c' = kfree_region h c4"
        using call ok by (auto simp: eqs)
      then show ?thesis using via0 create_fails [OF s0 kz dr ir False] by auto
    next
      case r1: True
      note ir0 = ir [unfolded r1]
      obtain p where "prepare_import_memory (pre_e env) h i1 (pre c3) = Some p"
        using call ok r1 by (cases "prepare_import_memory (pre_e env) h i1 (pre c3)") (simp_all add: eqs)
      then obtain r2 i2 ps where pr: "prepare_import_memory (pre_e env) h i1 (pre c3) = Some (r2, i2, ps)" by (metis prod_cases3)
      let ?c4 = "set_obj h (Import i2) (c3\<lparr>pre := ps\<rparr>)"
      have w: "own_work h c3 ?c4" using prepare_region [OF pr] own_work_set [OF _ i1, of "c3\<lparr>pre := ps\<rparr>" "Import i2"]
        by (simp add: same_store_def)
      show ?thesis
      proof (cases "r2 = 0")
        case False
        then obtain c5 where "wait_until_dev_released env h (uninit_obmm_region h ?c4) = Some c5" "c' = kfree_region h c5"
          using call ok r1 by (auto simp: eqs pr)
        then show ?thesis using via0 created_fails [OF s0 kz dr ir0 w] by simp
      next
        case r2: True
        obtain r3 c5 where rg: "register_obmm_region env h ?c4 = (r3, c5)" by fastforce
        note pub = created_publish [OF s0 kz dr ir0 w rg]
        from same_mem_import [OF register_mem [OF rg], of h i2] obtain i3 where i3: "objs c5 h = Some (Import i3)" by auto
        show ?thesis
        proof (cases "r3 = 0")
          case True
          then have "c' = activate_obmm_region h c5" using call ok r1 r2 by (simp add: eqs pr rg)
          then show ?thesis using via0 pub(1) True by simp
        next
          case False
          obtain p where "release_import_memory env h i3 (pre c5) = Some p"
            using call ok r1 r2 False i3 by (cases "release_import_memory env h i3 (pre c5)") (simp_all add: eqs pr rg)
          then obtain r4 i4 ps4 where rl: "release_import_memory env h i3 (pre c5) = Some (r4, i4, ps4)" by (metis prod_cases3)
          let ?c6 = "set_obj h (Import i4) (c5\<lparr>pre := ps4\<rparr>)"
          have w6: "own_work h c5 ?c6" using release_region [OF rl] own_work_set [OF _ i3, of "c5\<lparr>pre := ps4\<rparr>" "Import i4"]
            by (simp add: same_store_def)
          obtain c7 where "wait_until_dev_released env h (uninit_obmm_region h ?c6) = Some c7" "c' = kfree_region h c7"
            using call ok r1 r2 False i3 rl by (auto simp: eqs pr rg)
          then show ?thesis using via0 pub(2) [OF False w6] by simp
        qed
      qed
    qed
  qed
qed

lemma unimport_steps:
  assumes call: "obmm_unimport env cmd c = Some (ret, c')" and inv: "region_inv s" "rst s = c"
  shows "steps env s (s\<lparr>rst := c'\<rparr>)"
proof -
  obtain r c1 where d: "search_deactivate_obmm_region (uint (um_mem_id cmd)) (rst s) = (r, c1)" by fastforce
  have refl: "steps env s (s\<lparr>rst := c\<rparr>)" using inv(2) [symmetric] by simp
  show ?thesis
  proof (cases "validate_obmm_mem_id (um_mem_id cmd) \<and> um_flags cmd AND NOT OBMM_UNIMPORT_FLAG_MASK = 0 \<and> (\<exists>h. r = Inr h)")
    case False
    then have "c' = c" using call d [unfolded inv(2)] inv(2)
      by (auto simp: obmm_unimport_def dest: deactivate_fails split: if_splits sum.splits)
    then show ?thesis using refl by simp
  next
    case True
    then obtain h where h: "r = Inr h" by blast
    note eqs = obmm_unimport_def d [unfolded inv(2)] h Let_def free_ireg_def
    note tb = taken_back [OF d [unfolded h]] and td = taken_down [OF inv(1) d [unfolded h]]
    consider (none) "objs c1 h = None" | (exp) e where "objs c1 h = Some (Export e)" | (imp) i where "objs c1 h = Some (Import i)"
      by (cases "objs c1 h"; cases "the (objs c1 h)") auto
    then show ?thesis
    proof cases
      case none
      then show ?thesis using call True by (simp add: eqs)
    next
      case exp
      then have "c' = activate_obmm_region h c1" using call True by (auto simp: eqs)
      then show ?thesis using tb [OF own_work_refl] by simp
    next
      case imp
      obtain p where "release_import_memory env h i (pre c1) = Some p"
        using call True imp by (cases "release_import_memory env h i (pre c1)") (simp_all add: eqs)
      then obtain r1 i1 ps where rl: "release_import_memory env h i (pre c1) = Some (r1, i1, ps)" by (metis prod_cases3)
      let ?c2 = "set_obj h (Import i1) (c1\<lparr>pre := ps\<rparr>)"
      have w: "own_work h c1 ?c2" using release_region [OF rl] own_work_set [OF _ imp, of "c1\<lparr>pre := ps\<rparr>" "Import i1"]
        by (simp add: same_store_def)
      show ?thesis
      proof (cases "r1 = 0")
        case False
        then have "c' = activate_obmm_region h ?c2" using call True imp rl by (auto simp: eqs)
        then show ?thesis using tb [OF w] by simp
      next
        case ok: True
        then obtain c3 where "wait_until_dev_released env h (uninit_obmm_region h (deregister_obmm_region env h ?c2)) = Some c3"
          "c' = kfree_region h c3" using call True imp rl by (auto simp: eqs)
        then show ?thesis using td [OF w] by simp
      qed
    qed
  qed
qed

lemma outside_ekmem:
  "rst s = ecore st \<Longrightarrow> reg_step env s (s\<lparr>rst := ecore (set_ekmem k st)\<rparr>)"
  by (rule reg_step.outside) (simp add: outside_work_def)

lemma export_new_steps_from:
  assumes "export_new_region env e (set_ekmem k st) = Some (ret, out, st')" "region_inv s" "rst s = ecore st" "device_released (e_region e) = 1"
  shows "steps (base_e env) s (s\<lparr>rst := ecore st'\<rparr>)"
proof -
  note o = outside_ekmem [OF assms(3), of "base_e env" k]
  show ?thesis
    using converse_rtranclp_into_rtranclp [of "reg_step (base_e env)", OF o export_new_steps [OF assms(1) reg_step_inv [OF o assms(2)] _ assms(4)]]
    by simp
qed

lemma alloc_region_device:
  "alloc_region_from_cmd env seg cmd k = (Inr e, k') \<Longrightarrow> device_released (e_region e) = 1"
  by (auto simp: alloc_region_from_cmd_def set_obmm_region_priv_def Let_def dest!: set_vendor_keeps
      split: if_splits sum.splits prod.splits option.splits)

lemma alloc_pid_region_device:
  "alloc_export_region_from_obmm_cmd_export_pid env cmd k = (Inr e, k') \<Longrightarrow> device_released (e_region e) = 1"
  by (auto simp: alloc_export_region_from_obmm_cmd_export_pid_def set_obmm_region_priv_def Let_def dest!: set_vendor_keeps
      split: if_splits sum.splits prod.splits option.splits)

lemma serve_steps:
  assumes "serve env q st = Some (ret, st')" "region_inv s" "rst s = ecore st"
  shows "steps (base_e env) s (s\<lparr>rst := ecore st'\<rparr>)"
proof (cases q)
  case (Req_Export cmd)
  obtain r k where al: "alloc_region_from_cmd (kenv_of env) (memseg_size (pool (ecore st))) cmd (ekmem st) = (r, k)" by fastforce
  show ?thesis
  proof (cases r)
    case (Inl err)
    then have "ecore st' = ecore (set_ekmem k st)" using assms(1) Req_Export al by (simp add: obmm_export_from_pool_def)
    then show ?thesis using outside_ekmem [OF assms(3), of "base_e env" k] by auto
  next
    case (Inr e)
    then show ?thesis using assms Req_Export al export_new_steps_from [OF _ assms(2,3) alloc_region_device [OF al [unfolded Inr]], where k = k]
      by (auto simp: obmm_export_from_pool_def)
  qed
next
  case (Req_Export_Pid cmd)
  obtain r k where al: "alloc_export_region_from_obmm_cmd_export_pid (kenv_of env) cmd (ekmem st) = (r, k)" by fastforce
  show ?thesis
  proof (cases "obmm_cmd_export_pid_allowed (ecfg env) cmd = 0")
    case False
    then have "rst s = ecore st'" using assms(1,3) Req_Export_Pid by (simp add: obmm_export_pid_def)
    then have "s\<lparr>rst := ecore st'\<rparr> = s" by (cases s) simp
    then show ?thesis by simp
  next
    case True
    show ?thesis
    proof (cases r)
      case (Inl err)
      then have "ecore st' = ecore (set_ekmem k st)" using assms(1) Req_Export_Pid al True by (simp add: obmm_export_pid_def)
      then show ?thesis using outside_ekmem [OF assms(3), of "base_e env" k] by auto
    next
      case (Inr e)
      then show ?thesis using assms True Req_Export_Pid al export_new_steps_from [OF _ assms(2,3) alloc_pid_region_device [OF al [unfolded Inr]], where k = k]
        by (auto simp: obmm_export_pid_def)
    qed
  qed
next
  case (Req_Unexport cmd)
  then show ?thesis using assms by (auto dest: unexport_steps)
next
  case (Req_Import cmd)
  then show ?thesis using assms by (auto dest: import_steps)
next
  case (Req_Unimport cmd)
  then show ?thesis using assms by (auto dest: unimport_steps)
qed

section \<open>Queries by number and by address\<close>

lemma offset_detail:
  assumes "obmm_query_by_offset r off ext = (0, ext1)" "addrs_ok r"
  shows "ext_pa ext1 \<in> region_addrs r"
    "\<exists>ext2. pa_detail r (ext_pa ext1) ext = (0, ext2) \<and> ext_offset ext2 = off \<and> ext_regionid ext2 = word_of_int (regionid (region_of r))"
proof -
  have *: "ext_pa ext1 \<in> region_addrs r \<and> (\<exists>ext2. pa_detail r (ext_pa ext1) ext = (0, ext2) \<and> ext_offset ext2 = off
      \<and> ext_regionid ext2 = word_of_int (regionid (region_of r)))"
  proof (cases r)
    case (Import i)
    have "off < i_size i" "ext_pa ext1 = i_pa i + off" using assms(1) Import by (auto simp: get_offset_detail_import_def split: if_splits)
    moreover from this have "i_pa i \<le> i_pa i + off" "i_pa i + off < i_pa i + i_size i" using assms(2) Import
      by (simp_all add: word_le_nat_alt word_less_nat_alt unat_word_ariths)
    ultimately show ?thesis using Import by (auto simp: get_pa_detail_import_def)
  next
    case (Export e)
    have off: "off < mem_size (e_region e)" using assms(1) Export by (auto simp: get_offset_detail_export_region_def split: if_splits)
    have ok: "sgs_ok e" using assms(2) Export by simp
    from conjunct1 [OF pa_offset_inverse [OF ok, of ext]] off obtain ext2 where
      x: "get_offset_detail_export_region e off ext = (0, ext1)" "ext_pa ext1 = region_bytes (sgt e) ! unat off"
        "get_pa_detail_export_region e (ext_pa ext1) ext = (0, ext2)" "ext_offset ext2 = off" "ext2 = ext1"
      using assms(1) Export by fastforce
    have "unat off < length (region_bytes (sgt e))" using off ok by (simp add: sgs_ok_def word_less_nat_alt)
    then have "ext_pa ext1 \<in> set (region_bytes (sgt e))" using x(2) by simp
    moreover have "ext_regionid ext2 = word_of_int (regionid (e_region e))"
      using x(1,5) by (auto simp: get_offset_detail_export_region_def Let_def split: if_splits)
    ultimately show ?thesis using Export x(3,4) by auto
  qed
  then show "ext_pa ext1 \<in> region_addrs r" "\<exists>ext2. pa_detail r (ext_pa ext1) ext = (0, ext2) \<and> ext_offset ext2 = off
    \<and> ext_regionid ext2 = word_of_int (regionid (region_of r))" by blast+
qed

lemma pa_detail_outside:
  assumes "pa \<notin> region_addrs r" "addrs_ok r"
  shows "pa_detail r pa ext = (- EFAULT, ext)"
proof (cases r)
  case (Import i)
  then show ?thesis using assms by (auto simp: get_pa_detail_import_def not_le not_less)
next
  case (Export e)
  then show ?thesis using assms conjunct2 [OF pa_offset_inverse [of e ext]] by auto
qed

text \<open>A reference that is taken changes the counter only, and is given back.\<close>

lemma walk_other_region: "walk_export_memory (e\<lparr>e_region := x\<rparr>) off len fn a = walk_export_memory e off len fn a"
  by (simp add: walk_export_memory_def)

lemma detail_counted:
  "pa_detail (map_region (\<lambda>x. x\<lparr>refcnt := refcnt x + 1\<rparr>) r) pa ext = pa_detail r pa ext"
  "obmm_query_by_offset (map_region (\<lambda>x. x\<lparr>refcnt := refcnt x + 1\<rparr>) r) off ext = obmm_query_by_offset r off ext"
  by (cases r, simp_all add: get_pa_detail_import_def get_pa_detail_export_region_def walk_other_region Let_def)
    (cases r, simp_all add: get_offset_detail_import_def get_offset_detail_export_region_def walk_other_region Let_def)

lemma get_and_put:
  assumes "objs st h = Some r" "refcnt (region_of r) \<noteq> 0"
  shows "\<exists>st1. try_get_obmm_region (Some h) st = (Some h, st1) \<and> objs st1 h = Some (map_region (\<lambda>x. x\<lparr>refcnt := refcnt x + 1\<rparr>) r)
    \<and> put_obmm_region (Some h) st1 = st"
proof -
  have "map_region (\<lambda>x. x\<lparr>refcnt := refcnt x - 1\<rparr>) (map_region (\<lambda>x. x\<lparr>refcnt := refcnt x + 1\<rparr>) r) = r" by (cases r) simp_all
  then show ?thesis using assms
    by (auto simp: try_get_obmm_region_def put_obmm_region_def upd_reg_def reg_at_def fun_upd_idem)
qed

lemma query_regions_finds:
  assumes "\<forall>x \<in> set hs. \<exists>r. objs st x = Some r \<and> addrs_ok r" "h \<in> set hs" "objs st h = Some r" "refcnt (region_of r) \<noteq> 0"
    "pa_detail r pa ext = (0, ext2)" "\<forall>x \<in> set hs. x \<noteq> h \<longrightarrow> pa \<notin> region_addrs (the (objs st x))"
  shows "query_regions hs pa ret ext st = Some (0, ext2, st)"
  using assms
proof (induction hs arbitrary: ret)
  case (Cons x hs)
  obtain rx where rx: "objs st x = Some rx" "addrs_ok rx" using Cons.prems(1) by auto
  show ?case
  proof (cases "x = h")
    case True
    with Cons.prems(3) rx have "rx = r" by simp
    from get_and_put [OF rx(1)] Cons.prems(4) this obtain st1 where
      g: "try_get_obmm_region (Some x) st = (Some x, st1)" "objs st1 x = Some (map_region (\<lambda>x. x\<lparr>refcnt := refcnt x + 1\<rparr>) r)"
        "put_obmm_region (Some x) st1 = st" by blast
    then show ?thesis using Cons.prems(5) by (simp add: detail_counted)
  next
    case False
    then have ih: "query_regions hs pa ret' ext st = Some (0, ext2, st)" for ret' using Cons by simp
    have "pa \<notin> region_addrs rx" using Cons.prems(6) False rx by simp
    note out = pa_detail_outside [OF this rx(2), of ext]
    show ?thesis
    proof (cases "refcnt (region_of rx) = 0")
      case True
      then show ?thesis using ih rx by (simp add: try_get_obmm_region_def reg_at_def)
    next
      case False
      from get_and_put [OF rx(1) this] obtain st1 where
        g: "try_get_obmm_region (Some x) st = (Some x, st1)" "objs st1 x = Some (map_region (\<lambda>x. x\<lparr>refcnt := refcnt x + 1\<rparr>) rx)"
          "put_obmm_region (Some x) st1 = st" by blast
      then show ?thesis using ih out by (simp add: detail_counted)
    qed
  qed
qed simp


lemma demo_two_regions_inv: "region_inv demo_two_regions"
  by (auto simp: region_inv_def lists_inv_def count_inv_def ids_inv_def live_def reg_at_def demo_two_regions_def demo_export_st_def
      reg_start_def demo_import_region_def split: if_splits)

lemma demo_two_regions_disjoint: "addrs_disjoint (rst demo_two_regions)"
proof -
  have b: "region_bytes (sgt demo_e_reg) = [0x1000, 0x1001, 0x1002, 0x1003, 0x800, 0x801]"
    by (simp add: demo_e_reg_def Obmm_Export_Walk.demo_region_def sg_bytes_def upt_rec)
  have "sgs_ok (demo_e_reg\<lparr>e_region := (e_region demo_e_reg)\<lparr>regionid := 1, refcnt := 1\<rparr>\<rparr>)"
    by (simp add: sgs_ok_def demo_e_reg_def Obmm_Export_Walk.demo_region_def sg_bytes_def upt_rec)
  then show ?thesis by (auto simp: addrs_disjoint_def demo_two_regions_def demo_import_region_def b)
qed

lemma demo_query_result:
  "map_option (\<lambda>(ret, cmd, _). (ret, cmd)) (obmm_addr_query demo_query (rst demo_two_regions)) = Some (0, demo_query\<lparr>aq_pa := 0x801\<rparr>)"
  by code_simp


lemma steps_reachable: "steps env s s' \<Longrightarrow> reg_reachable env s \<Longrightarrow> reg_reachable env s'"
  by (induction rule: rtranclp_induct) (auto intro: reg_reachable.step)

lemma query_regions_same:
  assumes "query_regions hs pa ret ext st = Some (ret', ext', st')" "\<forall>x \<in> set hs. objs st x \<noteq> None"
  shows "st' = st"
  using assms
proof (induction hs arbitrary: ret ext)
  case (Cons x hs)
  obtain r where r: "objs st x = Some r" using Cons.prems(2) by auto
  show ?case
  proof (cases "refcnt (region_of r) = 0")
    case True
    then show ?thesis using Cons r by (auto simp: try_get_obmm_region_def reg_at_def)
  next
    case False
    from get_and_put [OF r this] obtain st1 where
      "try_get_obmm_region (Some x) st = (Some x, st1)" "objs st1 x \<noteq> None" "put_obmm_region (Some x) st1 = st" by blast
    then show ?thesis using Cons by (auto simp: Let_def split: prod.splits if_splits)
  qed
qed simp

lemma addr_query_same:
  assumes "obmm_addr_query cmd (rst s) = Some (ret, cmd', st')" "region_inv s"
  shows "st' = rst s"
proof -
  have live: "\<forall>x \<in> set (regions (rst s)). objs (rst s) x \<noteq> None"
    using assms(2) by (auto simp: region_inv_def lists_inv_def live_def)
  have g: "put_obmm_region (Some h) st1 = rst s" if sg: "search_get_obmm_region rid (rst s) = (Some h, st1)" for rid h st1
  proof -
    have se: "search_obmm_region rid (rst s) = Some h" and nz: "refcnt (reg_at (rst s) h) \<noteq> 0"
      using sg by (auto simp: search_get_obmm_region_def try_get_obmm_region_def split: option.splits if_splits)
    obtain r where r: "objs (rst s) h = Some r" using live search_found(1) [OF se] by blast
    from get_and_put [OF r] nz r se sg show ?thesis by (auto simp: search_get_obmm_region_def reg_at_def)
  qed
  have n: "st1 = rst s" if "search_get_obmm_region rid (rst s) = (None, st1)" for rid st1
    using that by (auto simp: search_get_obmm_region_def try_get_obmm_region_def split: option.splits if_splits)
  show ?thesis using assms(1) live
    by (auto simp: obmm_addr_query_def obmm_query_by_pa_def Let_def dest: g n query_regions_same split: if_splits option.splits prod.splits)
qed

lemma ioctl_steps:
  assumes io: "obmm_dev_ioctl env en nr arg st = Some (ret, arg', st')" and inv: "region_inv s" "rst s = ecore st"
  shows "steps (base_e env) s (s\<lparr>rst := ecore st'\<rparr>)"
proof -
  have refl: "s\<lparr>rst := ecore st\<rparr> = s" using inv(2) by (cases s) simp
  have pre: "steps (base_e env) s (s\<lparr>rst := ecore (st\<lparr>ecore := (ecore st)\<lparr>pre := p\<rparr>\<rparr>)\<rparr>)" for p
    by (rule r_into_rtranclp, rule reg_step.outside) (simp add: outside_work_def inv(2))
  have sv: "steps (base_e env) s (s\<lparr>rst := ecore st1\<rparr>)" if "serve env q st = Some (r, st1)" for q r st1
    by (rule serve_steps [OF that inv])
  show ?thesis
  proof (cases "\<not> en \<or> (case nr of OBMM_CMD_OTHER _ \<Rightarrow> False | _ \<Rightarrow> \<not> readable arg)")
    case True
    then have "st' = st" using io by (auto simp: obmm_dev_ioctl_def Let_def split: if_splits)
    then show ?thesis using refl by simp
  next
    case False
    note eq = obmm_dev_ioctl_def copy_back_def Let_def
    show ?thesis
    proof (cases nr)
      case OBMM_CMD_EXPORT
      then show ?thesis using io False sv [of "Req_Export (u_create arg)"] by (auto simp: eq split: prod.splits if_splits)
    next
      case OBMM_CMD_IMPORT
      then show ?thesis using io False sv [of "Req_Import (u_import arg)"] by (auto simp: eq split: prod.splits if_splits)
    next
      case OBMM_CMD_UNEXPORT
      then show ?thesis using io False sv [of "Req_Unexport (u_unexport arg)"] by (auto simp: eq)
    next
      case OBMM_CMD_UNIMPORT
      then show ?thesis using io False sv [of "Req_Unimport (u_unimport arg)"] by (auto simp: eq)
    next
      case OBMM_CMD_ADDR_QUERY
      then obtain r c b where "obmm_addr_query (u_query arg) (rst s) = Some (r, c, b)" "ecore st' = b"
        using io False inv(2) by (auto simp: eq split: prod.splits if_splits)
      then have "ecore st' = ecore st" using addr_query_same [OF _ inv(1)] inv(2) by metis
      then show ?thesis using refl by simp
    next
      case OBMM_CMD_EXPORT_PID
      then show ?thesis using io False sv [of "Req_Export_Pid (u_export_pid arg)"] by (auto simp: eq split: prod.splits if_splits)
    next
      case OBMM_CMD_DECLARE_PREIMPORT
      then show ?thesis using io False pre by (auto simp: eq split: prod.splits if_splits)
    next
      case OBMM_CMD_UNDECLARE_PREIMPORT
      then show ?thesis using io False pre by (auto simp: eq split: prod.splits if_splits)
    next
      case (OBMM_CMD_OTHER n)
      then have "st' = st" using io False by (simp add: eq)
      then show ?thesis using refl by simp
    qed
  qed
qed

text \<open>C2: every request on the control device, on success and on each of its error paths, is a sequence of the atomic
  steps of the region life cycle: starting from any state that interleaved threads can reach, with
  references held by others and other requests under way, it ends in a state that such steps reach; so
  all that holds of interleaved threads holds between requests as well.\<close>

theorem ioctl_is_region_steps:
  assumes "obmm_dev_ioctl env enabled nr arg st = Some (ret, arg', st')" "reg_reachable (base_e env) s" "rst s = ecore st"
  shows "(reg_step (base_e env))\<^sup>*\<^sup>* s (s\<lparr>rst := ecore st'\<rparr>) \<and> reg_reachable (base_e env) (s\<lparr>rst := ecore st'\<rparr>)"
  using ioctl_steps [OF assms(1) reg_reachable_inv [OF assms(2)] assms(3)] steps_reachable assms(2) by blast

theorem ioctl_is_region_steps_witness:
  "reg_reachable (base_e demo_requests_env) ((reg_start demo_mempool (sys_st (pre_start ())))\<lparr>rst :=
     ecore (snd (snd (the (obmm_dev_ioctl demo_requests_env True OBMM_CMD_EXPORT demo_user_arg demo_export_st))))\<rparr>)"
proof -
  obtain r c s where x: "obmm_export_from_pool demo_requests_env demo_cmd_export demo_export_st = Some (r, c, s)"
    using export_from_pool_returns [OF demo_agrees demo_requests_env_ok(2)] by blast
  then have i: "obmm_dev_ioctl demo_requests_env True OBMM_CMD_EXPORT demo_user_arg demo_export_st
      = Some (r, if r = 0 then demo_user_arg\<lparr>u_create := c\<rparr> else demo_user_arg, s)"
    by (simp add: obmm_dev_ioctl_def demo_user_arg_def copy_back_def)
  from ioctl_is_region_steps [OF i reg_reachable.start] i show ?thesis by (simp add: demo_export_st_def)
qed

section \<open>Reclaim leaves exported memory alone\<close>

lemma contract_keeps:
  assumes "conti_mem_allocator_contract ops sz a w = (r, a', w')"
  shows "initialized a' = initialized a" "used_mem_size a' = used_mem_size a" "granu a = 0 \<Longrightarrow> a' = a"
  using assms by (auto simp: conti_mem_allocator_contract_def Let_def split: if_splits prod.splits option.splits)

lemma contract_node_inv:
  assumes "node_inv a h" "conti_mem_allocator_contract ops sz a w = (r, a', w')"
  shows "node_inv a' h"
  using assms contract_keeps [OF assms(2)] contract_inv [OF _ assms(2), of h] by (auto simp: node_inv_def)

lemma ubmempool_contract_keeps:
  assumes "mempool_inv hs p desc" "ubmempool_contract c env nd huge p = (sz, p')"
  shows "mempool_inv hs p' desc \<and> map used_mem_size (allocators p') = map used_mem_size (allocators p)"
proof (cases "p' = p")
  case False
  let ?i = "nat nd"
  obtain w where w: "pool_delay_expand env nd (initialized (allocators p ! ?i)) (mpw p) = w" by simp
  obtain r a w1 where ct: "conti_mem_allocator_contract (ops_at c env p ?i) mempool_contract_size (allocators p ! ?i) w = (r, a, w1)"
    by (metis prod_cases3)
  have p': "p' = p\<lparr>allocators := (allocators p)[?i := a], mpw := w1\<rparr>"
    using assms(2) False w ct by (auto simp: ubmempool_contract_def Let_def split: if_splits)
  have "node_inv (allocators p' ! k) (hs ! k + length (desc ! k))" if "k < OBMM_MAX_LOCAL_NUMA_NODES" for k
    using assms(1) that contract_node_inv [OF _ ct, of "hs ! k + length (desc ! k)"]
    by (cases "k = ?i") (auto simp: p' mempool_inv_def)
  moreover have "map used_mem_size (allocators p') = map used_mem_size (allocators p)"
  proof (rule nth_equalityI)
    fix i assume "i < length (map used_mem_size (allocators p'))"
    then show "map used_mem_size (allocators p') ! i = map used_mem_size (allocators p) ! i"
      using contract_keeps(2) [OF ct] by (cases "i = ?i") (simp_all add: p')
  qed (simp add: p')
  ultimately show ?thesis using assms(1) by (simp add: mempool_inv_def p')
qed (use assms in simp)

lemma contract_nodes_keeps:
  assumes "mempool_inv hs p desc" "contract_nodes c env huge nds freed p = (freed', p')"
  shows "mempool_inv hs p' desc \<and> map used_mem_size (allocators p') = map used_mem_size (allocators p)"
  using assms
proof (induction nds arbitrary: freed p)
  case (Cons nd nds)
  obtain sz p1 where c1: "ubmempool_contract c env nd huge p = (sz, p1)" by fastforce
  from ubmempool_contract_keeps [OF Cons.prems(1) c1] Cons.IH [of p1] Cons.prems(2) c1 show ?case by auto
qed simp

text \<open>C22: reclaim under memory pressure takes only memory that is not in use: whatever nodes it names, the segments that
  exported regions hold stay accounted for, the amount in use does not change on any node, and a
  reason that the handler does not know changes nothing.\<close>

theorem lowmem_keeps_exports:
  assumes "pool_agrees st" "obmm_lowmem_notify_handler c env parm (pool st) = (ret, parm', p')"
  shows "pool_agrees (st\<lparr>pool := p'\<rparr>) \<and> map used_mem_size (allocators p') = map used_mem_size (allocators (pool st))
    \<and> (ret = NOTIFY_DONE \<longrightarrow> p' = pool st \<and> parm' = parm)"
proof -
  have inv: "mempool_inv (held st) (pool st) no_segs" using assms(1) by (simp add: pool_agrees_def)
  have "mempool_inv (held st) p' no_segs \<and> map used_mem_size (allocators p') = map used_mem_size (allocators (pool st))"
    using assms(2) inv contract_nodes_keeps [OF inv] by (auto simp: obmm_lowmem_notify_handler_def split: option.splits if_splits prod.splits)
  moreover have "held (st\<lparr>pool := p'\<rparr>) = held st" by (simp add: held_def)
  moreover have "ret = NOTIFY_DONE \<longrightarrow> p' = pool st \<and> parm' = parm"
    using assms(2) by (auto simp: obmm_lowmem_notify_handler_def split: option.splits if_splits prod.splits)
  ultimately show ?thesis using assms(1) by (simp add: pool_agrees_def)
qed

theorem lowmem_keeps_exports_witness:
  "pool_agrees ((ecore demo_export_st)\<lparr>pool := snd (snd (obmm_lowmem_notify_handler \<lparr>PAGE_SHIFT = 12, PMD_SHIFT = 21, PUD_SHIFT = 30\<rparr> demo_kenv
     (Some \<lparr>rn_reason = RR_KSWAPD, rn_nr_nid = 1, rn_nid = [0], rn_nr_freed = 0\<rparr>) (pool (ecore demo_export_st))))\<rparr>)"
  using lowmem_keeps_exports [OF demo_agrees] by (metis prod.collapse)

section \<open>Loading is all or nothing\<close>

lemma same_flags_trans: "same_flags p p' \<Longrightarrow> same_flags p' p'' \<Longrightarrow> same_flags p p''"
  by (simp add: same_flags_def)

lemma conti_init_result:
  assumes "conti_mem_allocator_init c e (Some a) nd g opsp parent = (ret, al)"
  shows "if ret = 0 then initialized (the al) else al = Some a \<or> quiet (the al)"
  using assms
  by (auto simp: conti_mem_allocator_init_def clear_thread_init_def pool_thread_init_def quiet_def zeroed_allocator_def Let_def
      split: option.splits if_splits prod.splits)

lemma init_one_keeps:
  assumes "mem_allocator_init_one c env cenv nd aid p = (ret, p')" "pools_quiet S p"
  shows "pools_quiet (if ret = 0 then insert nd S else S) p'" "same_flags p p'"
    "ret = 0 \<Longrightarrow> nd < length (allocators p) \<Longrightarrow> initialized (allocators p' ! nd)"
    "i \<noteq> nd \<Longrightarrow> allocators p' ! i = allocators p ! i"
proof -
  obtain r al where ci: "conti_mem_allocator_init c (cenv nd) (Some (allocators p ! nd)) (int nd) (memseg_size p) (allocator_ops c env aid) (mempool_kobj p) = (r, al)"
    by fastforce
  note res = conti_init_result [OF ci]
  have p': "ret = r" "allocators p' = (allocators p)[nd := the al]" "mempool_kobj p' = mempool_kobj p" "ghes_registered p' = ghes_registered p"
    using assms(1) ci by (auto simp: mem_allocator_init_one_def Let_def)
  show "pools_quiet (if ret = 0 then insert nd S else S) p'" unfolding pools_quiet_def
  proof (intro allI impI)
    fix i assume "i < length (allocators p')"
    then show "quiet (allocators p' ! i) \<or> initialized (allocators p' ! i) \<and> i \<in> (if ret = 0 then insert nd S else S)"
      using res assms(2) by (cases "i = nd"; cases "ret = 0") (auto simp: p' pools_quiet_def)
  qed
  show "same_flags p p'" by (simp add: same_flags_def p')
  show "initialized (allocators p' ! nd)" if "ret = 0" "nd < length (allocators p)" using res that by (simp add: p')
  show "allocators p' ! i = allocators p ! i" if "i \<noteq> nd" using that by (simp add: p')
qed

lemma init_nodes_keeps:
  assumes "init_nodes c env cenv aid nds before p = (ret, done_nodes, p')" "pools_quiet (set before) p" "\<forall>nd \<in> set nds. nd < length (allocators p)"
    "\<forall>nd \<in> set before. initialized (allocators p ! nd)" "set nds \<subseteq> S" "set before \<subseteq> S"
  shows "pools_quiet (set done_nodes) p' \<and> same_flags p p' \<and> set done_nodes \<subseteq> S
    \<and> (ret = 0 \<longrightarrow> (\<forall>nd \<in> set before \<union> set nds. initialized (allocators p' ! nd)))"
  using assms
proof (induction nds arbitrary: before p)
  case (Cons nd nds)
  obtain r p1 where io: "mem_allocator_init_one c env cenv nd aid p = (r, p1)" by fastforce
  note k = init_one_keeps [OF io Cons.prems(2)]
  show ?case
  proof (cases "r = 0")
    case False
    then show ?thesis using Cons.prems(1,6) io k by auto
  next
    case True
    have b: "init_nodes c env cenv aid nds (before @ [nd]) p1 = (ret, done_nodes, p')" using Cons.prems(1) io True by simp
    have l: "\<forall>x \<in> set nds. x < length (allocators p1)" using Cons.prems(3) k(2) by (simp add: same_flags_def)
    have i: "\<forall>x \<in> set (before @ [nd]). initialized (allocators p1 ! x)"
    proof
      fix x assume "x \<in> set (before @ [nd])"
      then show "initialized (allocators p1 ! x)" using k(3) [OF True] k(4) [of x] Cons.prems(3,4) by (cases "x = nd") auto
    qed
    have q: "pools_quiet (set (before @ [nd])) p1" using k(1) True by simp
    from Cons.IH [OF b q l i] Cons.prems(5,6) show ?thesis using same_flags_trans [OF k(2), of p'] by auto
  qed
qed (auto simp: same_flags_def)

lemma uninit_one_quiet:
  assumes "pools_quiet S p"
  shows "pools_quiet (S - {nd}) (mem_allocator_uninit_one c env nd p)" "same_flags p (mem_allocator_uninit_one c env nd p)"
proof -
  obtain opsp where o: "(case alloc_ops p ! nd of None \<Rightarrow> None | Some aid \<Rightarrow> allocator_ops c env aid) = opsp" by simp
  obtain a w where d: "conti_mem_allocator_deinit opsp (allocators p ! nd) (mpw p) = (a, w)" by fastforce
  have "quiet a" using d by (auto simp: conti_mem_allocator_deinit_def quiet_def Let_def split: option.splits if_splits)
  then have q: "quiet ((allocators p)[nd := a] ! i) \<or> initialized ((allocators p)[nd := a] ! i) \<and> i \<in> S - {nd}"
    if "i < length (allocators p)" for i using assms that by (cases "i = nd") (auto simp: pools_quiet_def)
  have u: "allocators (mem_allocator_uninit_one c env nd p) = (allocators p)[nd := a]"
    "mempool_kobj (mem_allocator_uninit_one c env nd p) = mempool_kobj p"
    "ghes_registered (mem_allocator_uninit_one c env nd p) = ghes_registered p"
    by (simp_all add: mem_allocator_uninit_one_def o d Let_def)
  show "pools_quiet (S - {nd}) (mem_allocator_uninit_one c env nd p)" unfolding pools_quiet_def u using q by simp
  show "same_flags p (mem_allocator_uninit_one c env nd p)" by (simp add: same_flags_def u)
qed

lemma uninit_nodes_quiet:
  "pools_quiet S p \<Longrightarrow> pools_quiet (S - set nds) (fold (mem_allocator_uninit_one c env) nds p)
    \<and> same_flags p (fold (mem_allocator_uninit_one c env) nds p)"
proof (induction nds arbitrary: S p)
  case (Cons nd nds)
  note u = uninit_one_quiet [OF Cons.prems, where nd = nd and c = c and env = env]
  show ?case using Cons.IH [OF u(1)] same_flags_trans [OF u(2)] by (simp flip: Diff_insert2)
qed (simp add: same_flags_def)

lemma exit_nodes_quiet:
  assumes "pools_quiet S p"
  shows "pools_quiet (S - set nds) (fold (\<lambda>nd st. if initialized (allocators st ! nd) then mem_allocator_uninit_one c env nd st else st) nds p)
    \<and> same_flags p (fold (\<lambda>nd st. if initialized (allocators st ! nd) then mem_allocator_uninit_one c env nd st else st) nds p)"
  using assms
proof (induction nds arbitrary: S p)
  case (Cons nd nds)
  show ?case
  proof (cases "initialized (allocators p ! nd)")
    case True
    note u = uninit_one_quiet [OF Cons.prems, where nd = nd and c = c and env = env]
    show ?thesis using Cons.IH [OF u(1)] same_flags_trans [OF u(2)] True by (simp flip: Diff_insert2)
  next
    case False
    then have "pools_quiet (S - {nd}) p" using Cons.prems by (auto simp: pools_quiet_def)
    from Cons.IH [OF this] show ?thesis using False by (simp flip: Diff_insert2)
  qed
qed (simp add: same_flags_def)

lemma pools_quiet_all: "pools_quiet {} p \<longleftrightarrow> (\<forall>a \<in> set (allocators p). quiet a)"
  by (auto simp: pools_quiet_def all_set_conv_all_nth)

lemma pool_exit_quiet:
  assumes "pools_quiet (set (online_local_nodes (numa env))) p"
  shows "pools_quiet {} (ubmempool_allocator_exit c env p) \<and> \<not> mempool_kobj (ubmempool_allocator_exit c env p)
    \<and> \<not> ghes_registered (ubmempool_allocator_exit c env p)"
proof -
  have "pools_quiet (set (online_local_nodes (numa env))) (p\<lparr>ghes_registered := False\<rparr>)" using assms by (simp add: pools_quiet_def)
  from exit_nodes_quiet [OF this, where nds = "online_local_nodes (numa env)" and c = c and env = env]
  show ?thesis by (simp add: ubmempool_allocator_exit_def Let_def pools_quiet_def same_flags_def)
qed

lemma pools_quiet_cong: "allocators q = allocators p \<Longrightarrow> pools_quiet S q = pools_quiet S p"
  by (simp add: pools_quiet_def)

lemma init_nodes_result:
  assumes "init_nodes c env cenv aid nds [] q = (ret, ds, q')" "pools_quiet {} q" "\<forall>nd \<in> set nds. nd < length (allocators q)"
  shows "ret = 0 \<Longrightarrow> pools_quiet (set nds) q' \<and> (\<forall>nd \<in> set nds. initialized (allocators q' ! nd))" "same_flags q q'"
    "pools_quiet {} (fold (mem_allocator_uninit_one c env) ds q')" "same_flags q (fold (mem_allocator_uninit_one c env) ds q')"
proof -
  have k: "pools_quiet (set ds) q' \<and> same_flags q q' \<and> set ds \<subseteq> set nds \<and> (ret = 0 \<longrightarrow> (\<forall>nd \<in> set nds. initialized (allocators q' ! nd)))"
    using init_nodes_keeps [OF assms(1), of "set nds"] assms(2,3) by simp
  have u: "pools_quiet (set ds - set ds) (fold (mem_allocator_uninit_one c env) ds q')" "same_flags q' (fold (mem_allocator_uninit_one c env) ds q')"
    using uninit_nodes_quiet [of "set ds" q' ds c env] k by blast+
  show "pools_quiet (set nds) q' \<and> (\<forall>nd \<in> set nds. initialized (allocators q' ! nd))" if "ret = 0" using k that
    unfolding pools_quiet_def by blast
  show "same_flags q q'" using k by blast
  show "pools_quiet {} (fold (mem_allocator_uninit_one c env) ds q')" using u(1) by simp
  show "same_flags q (fold (mem_allocator_uninit_one c env) ds q')" using same_flags_trans [of q q'] k u(2) by blast
qed

lemma pool_init_result:
  assumes init: "ubmempool_allocator_init c env par cenv kobj_ok p = (ret, p')"
    and p: "pools_quiet {} p" "\<not> mempool_kobj p" "\<not> ghes_registered p"
  shows "if ret = 0
    then pools_quiet (set (online_local_nodes (numa env))) p' \<and> mempool_kobj p' \<and> ghes_registered p'
      \<and> (\<forall>nd \<in> set (online_local_nodes (numa env)). initialized (allocators p' ! nd))
    else pools_quiet {} p' \<and> \<not> mempool_kobj p' \<and> \<not> ghes_registered p'"
proof (cases "\<exists>nd \<in> set (online_local_nodes (numa env)). OBMM_MAX_LOCAL_NUMA_NODES \<le> nd")
  case True
  then have "ret = - EOPNOTSUPP" "p' = p" using init by (simp_all add: ubmempool_allocator_init_def Let_def)
  then show ?thesis using p by simp
next
  case False
  let ?nds = "online_local_nodes (numa env)" and ?n = OBMM_MAX_LOCAL_NUMA_NODES
  obtain p0 where p0: "p\<lparr>allocators := replicate ?n zeroed_allocator, alloc_ops := replicate ?n None,
    mpw := \<lparr>pool_size = replicate ?n 0, can_expand = replicate ?n False, refill_timer = replicate ?n False, kmem = kmem (mpw p)\<rparr>\<rparr> = p0"
    by simp
  have q0: "pools_quiet {} p0" "length (allocators p0) = ?n" "\<not> mempool_kobj p0" "\<not> ghes_registered p0"
    using p unfolding p0 [symmetric] by (simp_all add: pools_quiet_def quiet_def zeroed_allocator_def)
  obtain r1 w1 where mp: "(case mempool_size par of None \<Rightarrow> (0, mpw p0) | Some q \<Rightarrow> mempool_size_parse par env q (length ?nds) (mpw p0)) = (r1, w1)"
    by (rule prod.exhaust)
  obtain r2 sz where gr: "init_mem_allocator_granu c par (select_mem_allocator par) = (r2, sz)" by (rule prod.exhaust)
  obtain r3 ds q' where ns: "init_nodes c env cenv (select_mem_allocator par) ?nds [] (p0\<lparr>mpw := w1, memseg_size := sz, mempool_kobj := True\<rparr>) = (r3, ds, q')"
    by (metis prod_cases3)
  have res: "(ret, p') = (if r1 \<noteq> 0 then (r1, p0\<lparr>mpw := w1\<rparr>) else if select_mem_allocator par = ALLOCATOR_MAX then (- EINVAL, p0\<lparr>mpw := w1\<rparr>)
     else if r2 \<noteq> 0 then (r2, p0\<lparr>mpw := w1, memseg_size := sz\<rparr>) else if \<not> kobj_ok then (- ENOMEM, p0\<lparr>mpw := w1, memseg_size := sz\<rparr>)
     else if r3 \<noteq> 0 then (r3, (fold (mem_allocator_uninit_one c env) ds q')\<lparr>mempool_kobj := False\<rparr>) else (0, q'\<lparr>ghes_registered := True\<rparr>))"
    using init unfolding ubmempool_allocator_init_def Let_def p0 mp gr prod.case ns if_not_P [OF False] by (rule sym)
  have "pools_quiet {} (p0\<lparr>mpw := w1, memseg_size := sz, mempool_kobj := True\<rparr>)" using q0(1) by (simp add: pools_quiet_def)
  note ir = init_nodes_result [OF ns this]
  have "\<forall>nd \<in> set ?nds. nd < length (allocators (p0\<lparr>mpw := w1, memseg_size := sz, mempool_kobj := True\<rparr>))" using False q0(2) by auto
  from ir [OF this]
  have n: "r3 = 0 \<Longrightarrow> pools_quiet (set ?nds) q' \<and> (\<forall>nd \<in> set ?nds. initialized (allocators q' ! nd))" "mempool_kobj q'" "\<not> ghes_registered q'"
    "pools_quiet {} (fold (mem_allocator_uninit_one c env) ds q')" "\<not> ghes_registered (fold (mem_allocator_uninit_one c env) ds q')"
    using q0(4) by (auto simp: same_flags_def)
  show ?thesis using res q0 n by (auto simp: pools_quiet_def split: if_splits)
qed

text \<open>C18: loading the module is all or nothing: on success all its parts are registered and every local node has a
  running allocator, and on an error at any stage nothing stays behind: no device, no number range, no
  file below /proc, no notifier, no thread and no sysfs entry; unloading takes all of it away as well.\<close>

theorem obmm_init_all_or_nothing:
  assumes "unloaded m" "obmm_init c env le m = (ret, m')"
  shows "if ret = 0 then loaded env m' \<and> unloaded (obmm_exit c env m') else unloaded m'"
proof -
  obtain m1 where m1: "ubmem_feature_probe le m = m1" by simp
  have u1: "unloaded m1" using assms(1) unfolding m1 [symmetric] by (simp add: ubmem_feature_probe_def unloaded_def)
  obtain r p where pi: "ubmempool_allocator_init c env (pool_params le) (pool_init_env le) (pool_kobj_ok le) (mpool m1) = (r, p)" by fastforce
  have p: "if r = 0
    then pools_quiet (set (online_local_nodes (numa env))) p \<and> mempool_kobj p \<and> ghes_registered p
      \<and> (\<forall>nd \<in> set (online_local_nodes (numa env)). initialized (allocators p ! nd))
    else pools_quiet {} p \<and> \<not> mempool_kobj p \<and> \<not> ghes_registered p"
    using pool_init_result [OF pi] u1 by (simp add: unloaded_def pools_quiet_all)
  show ?thesis
  proof (cases "r = 0")
    case False
    then have "ret = r" "m' = set_mpool p m1" using assms(2) pi by (simp_all add: obmm_init_def m1 Let_def)
    then show ?thesis using p False u1 by (simp add: pools_quiet_all unloaded_def set_mpool_def)
  next
    case True
    then have x: "\<forall>a \<in> set (allocators (ubmempool_allocator_exit c env p)). quiet a" "\<not> mempool_kobj (ubmempool_allocator_exit c env p)"
      "\<not> ghes_registered (ubmempool_allocator_exit c env p)" using p pool_exit_quiet [of env p c] by (simp_all add: pools_quiet_all)
    have u: "\<not> obmm_dev_handle m1" "\<not> obmm_devt m1" "\<not> obmm_shm_rootdev m1" "\<not> obmm_proc m1" "\<not> lowmem_nb m1"
      using u1 by (simp_all add: unloaded_def)
    note out = obmm_shm_dev_exit_def addr_check_exit_def module_preimport_exit_def lowmem_notify_exit_def
      out_allocator_exit_def out_misc_deregister_def out_addr_check_exit_def out_module_import_exit_def set_mpool_def
    have "(ret, m') = obmm_init c env le m" using assms(2) by simp
    then show ?thesis
      using True p x u
      by (cases "misc_register le = 0"; cases "alloc_chrdev_region le = 0"; cases "root_device_register le";
          cases "proc_mkdir_ok le"; cases "proc_create_ok le"; cases "register_reclaim_notifier le = 0")
        (simp_all add: obmm_init_def m1 pi obmm_shm_dev_init_def module_preimport_init_def init_preimport_info_seqfile_def
          lowmem_notify_init_def obmm_exit_def out unloaded_def loaded_def module_addr_check_init_def Let_def)
  qed
qed

lemma demo_init_fails: "fst (obmm_init \<lparr>PAGE_SHIFT = 12, PMD_SHIFT = 21, PUD_SHIFT = 30\<rparr> demo_kenv demo_load_env demo_module) = - ENOMEM"
  by code_simp

theorem obmm_init_all_or_nothing_witness:
  "unloaded (snd (obmm_init \<lparr>PAGE_SHIFT = 12, PMD_SHIFT = 21, PUD_SHIFT = 30\<rparr> demo_kenv demo_load_env demo_module))"
proof -
  have u: "unloaded demo_module" by (simp add: unloaded_def demo_module_def reg_start_def demo_mempool_def)
  obtain ret m where i: "obmm_init \<lparr>PAGE_SHIFT = 12, PMD_SHIFT = 21, PUD_SHIFT = 30\<rparr> demo_kenv demo_load_env demo_module = (ret, m)" by fastforce
  from obmm_init_all_or_nothing [OF u i] show ?thesis using demo_init_fails i by simp
qed

end
