(* ===== verification/Spec2Isabelle.thy ===== *)
theory Spec2Isabelle
  imports Obmm_Core
begin

text \<open>
  \<^bold>\<open>Ownership-based memory management (OBMM) of the UB drivers: a verified model.\<close>

  The repository holds the kernel drivers of a memory bus (UB) that lets hosts use each other's memory
  and devices.  This development models the driver that shares memory, \<^verbatim>\<open>src/drivers/ub/obmm\<close>, and proves
  the properties on which hosts, processes and the kernel rely when memory changes hands.

  \<^bold>\<open>The program.\<close>  A host \<^emph>\<open>exports\<close> memory: segments are taken from a pool with one allocator per NUMA
  node, described by a scatter list and made reachable for other hosts.  Another host \<^emph>\<open>imports\<close> it:
  a physical address range is reserved in a register of ranges, directly or out of a \<^emph>\<open>pre-imported\<close>
  range, entered in the tree of I/O memory and put on line as a NUMA node or left to be mapped.  Either
  way the memory is a \<^emph>\<open>region\<close> with a number, a reference counter and a character device.  Processes map
  the device; counters of readers and writers per page decide which cache maintenance a change of
  access rights needs, since the hosts are not cache coherent.

  \<^bold>\<open>The theories\<close>, in the order in which they build on each other (files are under \<^verbatim>\<open>src/drivers/ub/obmm\<close>):

  \<^item> \<open>Obmm_Prelude\<close>: integer types, error numbers, alignment, page geometry, generic facts.
  \<^item> \<open>Conti_Mem_Allocator\<close>, \<open>Conti_System\<close> (\<^verbatim>\<open>conti_mem_allocator.c\<close>): the allocator of one node.  The first
    theory has its state as a record and every operation as a function; the second has the callers,
    the two worker threads and the memory error handler as an inductive step relation, and proves
    accounting, exclusive ownership, cleanliness, isolation, set-up and tear-down over all reachable
    states.
  \<^item> \<open>Obmm_Types\<close> (\<^verbatim>\<open>include/uapi/ub/obmm.h\<close>, \<^verbatim>\<open>obmm_core.h\<close>): constants and the region record.
  \<^item> \<open>Obmm_Ownership\<close> (\<^verbatim>\<open>obmm_ownership.c\<close>): the counters of readers and writers, refined from a
    specification that counts mappings.
  \<^item> \<open>Obmm_Cache\<close> (\<^verbatim>\<open>obmm_cache.c\<close>): cache flushes by physical address with retries, drain of the
    write queue.
  \<^item> \<open>Numa_Nodes\<close> (\<^verbatim>\<open>obmm_core.h\<close>): the iteration over online local nodes.
  \<^item> \<open>Ubmempool_Allocator\<close> (\<^verbatim>\<open>ubmempool_allocator.c\<close>): the pool of all nodes.  The locale \<open>seg_pool\<close> is the
    contract that the pool relies on, what an allocator of one node promises about the segments it
    hands out and takes back; it is interpreted on the allocator's model.
  \<^item> \<open>Obmm_Addr_Check\<close> (\<^verbatim>\<open>obmm_addr_check.c\<close>): the register of physical ranges, which provides the locale
    \<open>range_registry\<close>.
  \<^item> \<open>Obmm_Resource\<close> (\<^verbatim>\<open>obmm_resource.c\<close>): the resource tree and the shelter that survives hot-plug.
  \<^item> \<open>Obmm_Preimport\<close> (\<^verbatim>\<open>obmm_preimport.c\<close>, \<^verbatim>\<open>obmm_preimport_prefilled.c\<close>): pre-imported ranges, with the
    critical sections of concurrent users as steps.
  \<^item> \<open>Obmm_Export_Walk\<close> (\<^verbatim>\<open>obmm_export_region_ops.c\<close>): the walk over the memory of an exported region and
    its uses; visitors that cannot stop a walk are the locale \<open>total_visitor\<close>.
  \<^item> \<open>Obmm_Export_Pool\<close> (\<^verbatim>\<open>obmm_export_from_pool.c\<close>): scatter lists and memory for exports.
  \<^item> \<open>Obmm_Region\<close> (\<^verbatim>\<open>obmm_core.c\<close>): life and references of regions, as a step relation.
  \<^item> \<open>Obmm_Import\<close> (\<^verbatim>\<open>obmm_import.c\<close>): import and its release with all roll back paths.
  \<^item> \<open>Obmm_Shm_Dev\<close> (\<^verbatim>\<open>obmm_shm_dev.c\<close>): the device of a region: mapping, splitting, unmapping and changes of
    access rights with roll back.
  \<^item> \<open>Obmm_Export_User\<close> (\<^verbatim>\<open>obmm_export_from_user.c\<close>, \<^verbatim>\<open>obmm_cache.c\<close>): export of the memory of a process: pinned
    pages, counts of the process, cache attributes in its page tables; all or nothing, and undone
    by the release.
  \<^item> \<open>Obmm_Export\<close> (\<^verbatim>\<open>obmm_export.c\<close> and the requests of \<^verbatim>\<open>obmm_export_from_pool.c\<close> and
    \<^verbatim>\<open>obmm_export_from_user.c\<close>): the requests to export and to release; over any sequence of requests
    the pool has handed out exactly what the regions hold.
  \<^item> \<open>Obmm_Core\<close> (\<^verbatim>\<open>obmm_core.c\<close>, \<^verbatim>\<open>obmm_lowmem.c\<close>): address queries over all regions, dispatch of the requests
    on the control device, reclaim, loading and unloading.  Every request is shown to be a sequence of the
    steps of \<open>Obmm_Region\<close>, which connects the sequential code to the interleaved model.

  \<^bold>\<open>Conventions.\<close>  C integers whose overflow matters are words of their width; return codes are integers,
  0 for success and a negated error number else; \<open>ERR_PTR\<close> results are sums; pointers to shared objects
  are natural numbers into a store.  What the kernel, the UB bus driver or the hardware provide is a
  field of an environment record over an abstract state of the world, so that the theorems hold for
  every behaviour of these parts; where a theorem needs a law of them, the law is a hypothesis of the
  theorem and an example that satisfies it follows.  Locks are not modelled as such: the
  sections that they protect are single steps, and the step relations interleave these sections.
  Reference counters and \<open>atomic_t\<close> are unbounded integers.  \<open>None\<close> as the result of an operation is a
  call that never returns or that dereferences a null pointer.

  \<^bold>\<open>Termination.\<close>  Loops over lists are structural.  Loops that wait for hardware, for a timer or for
  another thread are \<open>partial_function\<close>s over the readings that the loop makes, and the theorems state
  when they return.  No loop is bounded by an artificial amount of fuel; where a number bounds a
  recursion it is one that the code computes, such as the number of chunks or of pages.

  \<^bold>\<open>Not modelled.\<close>  Of OBMM, what only produces text (log messages, the sequence file of pre-imports, sysfs
  attributes), the storage of module parameters, and the flush of the TLB, which has no state that the
  driver reads.  The other drivers of the repository (the bus \<^verbatim>\<open>ubus\<close> and its base device
  \<^verbatim>\<open>ubase\<close>, \<^verbatim>\<open>cdma\<close>, the \<^verbatim>\<open>urma\<close> stack, the UMMU, network, VFIO, firmware, perf and sentry drivers) are not part of
  OBMM; OBMM uses two of them, the bus driver's address decoder and the UMMU, through functions that
  are parameters of the model.
\<close>

end
